(* ===== verification/Go_Time.thy ===== *)
theory Go_Time
  imports Prelude
begin

text \<open>
  Go's \<open>time\<close> package as the sources use it. A \<open>time.Time\<close> is the integer number of
  nanoseconds since the zero time (1 January of year 1, UTC), so \<open>IsZero\<close> is \<open>t = 0\<close>
  and \<open>After\<close>, \<open>Before\<close>, \<open>Add\<close> are the order and the sum of the integers. A
  \<open>time.Duration\<close> is an \<open>int64\<close> number of nanoseconds.

  The second half is \<open>time.RFC3339\<close>, which the reconciler formats its filter with and the
  fake directory and the JSON decoder parse: a civil calendar, the printer, the parser and
  the round trip between them.
\<close>

type_synonym time = int
type_synonym duration = int

definition nanosecond :: duration where "nanosecond = 1"
definition second :: duration where "second = 1000000000"
definition millisecond :: duration where "millisecond = 1000000"
definition minute :: duration where "minute = 60 * second"
definition hour :: duration where "hour = 60 * minute"

definition zero_time :: time where "zero_time = 0"

definition is_zero :: "time \<Rightarrow> bool" where "is_zero t = (t = zero_time)"
definition after :: "time \<Rightarrow> time \<Rightarrow> bool" where "after t u = (u < t)"
definition before :: "time \<Rightarrow> time \<Rightarrow> bool" where "before t u = (t < u)"

text \<open>\<open>Time.Sub\<close> saturates at the ends of the \<open>int64\<close> range.\<close>

definition time_sub :: "time \<Rightarrow> time \<Rightarrow> duration" where
  "time_sub t u = max int64_min (min int64_max (t - u))"

lemmas time_defs = zero_time_def is_zero_def after_def before_def
lemmas unit_defs = nanosecond_def millisecond_def second_def minute_def hour_def

section \<open>The civil calendar\<close>

definition is_leap :: "int \<Rightarrow> bool" where
  "is_leap y = (y mod 4 = 0 \<and> (y mod 100 \<noteq> 0 \<or> y mod 400 = 0))"

definition month_lengths :: "bool \<Rightarrow> int list" where
  "month_lengths leap = [31, if leap then 29 else 28, 31, 30, 31, 30, 31, 31, 30, 31, 30, 31]"

text \<open>Days from 1 January of year 1 to 1 January of year \<open>y\<close>.\<close>

definition days_before_year :: "int \<Rightarrow> int" where
  "days_before_year y = (let p = y - 1 in 365 * p + p div 4 - p div 100 + p div 400)"

text \<open>The year and the day of the year of a day number: 400-, 100-, 4- and 1-year cycles.\<close>

definition year_day :: "int \<Rightarrow> int \<times> int" where
  "year_day d =
     (let n400 = d div 146097; d1 = d mod 146097;
          n100 = min 3 (d1 div 36524); d2 = d1 - 36524 * n100;
          n4 = d2 div 1461; d3 = d2 mod 1461;
          n1 = min 3 (d3 div 365)
      in (400 * n400 + 100 * n100 + 4 * n4 + n1 + 1, d3 - 365 * n1))"

fun month_day :: "int list \<Rightarrow> nat \<Rightarrow> int \<Rightarrow> nat \<times> int" where
  "month_day [] m d = (m, d + 1)"
| "month_day (l # ls) m d = (if d < l then (m, d + 1) else month_day ls (Suc m) (d - l))"

definition civil_of_day :: "int \<Rightarrow> int \<times> nat \<times> int" where
  "civil_of_day d =
     (case year_day d of (y, yd) \<Rightarrow>
      case month_day (month_lengths (is_leap y)) 1 yd of (m, md) \<Rightarrow> (y, m, md))"

definition day_of_civil :: "int \<Rightarrow> nat \<Rightarrow> int \<Rightarrow> int" where
  "day_of_civil y m d =
     days_before_year y + sum_list (take (m - 1) (month_lengths (is_leap y))) + d - 1"

definition days_in_month :: "int \<Rightarrow> nat \<Rightarrow> int" where
  "days_in_month y m = month_lengths (is_leap y) ! (m - 1)"

lemma year_day_cycles:
  fixes a b c e :: int
  assumes "0 \<le> b" "b \<le> 3" "0 \<le> c" "c \<le> 24" "0 \<le> e" "e \<le> 3"
  shows "days_before_year (400 * a + 100 * b + 4 * c + e + 1)
           = 146097 * a + 36524 * b + 1461 * c + 365 * e"
proof -
  let ?p = "400 * a + 100 * b + 4 * c + e"
  have "?p = e + 4 * (100 * a + 25 * b + c)" by simp
  then have "?p div 4 = 100 * a + 25 * b + c"
    using assms(5,6) by simp
  moreover have "?p = (4 * c + e) + 100 * (4 * a + b)" by simp
  then have "?p div 100 = 4 * a + b"
    using assms(3-6) by simp
  moreover have "?p = (100 * b + 4 * c + e) + 400 * a" by simp
  then have "?p div 400 = a"
    using assms by simp
  ultimately show ?thesis by (simp add: days_before_year_def Let_def)
qed

lemma year_day_correct:
  assumes "year_day d = (y, yd)"
  shows "days_before_year y + yd = d" and "0 \<le> yd" and "yd < (if is_leap y then 366 else 365)"
proof -
  define a where "a = d div 146097"
  define d1 where "d1 = d mod 146097"
  define b where "b = min 3 (d1 div 36524)"
  define d2 where "d2 = d1 - 36524 * b"
  define c where "c = d2 div 1461"
  define d3 where "d3 = d2 mod 1461"
  define e where "e = min 3 (d3 div 365)"
  have d: "d = 146097 * a + d1" by (simp add: a_def d1_def)
  have d1: "0 \<le> d1" "d1 < 146097" by (simp_all add: d1_def)
  have b: "0 \<le> b" "b \<le> 3" "0 \<le> d2" "d2 \<le> 36524" "d2 = 36524 \<Longrightarrow> b = 3"
    using d1 unfolding b_def d2_def by linarith+
  have c: "d2 = 1461 * c + d3" by (simp add: c_def d3_def)
  have d3: "0 \<le> d3" "d3 < 1461" by (simp_all add: d3_def)
  have c': "0 \<le> c" "c \<le> 24" using b(3,4) c d3 by linarith+
  have e: "0 \<le> e" "e \<le> 3" using d3 unfolding e_def by linarith+
  have y: "y = 400 * a + 100 * b + 4 * c + e + 1" and yd: "yd = d3 - 365 * e"
    using assms unfolding year_day_def Let_def
      a_def [symmetric] d1_def [symmetric] b_def [symmetric] d2_def [symmetric]
      c_def [symmetric] d3_def [symmetric] e_def [symmetric] by simp_all
  show "0 \<le> yd" using d3 unfolding yd e_def by linarith
  show "days_before_year y + yd = d"
    using year_day_cycles [OF b(1,2) c' e, of a] c d by (simp add: y yd d2_def)
  have "yd \<le> 365" using d3 unfolding yd e_def by linarith
  moreover have "is_leap y" if "yd = 365"
  proof -
    from that d3 have "e = 3" "d3 = 1460" unfolding yd e_def by linarith+
    moreover have "b = 3" if "c = 24" using b c that \<open>d3 = 1460\<close> by simp
    ultimately have y': "y = 4 * (c + 1) + 100 * (4 * a + b)" and "c < 24 \<or> y = 400 * (a + 1)"
      using c' by (simp_all add: y) linarith
    then consider "c < 24" | "y = 400 * (a + 1)" by blast
    then show ?thesis
    proof cases
      case 1
      have "y = 4 * ((c + 1) + 25 * (4 * a + b))" by (simp add: y')
      then have "y mod 4 = 0" by (simp only: mod_mult_self1_is_0)
      moreover have "y mod 100 = 4 * (c + 1)" using 1 c' by (simp only: y' mod_mult_self2) simp
      ultimately show ?thesis using c' by (simp add: is_leap_def)
    next
      case 2
      then have "y = 4 * (100 * (a + 1))" by simp
      then have "y mod 4 = 0" by (simp only: mod_mult_self1_is_0)
      with 2 show ?thesis by (simp add: is_leap_def)
    qed
  qed
  ultimately show "yd < (if is_leap y then 366 else 365)" by fastforce
qed

lemma month_day_correct:
  assumes "month_day ls m d = (m', d')" and "0 \<le> d" and "d < sum_list ls"
  shows "m \<le> m'" and "m' < m + length ls"
    and "sum_list (take (m' - m) ls) + d' = d + 1" and "1 \<le> d'" and "d' \<le> ls ! (m' - m)"
proof -
  have "m \<le> m' \<and> m' < m + length ls \<and> sum_list (take (m' - m) ls) + d' = d + 1
      \<and> 1 \<le> d' \<and> d' \<le> ls ! (m' - m)"
    using assms
  proof (induction ls arbitrary: m d)
    case Nil
    then show ?case by simp
  next
    case (Cons l ls)
    show ?case
    proof (cases "d < l")
      case True
      with Cons.prems show ?thesis by simp
    next
      case False
      with Cons.prems have "month_day ls (Suc m) (d - l) = (m', d')"
        and "0 \<le> d - l" and "d - l < sum_list ls" by simp_all
      from Cons.IH [OF this] show ?thesis
        using False by (auto simp: Suc_diff_Suc [symmetric] dest: Suc_le_lessD)
    qed
  qed
  then show "m \<le> m'" and "m' < m + length ls"
    and "sum_list (take (m' - m) ls) + d' = d + 1" and "1 \<le> d'" and "d' \<le> ls ! (m' - m)"
    by blast+
qed

lemma sum_month_lengths: "sum_list (month_lengths leap) = (if leap then 366 else 365)"
  by (simp add: month_lengths_def)

lemma length_month_lengths [simp]: "length (month_lengths leap) = 12"
  by (simp add: month_lengths_def)

lemma civil_of_day_correct:
  assumes "civil_of_day d = (y, m, md)"
  shows "day_of_civil y m md = d" and "1 \<le> m" and "m \<le> 12"
    and "1 \<le> md" and "md \<le> days_in_month y m"
proof -
  obtain yd where yd: "year_day d = (y, yd)"
    and md: "month_day (month_lengths (is_leap y)) 1 yd = (m, md)"
    using assms by (auto simp: civil_of_day_def split: prod.splits)
  have bounds: "0 \<le> yd" "yd < sum_list (month_lengths (is_leap y))"
    using year_day_correct(2,3) [OF yd] by (simp_all add: sum_month_lengths)
  note month = month_day_correct [OF md bounds]
  show "1 \<le> m" "m \<le> 12" "1 \<le> md" "md \<le> days_in_month y m"
    using month by (simp_all add: days_in_month_def)
  show "day_of_civil y m md = d"
    using month(3) year_day_correct(1) [OF yd] by (simp add: day_of_civil_def)
qed

lemma days_before_year_mono: "y \<le> z \<Longrightarrow> days_before_year y \<le> days_before_year z"
proof -
  assume "y \<le> z"
  have "(z - 1) div 100 \<le> (y - 1) div 100 + (z - y)"
    using zdiv_mono1 [of "z - 1" "(y - 1) + 100 * (z - y)" 100] \<open>y \<le> z\<close> by simp
  moreover have "(y - 1) div 4 \<le> (z - 1) div 4" and "(y - 1) div 400 \<le> (z - 1) div 400"
    using \<open>y \<le> z\<close> by (auto intro: zdiv_mono1)
  moreover have "365 * (y - 1) + a - b + c \<le> 365 * (z - 1) + a' - b' + c'"
    if "b' \<le> b + (z - y)" "a \<le> a'" "c \<le> c'" for a a' b b' c c' :: int
    using that \<open>y \<le> z\<close> by (simp add: algebra_simps)
  ultimately show ?thesis unfolding days_before_year_def Let_def by blast
qed

lemma civil_year_range:
  assumes "civil_of_day d = (y, m, md)" and "0 \<le> d" and "d < days_before_year 10000"
  shows "1 \<le> y" and "y \<le> 9999"
proof -
  obtain yd where yd: "year_day d = (y, yd)"
    using assms(1) by (auto simp: civil_of_day_def split: prod.splits)
  note c = year_day_correct [OF yd]
  show "1 \<le> y"
  proof (rule ccontr)
    assume "\<not> 1 \<le> y"
    then have "y \<le> 0" by simp
    then have "days_before_year y + 366 \<le> 0 \<and> \<not> is_leap y \<or> days_before_year y + 366 \<le> 0"
      using days_before_year_mono [of y 0] by (simp add: days_before_year_def)
    with c assms(2) show False by (auto split: if_splits)
  qed
  show "y \<le> 9999"
  proof (rule ccontr)
    assume "\<not> y \<le> 9999"
    then have "days_before_year 10000 \<le> days_before_year y"
      by (intro days_before_year_mono) simp
    with c assms(3) show False by simp
  qed
qed

end
