(* ===== verification/Go_Errors.thy ===== *)
theory Go_Errors
  imports Go_Time
begin

text \<open>
  Go errors as values. A function of the source that returns \<open>(T, error)\<close> returns
  \<open>goerror + 'a\<close> here, one that returns \<open>error\<close> returns \<open>goerror option\<close>. The error
  chains the sources build with \<open>fmt.Errorf("...: %w", err)\<close> are kept, since
  \<open>errors.Is\<close> and \<open>errors.As\<close> walk them and the reconciler branches on what they find.

  The second half is \<open>scim/errors.go\<close>: the SCIM error payload and its predicates.
\<close>

section \<open>The SCIM error payload\<close>

record scim_error =
  se_Schemas :: "string list"
  se_Status :: string
  se_ScimType :: string
  se_Detail :: string
  se_HTTPStatus :: int

definition zero_scim_error :: scim_error where
  "zero_scim_error = \<lparr>se_Schemas = [], se_Status = [], se_ScimType = [], se_Detail = [], se_HTTPStatus = 0\<rparr>"

text \<open>\<open>(*Error).Code\<close>: the transport status first, then the decimal \<open>status\<close> member.\<close>

definition Code :: "scim_error \<Rightarrow> int" where
  "Code e =
     (if se_HTTPStatus e \<noteq> 0 then se_HTTPStatus e
      else case atoi (se_Status e) of None \<Rightarrow> 0 | Some n \<Rightarrow> n)"

definition Conflict :: "scim_error \<Rightarrow> bool" where
  "Conflict e = (Code e = 409)"

definition Credential :: "scim_error \<Rightarrow> bool" where
  "Credential e = (Code e = 401 \<or> Code e = 403)"

definition NotFound :: "scim_error \<Rightarrow> bool" where
  "NotFound e = (Code e = 404)"

definition SchemaError :: string where
  "SchemaError = ''urn:ietf:params:scim:api:messages:2.0:Error''"

definition looksLikeSCIM :: "scim_error \<Rightarrow> bool" where
  "looksLikeSCIM e =
     (SchemaError \<in> set (se_Schemas e) \<or> se_ScimType e \<noteq> [] \<or> se_Detail e \<noteq> [] \<or> se_Status e \<noteq> [])"

text \<open>\<open>truncate\<close> cuts after \<open>max\<close> bytes and appends the three bytes of the ellipsis.\<close>

definition truncate_text :: "string \<Rightarrow> nat \<Rightarrow> string" where
  "truncate_text s mx = (if length s \<le> mx then s else take mx s @ [CHR 0xE2, CHR 0x80, CHR 0xA6])"

text \<open>\<open>http.StatusText\<close>, for the codes the sources name; \<open>''''\<close> for every other code.\<close>

definition status_text :: "int \<Rightarrow> string" where
  "status_text c =
     (case map_of [(400, ''Bad Request''), (401, ''Unauthorized''), (403, ''Forbidden''),
        (404, ''Not Found''), (409, ''Conflict''), (429, ''Too Many Requests''),
        (500, ''Internal Server Error''), (502, ''Bad Gateway''),
        (503, ''Service Unavailable''), (504, ''Gateway Timeout'')] c of
      None \<Rightarrow> [] | Some s \<Rightarrow> s)"

definition Error :: "scim_error \<Rightarrow> string" where
  "Error e =
     (let detail = (if se_Detail e = [] then status_text (Code e) else se_Detail e)
      in if se_ScimType e \<noteq> []
         then ''scim: '' @ itoa (Code e) @ '' '' @ se_ScimType e @ '': '' @ detail
         else ''scim: '' @ itoa (Code e) @ '': '' @ detail)"

section \<open>Error values\<close>

text \<open>The sentinels compared with \<open>errors.Is\<close>.\<close>

datatype sentinel =
    ErrNotFound          \<comment> \<open>\<open>store.ErrNotFound\<close>\<close>
  | ErrAlreadyExists     \<comment> \<open>\<open>store.ErrAlreadyExists\<close>\<close>
  | ErrLockHeld          \<comment> \<open>\<open>postgres.ErrLockHeld\<close>\<close>
  | ErrNoRows            \<comment> \<open>\<open>pgx.ErrNoRows\<close>\<close>
  | Canceled             \<comment> \<open>\<open>context.Canceled\<close>\<close>
  | DeadlineExceeded     \<comment> \<open>\<open>context.DeadlineExceeded\<close>\<close>

datatype goerror =
    Sentinel sentinel
  | Scim scim_error             \<comment> \<open>a \<open>*scim.Error\<close>\<close>
  | Plain string                \<comment> \<open>\<open>errors.New\<close>, or \<open>fmt.Errorf\<close> without \<open>%w\<close>\<close>
  | Panic string                \<comment> \<open>a run-time panic: it unwinds its callers the way an error no test matches does\<close>
  | Wrapped string goerror      \<comment> \<open>\<open>fmt.Errorf("prefix: %w", err)\<close>\<close>

fun err_is :: "goerror \<Rightarrow> sentinel \<Rightarrow> bool" where
  "err_is (Sentinel s) t = (s = t)"
| "err_is (Scim _) t = False"
| "err_is (Plain _) t = False"
| "err_is (Panic _) t = False"
| "err_is (Wrapped _ e) t = err_is e t"

text \<open>\<open>errors.As(err, &scimErr)\<close>: the first \<open>*scim.Error\<close> of the chain.\<close>

fun err_as_scim :: "goerror \<Rightarrow> scim_error option" where
  "err_as_scim (Sentinel _) = None"
| "err_as_scim (Scim e) = Some e"
| "err_as_scim (Plain _) = None"
| "err_as_scim (Panic _) = None"
| "err_as_scim (Wrapped _ e) = err_as_scim e"

fun sentinel_text :: "sentinel \<Rightarrow> string" where
  "sentinel_text ErrNotFound = ''store: not found''"
| "sentinel_text ErrAlreadyExists = ''store: already exists''"
| "sentinel_text ErrLockHeld = ''postgres: the sync lock is held by another process''"
| "sentinel_text ErrNoRows = ''no rows in result set''"
| "sentinel_text Canceled = ''context canceled''"
| "sentinel_text DeadlineExceeded = ''context deadline exceeded''"

text \<open>\<open>err.Error()\<close>.\<close>

fun err_text :: "goerror \<Rightarrow> string" where
  "err_text (Sentinel s) = sentinel_text s"
| "err_text (Scim e) = Error e"
| "err_text (Plain m) = m"
| "err_text (Panic m) = m"
| "err_text (Wrapped p e) = p @ '': '' @ err_text e"

type_synonym 'a result = "goerror + 'a"

lemma Code_HTTPStatus: "se_HTTPStatus e \<noteq> 0 \<Longrightarrow> Code e = se_HTTPStatus e"
  by (simp add: Code_def)

lemma Conflict_not_Credential: "Conflict e \<Longrightarrow> \<not> Credential e"
  by (simp add: Conflict_def Credential_def)

lemma length_truncate: "length (truncate_text s mx) \<le> mx + 3"
  by (simp add: truncate_text_def)

lemma err_is_unique: "err_is e s \<Longrightarrow> err_is e t \<Longrightarrow> s = t"
  by (induction e) auto

lemma err_is_not_scim: "err_is e s \<Longrightarrow> err_as_scim e = None"
  by (induction e) auto

end
