(* ===== verification/Transport.thy ===== *)
theory Transport
  imports Complex_Main Go_Errors
begin

text \<open>
  What the client sits on: HTTP requests and responses, the network, the context, the
  clock, timers and the random source as a record of operations over an environment \<open>'n\<close>
  (each may change it: a context can be cancelled at any moment), the pieces of \<open>net/url\<close>
  and \<open>net/http\<close> the client calls, and the throttle of \<open>scim/limiter.go\<close>.
\<close>

section \<open>Requests and responses\<close>

record request =
  rq_Method :: string
  rq_URL :: string
  rq_Header :: "(string \<times> string) list"
  rq_Body :: "string option"

text \<open>\<open>rs_Body\<close> is what can be read of the body, \<open>rs_Broken\<close> whether reading on fails then.\<close>

record response =
  rs_StatusCode :: int
  rs_Header :: "(string \<times> string) list"
  rs_Body :: string
  rs_Broken :: bool

text \<open>\<open>Header.Get\<close>: the first value of a header, names compared without case.\<close>

fun header_get :: "(string \<times> string) list \<Rightarrow> string \<Rightarrow> string" where
  "header_get [] k = []"
| "header_get ((n, v) # hs) k = (if to_lower n = to_lower k then v else header_get hs k)"

record 'n transport =
  t_Do :: "request \<Rightarrow> 'n \<Rightarrow> response result \<times> 'n"       \<comment> \<open>\<open>http.Client.Do\<close> of the default client\<close>
  t_Err :: "'n \<Rightarrow> goerror option \<times> 'n"                  \<comment> \<open>\<open>ctx.Err\<close>\<close>
  t_Timer :: "duration \<Rightarrow> 'n \<Rightarrow> bool \<times> 'n"              \<comment> \<open>wait; false when the context ended first\<close>
  t_Now :: "'n \<Rightarrow> time \<times> 'n"                            \<comment> \<open>\<open>time.Now\<close>\<close>
  t_Rand :: "int \<Rightarrow> 'n \<Rightarrow> int \<times> 'n"                     \<comment> \<open>\<open>rand.Int64N\<close> of a positive bound\<close>

definition sleepCtx :: "'n transport \<Rightarrow> duration \<Rightarrow> 'n \<Rightarrow> goerror option \<times> 'n" where
  "sleepCtx t d n =
     (if d \<le> 0 then t_Err t n
      else case t_Timer t d n of
          (False, n') \<Rightarrow> t_Err t n'
        | (True, n') \<Rightarrow> (None, n'))"

section \<open>net/url\<close>

definition unreserved :: "char \<Rightarrow> bool" where
  "unreserved c = (c \<in> set ''abcdefghijklmnopqrstuvwxyzABCDEFGHIJKLMNOPQRSTUVWXYZ0123456789-_.~'')"

definition upper_digits :: string where "upper_digits = ''0123456789ABCDEF''"

definition percent :: "char \<Rightarrow> string" where
  "percent c = [CHR ''%'', upper_digits ! (of_char c div 16), upper_digits ! (of_char c mod 16)]"

definition PathEscape :: "string \<Rightarrow> string" where
  "PathEscape s = concat (map (\<lambda>c. if unreserved c \<or> c \<in> set ''$&+=:@'' then [c] else percent c) s)"

definition QueryEscape :: "string \<Rightarrow> string" where
  "QueryEscape s =
     concat (map (\<lambda>c. if unreserved c then [c] else if c = CHR '' '' then ''+'' else percent c) s)"

definition upper_hex :: "char \<Rightarrow> nat option" where
  "upper_hex c = map_of (zip ''0123456789ABCDEFabcdef'' ([0..<16] @ [10..<16])) c"

fun unescape :: "bool \<Rightarrow> string \<Rightarrow> string" where
  "unescape query [] = []"
| "unescape query (c # s) =
     (case s of
        a # b # r \<Rightarrow>
          if c = CHR ''%'' \<and> upper_hex a \<noteq> None \<and> upper_hex b \<noteq> None
          then char_of (16 * the (upper_hex a) + the (upper_hex b)) # unescape query r
          else (if query \<and> c = CHR ''+'' then CHR '' '' else c) # unescape query s
      | _ \<Rightarrow> (if query \<and> c = CHR ''+'' then CHR '' '' else c) # unescape query s)"

text \<open>
  \<open>base.Parse(ref).String()\<close> for the references the client builds: the base up to its last
  slash (its query is dropped), then the reference with \<open>.\<close> and \<open>..\<close> segments resolved.
\<close>

fun split_at :: "char \<Rightarrow> string \<Rightarrow> string list" where
  "split_at sep [] = [[]]"
| "split_at sep (c # s) =
     (if c = sep then [] # split_at sep s
      else case split_at sep s of [] \<Rightarrow> [[c]] | w # ws \<Rightarrow> (c # w) # ws)"

fun resolve_dots :: "string list \<Rightarrow> string list \<Rightarrow> string list" where
  "resolve_dots acc [] = acc"
| "resolve_dots acc [s] =
     (if s = ''.'' then acc @ [[]] else if s = ''..'' then butlast acc @ [[]] else acc @ [s])"
| "resolve_dots acc (s # ss) =
     (if s = ''.'' then resolve_dots acc ss
      else if s = ''..'' then resolve_dots (butlast acc) ss
      else resolve_dots (acc @ [s]) ss)"

fun join_slash :: "string list \<Rightarrow> string" where
  "join_slash [] = []"
| "join_slash [s] = s"
| "join_slash (s # ss) = s @ ''/'' @ join_slash ss"

definition base_dir :: "string \<Rightarrow> string" where
  "base_dir b = rev (dropWhile (\<lambda>c. c \<noteq> CHR ''/'') (rev (takeWhile (\<lambda>c. c \<notin> set ''?#'') b)))"

definition resolve :: "string \<Rightarrow> string \<Rightarrow> string" where
  "resolve base ref =
     base_dir base
     @ join_slash (resolve_dots [] (split_at CHR ''/'' (takeWhile (\<lambda>c. c \<noteq> CHR ''?'') ref)))
     @ dropWhile (\<lambda>c. c \<noteq> CHR ''?'') ref"

text \<open>\<open>req.URL.Path\<close>: what follows the host, up to the query, unescaped.\<close>

definition after_scheme :: "string \<Rightarrow> string" where
  "after_scheme u =
     (let r = dropWhile (\<lambda>c. c \<notin> set '':/'') u in if has_prefix r ''://'' then drop 3 r else u)"

definition url_path :: "string \<Rightarrow> string" where
  "url_path u =
     unescape False (takeWhile (\<lambda>c. c \<noteq> CHR ''?'') (dropWhile (\<lambda>c. c \<noteq> CHR ''/'') (after_scheme u)))"

text \<open>
  What \<open>url.Parse\<close> refuses: control characters, an empty scheme, a percent sign without two
  hexadecimal digits. Its checks of the host are left out.
\<close>

fun bad_escape :: "string \<Rightarrow> bool" where
  "bad_escape [] = False"
| "bad_escape (c # s) =
     (c = CHR ''%'' \<and> (length s < 2 \<or> upper_hex (s ! 0) = None \<or> upper_hex (s ! 1) = None) \<or> bad_escape s)"

definition parse_refused :: "string \<Rightarrow> bool" where
  "parse_refused u =
     (list_ex (\<lambda>c. (of_char c :: nat) < 32 \<or> (of_char c :: nat) = 127) u
      \<or> has_prefix u '':'' \<or> bad_escape (takeWhile (\<lambda>c. c \<noteq> CHR ''?'') u))"

section \<open>The throttle: scim/limiter.go\<close>

text \<open>
  The requests per second are a \<open>float64\<close> in the source and a rational here: the rounding of
  the division is not modelled. The world of a client is the throttle's \<open>next\<close> slot beside
  the environment; the mutex makes the update of \<open>next\<close> one step.
\<close>

definition newLimiter :: "rat \<Rightarrow> duration" where
  "newLimiter perSecond = (if perSecond \<le> 0 then 0 else \<lfloor>rat_of_int second / perSecond\<rfloor>)"

record 'n net =
  lim_next :: time
  env :: 'n

definition in_env :: "('n \<Rightarrow> 'a \<times> 'n) \<Rightarrow> 'n net \<Rightarrow> 'a \<times> 'n net" where
  "in_env f w = (case f (env w) of (a, n) \<Rightarrow> (a, w\<lparr>env := n\<rparr>))"

lemma in_env_iff: "in_env f w = (a, w') \<longleftrightarrow> f (env w) = (a, env w') \<and> lim_next w' = lim_next w"
  by (cases w; cases w') (auto simp: in_env_def split: prod.splits)

text \<open>The slot a caller arriving at \<open>now\<close> gets: its delay, and the slot after it.\<close>

definition take_slot :: "duration \<Rightarrow> time \<Rightarrow> time \<Rightarrow> duration \<times> time" where
  "take_slot interval now next0 =
     (let next1 = (if before next0 now then now else next0) in (time_sub next1 now, next1 + interval))"

definition limiter_wait ::
  "'n transport \<Rightarrow> duration \<Rightarrow> (duration \<Rightarrow> 'n \<Rightarrow> goerror option \<times> 'n) \<Rightarrow> 'n net \<Rightarrow> goerror option \<times> 'n net" where
  "limiter_wait t interval sleep w =
     (if interval = 0 then in_env (t_Err t) w
      else
        case in_env (t_Now t) w of (now, w1) \<Rightarrow>
        case take_slot interval now (lim_next w1) of (delay, next') \<Rightarrow>
        let w2 = w1\<lparr>lim_next := next'\<rparr> in
        if delay \<le> 0 then in_env (t_Err t) w2
        else in_env (sleep delay) w2)"

text \<open>
  The slots handed out to callers arriving at the times \<open>nows\<close>, one after the other (the
  mutex orders them): each caller leaves the throttle no earlier than its slot.
\<close>

fun slots :: "duration \<Rightarrow> time \<Rightarrow> time list \<Rightarrow> time list" where
  "slots interval next0 [] = []"
| "slots interval next0 (now # nows) =
     (case take_slot interval now next0 of (delay, next1) \<Rightarrow>
        (now + delay) # slots interval next1 nows)"

lemma newLimiter_nonneg: "0 \<le> newLimiter r"
  by (simp add: newLimiter_def second_def zero_le_floor)

lemma newLimiter_zero: "newLimiter r = 0 \<longleftrightarrow> r \<le> 0 \<or> of_int second < r"
  by (auto simp: newLimiter_def second_def floor_eq_iff divide_less_eq zero_le_divide_iff)


lemma take_slot_exact:
  assumes "take_slot interval now next0 = (delay, next1)" and "next0 - now \<le> int64_max"
  shows "now + delay = max now next0" and "next1 = max now next0 + interval"
  using assms by (auto simp: take_slot_def time_sub_def time_defs Let_def int64_min_def int64_max_def
      max_def min_def split: if_splits)

text \<open>
  No caller leaves before it arrived, and any two leave at least \<open>interval\<close> apart, as long as
  the arrivals and the slots stay within the range of a duration.
\<close>

lemma slots_spaced:
  assumes "0 \<le> interval" and "\<forall>now \<in> set nows. lo \<le> now \<and> now \<le> hi" and "next0 \<le> hi"
    and "hi + int (length nows) * interval - lo \<le> int64_max"
  shows "sorted_wrt (\<lambda>a b. a + interval \<le> b) (slots interval next0 nows)
    \<and> list_all2 (\<le>) nows (slots interval next0 nows) \<and> list_all ((\<le>) next0) (slots interval next0 nows)"
  using assms(2-)
proof (induction nows arbitrary: next0 hi)
  case (Cons now nows)
  obtain delay next1 where slot: "take_slot interval now next0 = (delay, next1)" by fastforce
  have room: "hi + interval + int (length nows) * interval - lo \<le> int64_max"
    using Cons.prems(3) by (simp add: algebra_simps)
  moreover have "0 \<le> int (length nows) * interval" using assms(1) by simp
  moreover have "lo \<le> now" "next0 \<le> hi" using Cons.prems by simp_all
  ultimately have "next0 - now \<le> int64_max" using assms(1) by linarith
  note exact = take_slot_exact [OF slot this]
  have "\<forall>now \<in> set nows. lo \<le> now \<and> now \<le> hi + interval" "next1 \<le> hi + interval"
    using Cons.prems assms(1) exact(2) by fastforce+
  note rest = Cons.IH [OF this room]
  with exact assms(1) show ?case by (auto simp: slot list_all_iff)
qed simp

end
