(* ===== verification/Rfc3339.thy ===== *)
theory Rfc3339
  imports Go_Time "HOL-Library.Monad_Syntax"
begin

text \<open>
  \<open>time.RFC3339\<close>: \<open>t.UTC().Format(time.RFC3339)\<close>, which the reconciler puts in its
  filter, and \<open>time.Parse(time.RFC3339, s)\<close>, which the fake directory reads the filter
  with and \<open>encoding/json\<close> reads \<open>meta.lastModified\<close> with. Formatting drops the
  fraction of a second; parsing accepts one, and a numeric zone.
\<close>

definition seconds_per_day :: int where "seconds_per_day = 86400"

definition pad :: "nat \<Rightarrow> nat \<Rightarrow> string" where
  "pad w n = (let s = nat_digits n in replicate (w - length s) CHR ''0'' @ s)"

definition format_clock :: "time \<Rightarrow> string" where
  "format_clock t =
     (let secs = t div second; day = secs div seconds_per_day; s = secs mod seconds_per_day
      in case civil_of_day day of (y, m, d) \<Rightarrow>
        pad 4 (nat y) @ ''-'' @ pad 2 m @ ''-'' @ pad 2 (nat d) @ ''T'' @
        pad 2 (nat (s div 3600)) @ '':'' @ pad 2 (nat (s mod 3600 div 60)) @ '':'' @
        pad 2 (nat (s mod 60)))"

definition format_rfc3339 :: "time \<Rightarrow> string" where
  "format_rfc3339 t = format_clock t @ ''Z''"

definition fixed :: "nat \<Rightarrow> string \<Rightarrow> (nat \<times> string) option" where
  "fixed w s =
     (if length s < w then None
      else case parse_digits 0 (take w s) of None \<Rightarrow> None | Some v \<Rightarrow> Some (v, drop w s))"

definition expect :: "string \<Rightarrow> string \<Rightarrow> string option" where
  "expect p s = (if has_prefix s p then Some (drop (length p) s) else None)"

definition is_digit :: "char \<Rightarrow> bool" where
  "is_digit c = (digit_val c \<noteq> None)"

text \<open>The optional fraction of a second, in nanoseconds; digits past the ninth are dropped.\<close>

definition parse_fraction :: "string \<Rightarrow> (int \<times> string) option" where
  "parse_fraction s =
     (if has_prefix s ''.'' then
        (let ds = takeWhile is_digit (tl s)
         in if ds = [] then None
            else case parse_digits 0 (take 9 (ds @ replicate 9 CHR ''0'')) of
                None \<Rightarrow> None | Some v \<Rightarrow> Some (int v, dropWhile is_digit (tl s)))
      else Some (0, s))"

text \<open>The zone, \<open>Z\<close> or a signed \<open>hh:mm\<close>, as an offset in seconds; nothing may follow.\<close>

definition parse_zone :: "string \<Rightarrow> int option" where
  "parse_zone s =
     (if s = ''Z'' then Some 0
      else if s = [] \<or> hd s \<noteq> CHR ''+'' \<and> hd s \<noteq> CHR ''-'' then None
      else do {
        (h, s1) \<leftarrow> fixed 2 (tl s);
        s2 \<leftarrow> expect '':'' s1;
        (m, s3) \<leftarrow> fixed 2 s2;
        if s3 = [] \<and> h < 24 \<and> m < 60
        then Some ((if hd s = CHR ''-'' then - 1 else 1) * (3600 * int h + 60 * int m))
        else None
      })"

definition parse_rfc3339 :: "string \<Rightarrow> time option" where
  "parse_rfc3339 s0 = do {
     (y, s1) \<leftarrow> fixed 4 s0;
     s2 \<leftarrow> expect ''-'' s1;
     (m, s3) \<leftarrow> fixed 2 s2;
     s4 \<leftarrow> expect ''-'' s3;
     (d, s5) \<leftarrow> fixed 2 s4;
     s6 \<leftarrow> expect ''T'' s5;
     (hh, s7) \<leftarrow> fixed 2 s6;
     s8 \<leftarrow> expect '':'' s7;
     (mm, s9) \<leftarrow> fixed 2 s8;
     s10 \<leftarrow> expect '':'' s9;
     (ss, s11) \<leftarrow> fixed 2 s10;
     (ns, s12) \<leftarrow> parse_fraction s11;
     off \<leftarrow> parse_zone s12;
     if 1 \<le> m \<and> m \<le> 12 \<and> 1 \<le> d \<and> int d \<le> days_in_month (int y) m
        \<and> hh < 24 \<and> mm < 60 \<and> ss < 60
     then Some ((seconds_per_day * day_of_civil (int y) m (int d)
                 + 3600 * int hh + 60 * int mm + int ss - off) * second + ns)
     else None
   }"

text \<open>The last instant the four-digit year can write.\<close>

definition max_rfc3339 :: time where
  "max_rfc3339 = days_before_year 10000 * seconds_per_day * second"

section \<open>Round trip\<close>

lemma length_nat_digits: "0 < w \<Longrightarrow> n < 10 ^ w \<Longrightarrow> length (nat_digits n) \<le> w"
proof (induction w arbitrary: n)
  case 0
  then show ?case by simp
next
  case (Suc w)
  show ?case
  proof (cases "n < 10")
    case True
    then show ?thesis by (subst nat_digits.simps) simp
  next
    case False
    with Suc.prems have "0 < w" by (cases w) auto
    moreover have "n div 10 < 10 ^ w" using Suc.prems by (simp add: less_mult_imp_div_less mult.commute)
    ultimately have "length (nat_digits (n div 10)) \<le> w" by (rule Suc.IH)
    with False show ?thesis by (subst nat_digits.simps) simp
  qed
qed

lemma digit_val_0 [simp]: "digit_val CHR ''0'' = Some 0"
  by (simp add: digit_val_def)

lemma parse_digits_zeros: "parse_digits 0 (replicate k CHR ''0'' @ s) = parse_digits 0 s"
  by (induction k) simp_all

lemma length_pad: "0 < w \<Longrightarrow> n < 10 ^ w \<Longrightarrow> length (pad w n) = w"
  using length_nat_digits [of w n] by (simp add: pad_def Let_def)

lemma fixed_pad [simp]: "0 < w \<Longrightarrow> n < 10 ^ w \<Longrightarrow> fixed w (pad w n @ s) = Some (n, s)"
  using length_pad [of w n]
  by (simp add: fixed_def) (simp add: pad_def Let_def parse_digits_zeros parse_digits_nat_digits)

lemma expect_append [simp]: "expect p (p @ s) = Some s"
  by (simp add: expect_def)

lemma expect_Cons [simp]: "expect [c] (c # s) = Some s"
  using expect_append [of "[c]" s] by simp

lemma parse_fraction_Z [simp]: "parse_fraction ''Z'' = Some (0, ''Z'')"
  by (simp add: parse_fraction_def has_prefix_def)

lemma parse_zone_Z [simp]: "parse_zone ''Z'' = Some 0"
  by (simp add: parse_zone_def)

lemma parse_printed_fields:
  assumes "y < 10 ^ 4" "1 \<le> m" "m \<le> 12" "1 \<le> d" "int d \<le> days_in_month (int y) m"
    and "hh < 24" "mm < 60" "ss < 60" and "parse_fraction r = Some (ns, ''Z'')"
  shows "parse_rfc3339 (pad 4 y @ ''-'' @ pad 2 m @ ''-'' @ pad 2 d @ ''T'' @
            pad 2 hh @ '':'' @ pad 2 mm @ '':'' @ pad 2 ss @ r)
         = Some ((seconds_per_day * day_of_civil (int y) m (int d)
                   + 3600 * int hh + 60 * int mm + int ss) * second + ns)"
proof -
  have "days_in_month (int y) m \<le> 31"
    using assms(2,3) by (auto simp: days_in_month_def month_lengths_def nth_Cons split: nat.splits)
  with assms have "m < 10 ^ 2" "d < 10 ^ 2" "hh < 10 ^ 2" "mm < 10 ^ 2" "ss < 10 ^ 2"
    by simp_all
  with assms show ?thesis
    by (simp only: parse_rfc3339_def fixed_pad expect_append assms(9) parse_zone_Z
        Option.bind.bind_lunit prod.case zero_less_numeral) simp
qed

lemma split_seconds:
  fixes s :: int
  assumes "0 \<le> s" and "s < 86400"
  shows "3600 * (s div 3600) + 60 * (s mod 3600 div 60) + s mod 60 = s"
    and "0 \<le> s div 3600" and "s div 3600 < 24"
    and "0 \<le> s mod 3600 div 60" and "s mod 3600 div 60 < 60"
proof -
  have "60 * (s mod 3600 div 60) + s mod 3600 mod 60 = s mod 3600"
    by (rule mult_div_mod_eq)
  moreover have "s mod 3600 mod 60 = s mod 60" by (rule mod_mod_cancel) simp
  moreover have "3600 * (s div 3600) + s mod 3600 = s" by (rule mult_div_mod_eq)
  ultimately show "3600 * (s div 3600) + 60 * (s mod 3600 div 60) + s mod 60 = s"
    by linarith
  show "0 \<le> s div 3600" and "s div 3600 < 24"
    using assms by (simp_all add: pos_imp_zdiv_nonneg_iff div_less_iff_less_mult)
  show "0 \<le> s mod 3600 div 60" and "s mod 3600 div 60 < 60"
    by (simp_all add: pos_imp_zdiv_nonneg_iff div_less_iff_less_mult)
qed

text \<open>A printed time is read back, cut to the second, with whatever fraction follows it.\<close>

lemma parse_format_clock:
  assumes "0 \<le> t" and "t < max_rfc3339" and "parse_fraction r = Some (ns, ''Z'')"
  shows "parse_rfc3339 (format_clock t @ r) = Some (t - t mod second + ns)"
proof -
  define secs where "secs = t div second"
  define day where "day = secs div seconds_per_day"
  define s where "s = secs mod seconds_per_day"
  obtain y m d where civil: "civil_of_day day = (y, m, d)" by (metis prod_cases3)
  note c = civil_of_day_correct [OF civil]
  have secs: "0 \<le> secs" "secs < days_before_year 10000 * seconds_per_day"
    using assms by (simp_all add: secs_def max_rfc3339_def unit_defs pos_imp_zdiv_nonneg_iff
        div_less_iff_less_mult)
  then have "0 \<le> day" and "day < days_before_year 10000"
    by (simp_all add: day_def seconds_per_day_def pos_imp_zdiv_nonneg_iff div_less_iff_less_mult)
  note y = civil_year_range [OF civil this]
  have "0 \<le> s" "s < 86400" by (simp_all add: s_def seconds_per_day_def)
  note s = split_seconds [OF this]
  obtain hh mm ss where h: "hh = s div 3600" "mm = s mod 3600 div 60" "ss = s mod 60"
    by blast
  have hms: "3600 * hh + 60 * mm + ss = s" "0 \<le> hh" "hh < 24" "0 \<le> mm" "mm < 60" "0 \<le> ss" "ss < 60"
    using s unfolding h [symmetric] by (simp_all add: h(3))
  have "format_clock t @ r =
      pad 4 (nat y) @ ''-'' @ pad 2 m @ ''-'' @ pad 2 (nat d) @ ''T'' @
      pad 2 (nat hh) @ '':'' @ pad 2 (nat mm) @ '':'' @ pad 2 (nat ss) @ r"
    by (simp only: format_clock_def append_assoc Let_def secs_def [symmetric] day_def [symmetric]
        s_def [symmetric] civil prod.case h)
  also have "parse_rfc3339 \<dots> =
      Some ((seconds_per_day * day_of_civil (int (nat y)) m (int (nat d))
        + 3600 * int (nat hh) + 60 * int (nat mm) + int (nat ss)) * second + ns)"
    by (rule parse_printed_fields) (use y c hms assms(3) in \<open>simp_all add: nat_less_iff Suc_le_eq\<close>)
  also have "\<dots> = Some ((seconds_per_day * day + s) * second + ns)"
    using y c hms by simp
  also have "(seconds_per_day * day + s) * second = t - t mod second"
    by (simp add: day_def s_def secs_def minus_mod_eq_div_mult)
  finally show ?thesis .
qed

text \<open>Parsing what the code printed gives the same instant, cut to the second.\<close>

theorem parse_format_rfc3339:
  assumes "0 \<le> t" and "t < max_rfc3339"
  shows "parse_rfc3339 (format_rfc3339 t) = Some (t - t mod second)"
  using parse_format_clock [OF assms parse_fraction_Z] by (simp add: format_rfc3339_def)

end
