(* ===== verification/Http_Date.thy ===== *)
theory Http_Date
  imports Rfc3339
begin

text \<open>
  \<open>http.ParseTime\<close>, with which the client reads the date form of \<open>Retry-After\<close>: the
  formats \<open>Mon, 02 Jan 2006 15:04:05 GMT\<close>, \<open>Monday, 02-Jan-06 15:04:05 MST\<close> and
  \<open>Mon Jan _2 15:04:05 2006\<close>, tried in this order. The zone of the second is read as UTC,
  and the fraction of a second that \<open>time.Parse\<close> tolerates is not accepted.
\<close>

definition day_names :: "string list" where
  "day_names = [''monday'', ''tuesday'', ''wednesday'', ''thursday'', ''friday'', ''saturday'', ''sunday'']"

definition month_names :: "string list" where
  "month_names = [''jan'', ''feb'', ''mar'', ''apr'', ''may'', ''jun'', ''jul'', ''aug'', ''sep'',
     ''oct'', ''nov'', ''dec'']"

text \<open>\<open>lookup\<close>: the first name the text starts with, without regard to case.\<close>

fun lookup_name :: "nat \<Rightarrow> string list \<Rightarrow> string \<Rightarrow> (nat \<times> string) option" where
  "lookup_name i [] s = None"
| "lookup_name i (n # ns) s =
     (if to_lower (take (length n) s) = n then Some (i, drop (length n) s) else lookup_name (Suc i) ns s)"

text \<open>One or two digits; exactly two when the layout has a leading zero.\<close>

definition getnum :: "bool \<Rightarrow> string \<Rightarrow> (nat \<times> string) option" where
  "getnum two s =
     (case s of
        [] \<Rightarrow> None
      | a # r \<Rightarrow>
          (case digit_val a of
             None \<Rightarrow> None
           | Some x \<Rightarrow>
               (case r of
                  b # r' \<Rightarrow>
                    (case digit_val b of
                       Some y \<Rightarrow> Some (10 * x + y, r')
                     | None \<Rightarrow> if two then None else Some (x, r))
                | [] \<Rightarrow> if two then None else Some (x, r))))"

definition expect_space :: "string \<Rightarrow> string option" where
  "expect_space s = (if s \<noteq> [] \<and> hd s \<noteq> CHR '' '' then None else Some (dropWhile (\<lambda>c. c = CHR '' '') s))"

definition clock_time :: "string \<Rightarrow> (int \<times> string) option" where
  "clock_time s0 = do {
     (hh, s1) \<leftarrow> getnum False s0;
     s2 \<leftarrow> expect '':'' s1;
     (mm, s3) \<leftarrow> getnum True s2;
     s4 \<leftarrow> expect '':'' s3;
     (ss, s5) \<leftarrow> getnum True s4;
     if hh < 24 \<and> mm < 60 \<and> ss < 60 then Some (3600 * int hh + 60 * int mm + int ss, s5) else None
   }"

definition civil_time :: "int \<Rightarrow> nat \<Rightarrow> nat \<Rightarrow> int \<Rightarrow> time option" where
  "civil_time y m d secs =
     (if 1 \<le> d \<and> int d \<le> days_in_month y m
      then Some ((seconds_per_day * day_of_civil y m (int d) + secs) * second) else None)"

definition parse_imf :: "string \<Rightarrow> time option" where
  "parse_imf s0 = do {
     (_, s1) \<leftarrow> lookup_name 0 (map (take 3) day_names) s0;
     s2 \<leftarrow> expect '','' s1;
     s3 \<leftarrow> expect_space s2;
     (d, s4) \<leftarrow> getnum True s3;
     s5 \<leftarrow> expect_space s4;
     (m, s6) \<leftarrow> lookup_name 1 month_names s5;
     s7 \<leftarrow> expect_space s6;
     (y, s8) \<leftarrow> fixed 4 s7;
     s9 \<leftarrow> expect_space s8;
     (secs, s10) \<leftarrow> clock_time s9;
     s11 \<leftarrow> expect_space s10;
     if s11 = ''GMT'' then civil_time (int y) m d secs else None
   }"

definition parse_rfc850 :: "string \<Rightarrow> time option" where
  "parse_rfc850 s0 = do {
     (_, s1) \<leftarrow> lookup_name 0 day_names s0;
     s2 \<leftarrow> expect '','' s1;
     s3 \<leftarrow> expect_space s2;
     (d, s4) \<leftarrow> getnum True s3;
     s5 \<leftarrow> expect ''-'' s4;
     (m, s6) \<leftarrow> lookup_name 1 month_names s5;
     s7 \<leftarrow> expect ''-'' s6;
     (y, s8) \<leftarrow> getnum True s7;
     s9 \<leftarrow> expect_space s8;
     (secs, s10) \<leftarrow> clock_time s9;
     s11 \<leftarrow> expect_space s10;
     if length s11 = 3 \<and> list_all (\<lambda>c. c \<in> set ''ABCDEFGHIJKLMNOPQRSTUVWXYZ'') s11
     then civil_time (if 69 \<le> y then 1900 + int y else 2000 + int y) m d secs else None
   }"

definition parse_ansic :: "string \<Rightarrow> time option" where
  "parse_ansic s0 = do {
     (_, s1) \<leftarrow> lookup_name 0 (map (take 3) day_names) s0;
     s2 \<leftarrow> expect_space s1;
     (m, s3) \<leftarrow> lookup_name 1 month_names s2;
     s4 \<leftarrow> expect_space s3;
     (d, s5) \<leftarrow> getnum False s4;
     s6 \<leftarrow> expect_space s5;
     (secs, s7) \<leftarrow> clock_time s6;
     s8 \<leftarrow> expect_space s7;
     (y, s9) \<leftarrow> fixed 4 s8;
     if s9 = [] then civil_time (int y) m d secs else None
   }"

definition ParseTime :: "string \<Rightarrow> time option" where
  "ParseTime s =
     (case parse_imf s of
        Some t \<Rightarrow> Some t
      | None \<Rightarrow> (case parse_rfc850 s of Some t \<Rightarrow> Some t | None \<Rightarrow> parse_ansic s))"

end
