(* ===== verification/Json.thy ===== *)
theory Json
  imports Go_Errors
begin

text \<open>
  \<open>encoding/json\<close> as the sources use it: the text of a value, the parser of
  \<open>json.Unmarshal\<close> (a whole document) and of \<open>json.Decoder.Decode\<close> (the first value of
  a stream), and the rules by which a value is decoded into a Go variable. The parser is
  fuelled by the length of its input; \<open>parse_print\<close> shows that this is enough for every text
  the printer writes. The wording of decoding errors is not modelled.

  A number literal with a fraction or an exponent is kept as text (\<open>JFloat\<close>): no variable of
  the sources can take it.
\<close>

datatype json =
    JNull
  | JBool bool
  | JNum int
  | JFloat string
  | JStr string
  | JArr "json list"
  | JObj "(string \<times> json) list"

section \<open>Strings\<close>

definition hex_digits :: string where "hex_digits = ''0123456789abcdef''"

definition hex_val :: "char \<Rightarrow> nat option" where
  "hex_val c = map_of (zip ''0123456789abcdefABCDEF'' ([0..<16] @ [10..<16])) c"

definition is_control :: "char \<Rightarrow> bool" where
  "is_control c = ((of_char c :: nat) < 32)"

lemma is_control_code [code]: "is_control (Char b0 b1 b2 b3 b4 b5 b6 b7) = (\<not> b5 \<and> \<not> b6 \<and> \<not> b7)"
  by (cases b0; cases b1; cases b2; cases b3; cases b4; cases b5; cases b6; cases b7)
    (simp_all add: is_control_def)

definition esc_char :: "char \<Rightarrow> string" where
  "esc_char c =
     (if c = CHR 0x22 then [CHR 0x5C, CHR 0x22]
      else if c = CHR 0x5C then [CHR 0x5C, CHR 0x5C]
      else if c = CHR 0x0A then [CHR 0x5C, CHR ''n'']
      else if c = CHR 0x0D then [CHR 0x5C, CHR ''r'']
      else if c = CHR 0x09 then [CHR 0x5C, CHR ''t'']
      else if is_control c \<or> c \<in> {CHR ''<'', CHR ''>'', CHR ''&''} then
        [CHR 0x5C, CHR ''u'', CHR ''0'', CHR ''0'',
         hex_digits ! (of_char c div 16), hex_digits ! (of_char c mod 16)]
      else [c])"

definition escape :: "string \<Rightarrow> string" where
  "escape s = concat (map esc_char s)"

definition unescape_char :: "char \<Rightarrow> char option" where
  "unescape_char e =
     map_of [(CHR 0x22, CHR 0x22), (CHR 0x5C, CHR 0x5C), (CHR ''/'', CHR ''/''),
       (CHR ''b'', CHR 0x08), (CHR ''f'', CHR 0x0C), (CHR ''n'', CHR 0x0A),
       (CHR ''r'', CHR 0x0D), (CHR ''t'', CHR 0x09)] e"

definition hex4 :: "char \<Rightarrow> char \<Rightarrow> char \<Rightarrow> char \<Rightarrow> nat option" where
  "hex4 a b c d =
     (case (hex_val a, hex_val b, hex_val c, hex_val d) of
        (Some w, Some x, Some y, Some z) \<Rightarrow> Some (4096 * w + 256 * x + 16 * y + z)
      | _ \<Rightarrow> None)"

definition utf8 :: "nat \<Rightarrow> string" where
  "utf8 n =
     (if n < 128 then [char_of n]
      else if n < 2048 then [char_of (192 + n div 64), char_of (128 + n mod 64)]
      else if n < 65536 then
        [char_of (224 + n div 4096), char_of (128 + n div 64 mod 64), char_of (128 + n mod 64)]
      else [char_of (240 + n div 262144), char_of (128 + n div 4096 mod 64),
            char_of (128 + n div 64 mod 64), char_of (128 + n mod 64)])"

definition high_surrogate :: "nat \<Rightarrow> bool" where "high_surrogate n = (55296 \<le> n \<and> n < 56320)"
definition low_surrogate :: "nat \<Rightarrow> bool" where "low_surrogate n = (56320 \<le> n \<and> n < 57344)"

text \<open>
  An escape sequence, without its backslash: the text it stands for and what follows. A
  surrogate without its partner becomes U+FFFD.
\<close>

definition escape_u :: "string \<Rightarrow> (nat \<times> string) option" where
  "escape_u s =
     (if length s < 5 \<or> s ! 0 \<noteq> CHR ''u'' then None
      else map_option (\<lambda>n. (n, drop 5 s)) (hex4 (s ! 1) (s ! 2) (s ! 3) (s ! 4)))"

definition second_half :: "string \<Rightarrow> (nat \<times> string) option" where
  "second_half s =
     (if s \<noteq> [] \<and> hd s = CHR 0x5C then
        (case escape_u (tl s) of
           Some (m, r) \<Rightarrow> if low_surrogate m then Some (m, r) else None
         | None \<Rightarrow> None)
      else None)"

definition escaped :: "string \<Rightarrow> (string \<times> string) option" where
  "escaped s =
     (if s = [] then None
      else if hd s \<noteq> CHR ''u'' then map_option (\<lambda>c. ([c], tl s)) (unescape_char (hd s))
      else
        case escape_u s of
          None \<Rightarrow> None
        | Some (n, r) \<Rightarrow>
            if high_surrogate n then
              (case second_half r of
                 Some (m, r') \<Rightarrow> Some (utf8 (65536 + (n - 55296) * 1024 + (m - 56320)), r')
               | None \<Rightarrow> Some (utf8 65533, r))
            else if low_surrogate n then Some (utf8 65533, r)
            else Some (utf8 n, r))"

lemma escape_u_shorter: "escape_u s = Some (n, r) \<Longrightarrow> length r < length s"
  by (auto simp: escape_u_def split: if_splits)

lemma second_half_shorter: "second_half s = Some (n, r) \<Longrightarrow> length r < length s"
  by (cases s) (auto simp: second_half_def split: if_splits option.splits dest: escape_u_shorter)

lemma escaped_shorter: "escaped s = Some (t, r) \<Longrightarrow> length r < length s"
  by (cases s)
    (auto simp: escaped_def split: if_splits option.splits dest!: escape_u_shorter second_half_shorter)

text \<open>The text after the opening quote, up to the closing one.\<close>

function parse_string :: "string \<Rightarrow> (string \<times> string) option" where
  "parse_string [] = None"
| "parse_string (c # r) =
     (if c = CHR 0x22 then Some ([], r)
      else if is_control c then None
      else if c \<noteq> CHR 0x5C then map_option (map_prod ((#) c) id) (parse_string r)
      else case escaped r of
          None \<Rightarrow> None
        | Some (t, r') \<Rightarrow> map_option (map_prod ((@) t) id) (parse_string r'))"
  by pat_completeness auto
termination
  by (relation "measure length") (auto dest: escaped_shorter)

section \<open>Values\<close>

fun join :: "string \<Rightarrow> string list \<Rightarrow> string" where
  "join sep [] = []"
| "join sep [x] = x"
| "join sep (x # xs) = x @ sep @ join sep xs"

definition print_string :: "string \<Rightarrow> string" where
  "print_string s = CHR 0x22 # escape s @ [CHR 0x22]"

fun print_json :: "json \<Rightarrow> string" where
  "print_json JNull = ''null''"
| "print_json (JBool b) = (if b then ''true'' else ''false'')"
| "print_json (JNum n) = itoa n"
| "print_json (JFloat s) = s"
| "print_json (JStr s) = print_string s"
| "print_json (JArr vs) = ''['' @ join '','' (map print_json vs) @ '']''"
| "print_json (JObj kvs) = ''{'' @ join '','' (map (\<lambda>(k, v). print_string k @ '':'' @ print_json v) kvs) @ ''}''"

definition is_ws :: "char \<Rightarrow> bool" where
  "is_ws c = (c = CHR '' '' \<or> c = CHR 0x09 \<or> c = CHR 0x0A \<or> c = CHR 0x0D)"

definition token :: "string \<Rightarrow> (char \<times> string) option" where
  "token s = (case dropWhile is_ws s of [] \<Rightarrow> None | c # r \<Rightarrow> Some (c, r))"

definition json_digit :: "char \<Rightarrow> bool" where
  "json_digit c = (digit_val c \<noteq> None)"

text \<open>A number literal: an optional minus, digits without a leading zero, and what follows.\<close>

definition parse_number :: "string \<Rightarrow> (json \<times> string) option" where
  "parse_number s =
     (let neg = (s \<noteq> [] \<and> hd s = CHR ''-''); s1 = (if neg then tl s else s);
          ds = takeWhile json_digit s1; r = dropWhile json_digit s1 in
      case parse_nat ds of
        None \<Rightarrow> None
      | Some n \<Rightarrow>
          if hd ds = CHR ''0'' \<and> 1 < length ds then None
          else if r \<noteq> [] \<and> hd r \<in> {CHR ''.'', CHR ''e'', CHR ''E''} then
            (let f = (if hd r = CHR ''.'' then takeWhile json_digit (tl r) else []);
                 r1 = (if hd r = CHR ''.'' then dropWhile json_digit (tl r) else r);
                 is_exp = (r1 \<noteq> [] \<and> hd r1 \<in> {CHR ''e'', CHR ''E''});
                 r2 = (if is_exp then
                         (if tl r1 \<noteq> [] \<and> hd (tl r1) \<in> {CHR ''+'', CHR ''-''} then tl (tl r1) else tl r1)
                       else r1);
                 r3 = (if is_exp then dropWhile json_digit r2 else r2) in
             if hd r = CHR ''.'' \<and> f = [] \<or> is_exp \<and> takeWhile json_digit r2 = [] then None
             else Some (JFloat (take (length s - length r3) s), r3))
          else Some (JNum (if neg then - int n else int n), r))"

definition parse_literal :: "string \<Rightarrow> (json \<times> string) option" where
  "parse_literal s =
     (if has_prefix s ''null'' then Some (JNull, drop 4 s)
      else if has_prefix s ''true'' then Some (JBool True, drop 4 s)
      else if has_prefix s ''false'' then Some (JBool False, drop 5 s)
      else parse_number s)"

fun parse_value :: "nat \<Rightarrow> string \<Rightarrow> (json \<times> string) option"
  and parse_elems :: "nat \<Rightarrow> string \<Rightarrow> (json list \<times> string) option"
  and parse_members :: "nat \<Rightarrow> string \<Rightarrow> ((string \<times> json) list \<times> string) option" where
  "parse_value 0 s = None"
| "parse_value (Suc n) s =
     (case token s of
        None \<Rightarrow> None
      | Some (c, r) \<Rightarrow>
          if c = CHR 0x22 then map_option (map_prod JStr id) (parse_string r)
          else if c = CHR ''['' then
            (case token r of
               None \<Rightarrow> None
             | Some (c', r') \<Rightarrow>
                 if c' = CHR '']'' then Some (JArr [], r')
                 else map_option (map_prod JArr id) (parse_elems n r))
          else if c = CHR ''{'' then
            (case token r of
               None \<Rightarrow> None
             | Some (c', r') \<Rightarrow>
                 if c' = CHR ''}'' then Some (JObj [], r')
                 else map_option (map_prod JObj id) (parse_members n r))
          else parse_literal (c # r))"
| "parse_elems 0 s = None"
| "parse_elems (Suc n) s =
     (case parse_value n s of
        None \<Rightarrow> None
      | Some (v, r) \<Rightarrow>
          (case token r of
             None \<Rightarrow> None
           | Some (c, r') \<Rightarrow>
               if c = CHR '']'' then Some ([v], r')
               else if c = CHR '','' then map_option (map_prod ((#) v) id) (parse_elems n r')
               else None))"
| "parse_members 0 s = None"
| "parse_members (Suc n) s =
     (case token s of
        None \<Rightarrow> None
      | Some (c0, r0) \<Rightarrow>
          if c0 \<noteq> CHR 0x22 then None
          else case parse_string r0 of
              None \<Rightarrow> None
            | Some (k, r1) \<Rightarrow>
                (case token r1 of
                   None \<Rightarrow> None
                 | Some (c1, r2) \<Rightarrow>
                     if c1 \<noteq> CHR '':'' then None
                     else case parse_value n r2 of
                         None \<Rightarrow> None
                       | Some (v, r3) \<Rightarrow>
                           (case token r3 of
                              None \<Rightarrow> None
                            | Some (c2, r4) \<Rightarrow>
                                if c2 = CHR ''}'' then Some ([(k, v)], r4)
                                else if c2 = CHR '','' then
                                  map_option (map_prod ((#) (k, v)) id) (parse_members n r4)
                                else None)))"

text \<open>The first value of a stream, and the value that is the whole document.\<close>

definition json_first :: "string \<Rightarrow> json option" where
  "json_first s = map_option fst (parse_value (Suc (length s)) s)"

definition json_whole :: "string \<Rightarrow> json option" where
  "json_whole s =
     (case parse_value (Suc (length s)) s of
        None \<Rightarrow> None
      | Some (v, r) \<Rightarrow> if token r = None then Some v else None)"

section \<open>Parsing what was printed\<close>

text \<open>Values the printer writes so that the parser reads them back: no \<open>JFloat\<close>.\<close>

fun printable :: "json \<Rightarrow> bool" where
  "printable (JFloat s) = False"
| "printable (JArr vs) = list_all printable vs"
| "printable (JObj kvs) = list_all (\<lambda>(k, v). printable v) kvs"
| "printable _ = True"

text \<open>What may follow a value without changing how it is read.\<close>

definition delimited :: "string \<Rightarrow> bool" where
  "delimited r = (r = [] \<or> hd r \<in> {CHR '','', CHR '']'', CHR ''}'', CHR 0x0A})"

lemma hex_val_digit: "k < 16 \<Longrightarrow> hex_val (hex_digits ! k) = Some k"
proof -
  have "\<forall>k \<in> set [0..<16]. hex_val (hex_digits ! k) = Some k" by code_simp
  then show "k < 16 \<Longrightarrow> hex_val (hex_digits ! k) = Some k" by simp
qed

lemma parse_esc_char: "parse_string (esc_char c @ t) = map_option (map_prod ((#) c) id) (parse_string t)"
proof -
  have one: "(@) [x] = (#) x" for x :: char by (rule ext) simp
  have hex: "parse_string ([CHR 0x5C, CHR ''u'', CHR ''0'', CHR ''0'',
       hex_digits ! (of_char c div 16), hex_digits ! (of_char c mod 16)] @ t)
     = map_option (map_prod ((#) c) id) (parse_string t)" if "(of_char c :: nat) < 128"
  proof -
    have h: "hex_val (hex_digits ! (of_char c div 16)) = Some (of_char c div 16)"
      "hex_val (hex_digits ! (of_char c mod 16)) = Some (of_char c mod 16)"
      using that by (auto intro!: hex_val_digit)
    have "hex_val CHR ''0'' = Some 0" by (simp add: hex_val_def upt_rec)
    then have "hex4 CHR ''0'' CHR ''0'' (hex_digits ! (of_char c div 16)) (hex_digits ! (of_char c mod 16))
        = Some (of_char c)"
      by (simp add: hex4_def h)
    then have "escaped ([CHR ''u'', CHR ''0'', CHR ''0'', hex_digits ! (of_char c div 16),
         hex_digits ! (of_char c mod 16)] @ t) = Some ([c], t)"
      using that by (simp add: escaped_def escape_u_def high_surrogate_def low_surrogate_def utf8_def)
    then show ?thesis by (simp add: one is_control_def)
  qed
  have "(of_char c :: nat) < 128" if "c \<in> {CHR ''<'', CHR ''>'', CHR ''&''}" using that by auto
  then have small: "(of_char c :: nat) < 128" if "is_control c \<or> c \<in> {CHR ''<'', CHR ''>'', CHR ''&''}"
    using that by (auto simp: is_control_def)
  show ?thesis
  proof (cases "c \<in> {CHR 0x22, CHR 0x5C, CHR 0x0A, CHR 0x0D, CHR 0x09}")
    case True
    then show ?thesis by (auto simp: esc_char_def escaped_def unescape_char_def one is_control_def)
  next
    case False
    then show ?thesis using hex small by (simp add: esc_char_def)
  qed
qed

lemma parse_escape: "parse_string (escape s @ CHR 0x22 # t) = Some (s, t)"
proof (induction s)
  case (Cons c s)
  have "parse_string (escape (c # s) @ CHR 0x22 # t) =
      map_option (map_prod ((#) c) id) (parse_string (escape s @ CHR 0x22 # t))"
    using parse_esc_char [of c "escape s @ CHR 0x22 # t"] by (simp add: escape_def)
  with Cons show ?case by simp
qed (simp add: escape_def)

lemma digit_facts: "k < 10 \<Longrightarrow> json_digit (digit k) \<and> digit k \<notin> {CHR ''n'', CHR ''t'', CHR ''f'', CHR ''-'',
    CHR '' '', CHR 0x09, CHR 0x0A, CHR 0x0D, CHR 0x22, CHR ''['', CHR '']'', CHR ''{'', CHR ''}''}"
  by (drule digit_cases) (elim disjE; simp add: digit_def json_digit_def digit_val_def)

lemma nat_digits_digits: "c \<in> set (nat_digits n) \<Longrightarrow> json_digit c"
proof (induction n rule: nat_digits.induct)
  case (1 n)
  then show ?case
    by (subst (asm) (2) nat_digits.simps) (auto simp: digit_facts split: if_splits)
qed

lemma hd_nat_digits_zero: "hd (nat_digits n) = CHR ''0'' \<Longrightarrow> n = 0"
proof (induction n rule: nat_digits.induct)
  case (1 n)
  show ?case
  proof (cases "n < 10")
    case True
    with 1(2) have "digit n = digit 0" by (subst (asm) nat_digits.simps) (simp add: digit_def)
    with True show ?thesis by (metis digit_val_digit option.inject zero_less_numeral)
  next
    case False
    with 1(2) have "hd (nat_digits (n div 10)) = CHR ''0''"
      by (subst (asm) nat_digits.simps) simp
    with 1(1) [OF False] False show ?thesis by simp
  qed
qed

lemma split_digits:
  assumes "delimited r"
  shows "takeWhile json_digit (nat_digits n @ r) = nat_digits n"
    and "dropWhile json_digit (nat_digits n @ r) = r"
proof -
  have r: "r = [] \<or> \<not> json_digit (hd r)"
    using assms by (auto simp: delimited_def json_digit_def digit_val_def)
  show "takeWhile json_digit (nat_digits n @ r) = nat_digits n"
    using r nat_digits_digits by (cases r) (auto simp: takeWhile_append takeWhile_eq_all_conv)
  show "dropWhile json_digit (nat_digits n @ r) = r"
    using r nat_digits_digits by (cases r) (auto simp: dropWhile_append)
qed

lemma parse_print_number:
  assumes "delimited r"
  shows "parse_number (itoa n @ r) = Some (JNum n, r)"
proof -
  have one: "\<not> (hd (nat_digits k) = CHR ''0'' \<and> 1 < length (nat_digits k))" for k
    using hd_nat_digits_zero [of k] by (auto simp: nat_digits_small)
  have r: "\<not> (r \<noteq> [] \<and> hd r \<in> {CHR ''.'', CHR ''e'', CHR ''E''})"
    using assms by (auto simp: delimited_def)
  show ?thesis
  proof (cases "n < 0")
    case True
    with one [of "nat (- n)"] r show ?thesis
      by (simp add: itoa_def parse_number_def Let_def split_digits [OF assms] del: insert_iff)
  next
    case False
    with one [of "nat n"] r show ?thesis
      by (simp add: itoa_def parse_number_def Let_def split_digits [OF assms] del: insert_iff)
  qed
qed

lemma itoa_head:
  "\<exists>c t. itoa n = c # t \<and> c \<notin> {CHR ''n'', CHR ''t'', CHR ''f'', CHR '' '', CHR 0x09, CHR 0x0A, CHR 0x0D,
     CHR 0x22, CHR ''['', CHR '']'', CHR ''{'', CHR ''}''}"
proof (cases "n < 0")
  case False
  obtain d where "d < 10" and d: "hd (nat_digits (nat n)) = digit d" using hd_nat_digits by blast
  then have "nat_digits (nat n) = digit d # tl (nat_digits (nat n))"
    using list.collapse [OF nat_digits_not_Nil] by metis
  with digit_facts [OF \<open>d < 10\<close>] False show ?thesis
    by (intro exI [of _ "digit d"] exI [of _ "tl (nat_digits (nat n))"]) (simp add: itoa_def)
qed (simp add: itoa_def)

lemma print_head:
  assumes "printable v"
  shows "\<exists>c t. print_json v = c # t \<and> \<not> is_ws c \<and> c \<noteq> CHR '']''"
proof (cases v)
  case (JNum n)
  then show ?thesis using itoa_head [of n] by (auto simp: is_ws_def)
qed (use assms in \<open>auto simp: is_ws_def print_string_def\<close>)

lemma token_Cons [simp]: "\<not> is_ws c \<Longrightarrow> token (c # s) = Some (c, s)"
  by (simp add: token_def)

lemma parse_literal_print:
  "parse_literal (''null'' @ r) = Some (JNull, r)"
  "parse_literal (''true'' @ r) = Some (JBool True, r)"
  "parse_literal (''false'' @ r) = Some (JBool False, r)"
  by (simp_all add: parse_literal_def has_prefix_def)

lemma parse_literal_number: "delimited r \<Longrightarrow> parse_literal (itoa n @ r) = Some (JNum n, r)"
  using itoa_head [of n] parse_print_number [of r n] by (auto simp: parse_literal_def has_prefix_def)

lemma delimited_intros [simp]:
  "delimited (CHR '','' # t)" "delimited (CHR '']'' # t)" "delimited (CHR ''}'' # t)" "delimited []"
  by (simp_all add: delimited_def)

lemma join_Cons: "join sep (x # xs) = x @ (if xs = [] then [] else sep @ join sep xs)"
  by (cases xs) simp_all

definition print_member :: "string \<times> json \<Rightarrow> string" where
  "print_member kv = print_string (fst kv) @ '':'' @ print_json (snd kv)"

lemma print_member_append:
  "print_member (k, v) @ t = CHR 0x22 # escape k @ CHR 0x22 # CHR '':'' # print_json v @ t"
  by (simp add: print_member_def print_string_def)

lemma print_object: "print_json (JObj kvs) = ''{'' @ join '','' (map print_member kvs) @ ''}''"
proof -
  have "(\<lambda>(k, v). print_string k @ '':'' @ print_json v) = print_member"
    by (auto simp: print_member_def)
  then show ?thesis by simp
qed

text \<open>Lists of elements and members, given that their values are read back.\<close>

lemma parse_elems_print:
  assumes "\<And>v n r. v \<in> set vs \<Longrightarrow> length (print_json v) < n \<Longrightarrow> delimited r \<Longrightarrow>
      parse_value n (print_json v @ r) = Some (v, r)"
    and "vs \<noteq> []" and "length (join '','' (map print_json vs)) + 1 < n"
  shows "parse_elems n (join '','' (map print_json vs) @ CHR '']'' # r) = Some (vs, r)"
  using assms
proof (induction vs arbitrary: n)
  case (Cons v vs)
  from Cons.prems(3) obtain m where n: "n = Suc m" by (cases n) auto
  have len: "length (print_json v) < m"
    using Cons.prems(3) by (simp add: n join_Cons split: if_splits)
  note head = Cons.prems(1) [OF list.set_intros(1) len]
  show ?case
  proof (cases "vs = []")
    case True
    then show ?thesis using head by (simp add: n token_def is_ws_def)
  next
    case False
    have "parse_elems m (join '','' (map print_json vs) @ CHR '']'' # r) = Some (vs, r)"
      using Cons.prems False by (intro Cons.IH) (auto simp: n join_Cons)
    then show ?thesis using head False by (simp add: n join_Cons token_def is_ws_def)
  qed
qed simp

lemma parse_members_print:
  assumes "\<And>k v n r. (k, v) \<in> set kvs \<Longrightarrow> length (print_json v) < n \<Longrightarrow> delimited r \<Longrightarrow>
      parse_value n (print_json v @ r) = Some (v, r)"
    and "kvs \<noteq> []" and "length (join '','' (map print_member kvs)) + 1 < n"
  shows "parse_members n (join '','' (map print_member kvs) @ CHR ''}'' # r) = Some (kvs, r)"
  using assms
proof (induction kvs arbitrary: n)
  case (Cons kv kvs)
  obtain k v where kv: "kv = (k, v)" by fastforce
  from Cons.prems(3) obtain m where n: "n = Suc m" by (cases n) auto
  have len: "length (print_json v) < m"
    using Cons.prems(3) by (simp add: n kv print_member_def join_Cons split: if_splits)
  have head: "delimited s \<Longrightarrow> parse_value m (print_json v @ s) = Some (v, s)" for s
    by (rule Cons.prems(1) [of k v, OF _ len]) (simp_all add: kv)
  show ?case
  proof (cases "kvs = []")
    case True
    then show ?thesis
      using head by (simp add: n kv print_member_append parse_escape token_def is_ws_def)
  next
    case False
    have "parse_members m (join '','' (map print_member kvs) @ CHR ''}'' # r) = Some (kvs, r)"
      using Cons.prems False by (intro Cons.IH) (auto simp: n join_Cons)
    then show ?thesis using head False
      by (simp add: n kv join_Cons print_member_append parse_escape token_def is_ws_def)
  qed
qed simp

lemma parse_value_print:
  assumes "printable v" and "length (print_json v) < n" and "delimited r"
  shows "parse_value n (print_json v @ r) = Some (v, r)"
  using assms
proof (induction v arbitrary: n r)
  case (JNum k)
  then obtain m where n: "n = Suc m" by (cases n) auto
  from itoa_head [of k] obtain c t where c: "itoa k = c # t" "\<not> is_ws c"
      "c \<noteq> CHR 0x22" "c \<noteq> CHR ''[''" "c \<noteq> CHR ''{''"
    by (auto simp: is_ws_def)
  then show ?case using parse_literal_number [OF JNum.prems(3), of k] by (simp add: n)
next
  case (JStr s)
  then obtain m where n: "n = Suc m" by (cases n) auto
  show ?case by (simp add: n print_string_def token_def is_ws_def parse_escape)
next
  case (JArr vs)
  then obtain m where n: "n = Suc m" by (cases n) auto
  have all: "printable v" if "v \<in> set vs" for v
    using JArr.prems(1) that by (simp add: list_all_iff)
  show ?case
  proof (cases "vs = []")
    case True
    then show ?thesis by (simp add: n token_def is_ws_def)
  next
    case False
    then obtain c t where c: "join '','' (map print_json vs) = c # t" "\<not> is_ws c" "c \<noteq> CHR '']''"
      using print_head [OF all [OF hd_in_set]] by (cases vs) (auto simp: join_Cons)
    have "parse_elems m (join '','' (map print_json vs) @ CHR '']'' # r) = Some (vs, r)"
      using JArr.prems False by (intro parse_elems_print JArr.IH all) (auto simp: n)
    with c show ?thesis by (simp add: n is_ws_def)
  qed
next
  case (JObj kvs)
  then obtain m where n: "n = Suc m" by (cases n) auto
  show ?case
  proof (cases "kvs = []")
    case True
    then show ?thesis by (simp add: n token_def is_ws_def)
  next
    case False
    then obtain t where c: "join '','' (map print_member kvs) = CHR 0x22 # t"
      by (cases kvs) (auto simp: join_Cons print_member_def print_string_def)
    have "parse_members m (join '','' (map print_member kvs) @ CHR ''}'' # r) = Some (kvs, r)"
    proof (rule parse_members_print [OF _ False])
      show "length (join '','' (map print_member kvs)) + 1 < m"
        using JObj.prems(2) unfolding print_object by (simp add: n)
      show "parse_value i (print_json v @ s) = Some (v, s)"
        if "(k, v) \<in> set kvs" "length (print_json v) < i" "delimited s" for k v i s
      proof (rule JObj.IH [OF that(1)])
        show "v \<in> Basic_BNFs.snds (k, v)" by simp
        show "printable v" using JObj.prems(1) that(1) by (auto simp: list_all_iff)
      qed (fact that)+
    qed
    with c show ?thesis
      unfolding print_object by (simp add: n is_ws_def)
  qed
qed (auto simp: gr0_conv_Suc less_eq_Suc_le token_def is_ws_def parse_literal_print [simplified]
      dest!: Suc_le_D split: if_splits)

theorem parse_print:
  assumes "printable v"
  shows "json_whole (print_json v) = Some v" and "json_first (print_json v) = Some v"
  using parse_value_print [OF assms lessI, of "[]"] by (simp_all add: json_whole_def json_first_def token_def)

end
