(* ===== verification/Scim_Types.thy ===== *)
theory Scim_Types
  imports Json
begin

text \<open>
  \<open>scim/types.go\<close>: the SCIM 2.0 subset the client reads. The \<open>active\<close> flag is a
  \<open>*bool\<close> in the source and a \<open>bool option\<close> here: \<open>None\<close> is the missing attribute,
  which nothing may read as "disabled".
\<close>

definition SchemaUser :: string where
  "SchemaUser = ''urn:ietf:params:scim:schemas:core:2.0:User''"

definition SchemaList :: string where
  "SchemaList = ''urn:ietf:params:scim:api:messages:2.0:ListResponse''"

definition SchemaPatchOp :: string where
  "SchemaPatchOp = ''urn:ietf:params:scim:api:messages:2.0:PatchOp''"

definition ContentType :: string where
  "ContentType = ''application/scim+json''"

record name =
  n_GivenName :: string
  n_FamilyName :: string

record email =
  e_Value :: string
  e_Primary :: bool
  e_Type :: string

record meta =
  m_ResourceType :: string
  m_Created :: time
  m_LastModified :: time

record user =
  u_Schemas :: "string list"
  u_ID :: string
  u_ExternalID :: string
  u_UserName :: string
  u_DisplayName :: string
  u_Name :: name
  u_Emails :: "email list"
  u_Active :: "bool option"
  u_Meta :: meta

definition zero_name :: name where
  "zero_name = \<lparr>n_GivenName = [], n_FamilyName = []\<rparr>"

definition zero_email :: email where
  "zero_email = \<lparr>e_Value = [], e_Primary = False, e_Type = []\<rparr>"

definition zero_meta :: meta where
  "zero_meta = \<lparr>m_ResourceType = [], m_Created = zero_time, m_LastModified = zero_time\<rparr>"

definition zero_user :: user where
  "zero_user = \<lparr>u_Schemas = [], u_ID = [], u_ExternalID = [], u_UserName = [],
     u_DisplayName = [], u_Name = zero_name, u_Emails = [], u_Active = None, u_Meta = zero_meta\<rparr>"

abbreviation LastModified :: "user \<Rightarrow> time" where
  "LastModified u \<equiv> m_LastModified (u_Meta u)"

text \<open>The loop of \<open>PrimaryEmail\<close>: the first address marked primary.\<close>

fun first_primary :: "email list \<Rightarrow> string option" where
  "first_primary [] = None"
| "first_primary (e # es) = (if e_Primary e then Some (e_Value e) else first_primary es)"

definition PrimaryEmail :: "user \<Rightarrow> string" where
  "PrimaryEmail u =
     (case first_primary (u_Emails u) of
        Some v \<Rightarrow> v
      | None \<Rightarrow> (case u_Emails u of e # _ \<Rightarrow> e_Value e | [] \<Rightarrow> u_UserName u))"

record provider_config =
  pc_Schemas :: "string list"
  pc_PatchSupported :: bool
  pc_FilterSupported :: bool
  pc_FilterMaxResults :: int

definition zero_provider_config :: provider_config where
  "zero_provider_config = \<lparr>pc_Schemas = [], pc_PatchSupported = False,
     pc_FilterSupported = False, pc_FilterMaxResults = 0\<rparr>"

text \<open>A PATCH operation; \<open>Value\<close> is of type \<open>any\<close>: nil, a string, a flag, or another value as it was read.\<close>

datatype op_value = VNil | VStr string | VBool bool | VAny json

record operation =
  op_Op :: string
  op_Path :: string
  op_Value :: op_value

record patch_op =
  po_Schemas :: "string list"
  po_Operations :: "operation list"

definition NewExternalIDPatch :: "string \<Rightarrow> patch_op" where
  "NewExternalIDPatch externalID =
     \<lparr>po_Schemas = [SchemaPatchOp],
      po_Operations = [\<lparr>op_Op = ''replace'', op_Path = ''externalId'', op_Value = VStr externalID\<rparr>]\<rparr>"

lemma first_primary_None: "first_primary es = None \<longleftrightarrow> (\<forall>e \<in> set es. \<not> e_Primary e)"
  by (induction es) auto

lemma PrimaryEmail_no_emails [simp]: "u_Emails u = [] \<Longrightarrow> PrimaryEmail u = u_UserName u"
  by (simp add: PrimaryEmail_def)

lemma PrimaryEmail_origin:
  "PrimaryEmail u = u_UserName u \<or> (\<exists>e \<in> set (u_Emails u). PrimaryEmail u = e_Value e)"
proof -
  have "first_primary es = Some v \<Longrightarrow> \<exists>e \<in> set es. v = e_Value e" for es v
    by (induction es) (auto split: if_splits)
  then show ?thesis
    by (auto simp: PrimaryEmail_def split: option.splits list.splits)
qed

end
