(* ===== verification/Scim_Json.thy ===== *)
theory Scim_Json
  imports Json Scim_Types Rfc3339
begin

text \<open>
  The rules by which \<open>encoding/json\<close> fills the sources' structures, and the structures it
  fills: the client decodes every response with them. A decoder takes the value read and
  the variable as it stands, and returns the variable as decoding leaves it, or \<open>None\<close> for
  an error: \<open>null\<close> leaves a variable alone (but sets a pointer or a slice to nil), a value
  of another type is an error, member names are matched without regard to case, and unknown
  members are skipped. Of a member that occurs twice the later value is decoded over the
  earlier one; that Go then reuses the elements of a slice is not modelled.
\<close>

type_synonym 'a decoder = "json \<Rightarrow> 'a \<Rightarrow> 'a option"

fun dec_string :: "string decoder" where
  "dec_string (JStr s) old = Some s"
| "dec_string JNull old = Some old"
| "dec_string _ old = None"

fun dec_bool :: "bool decoder" where
  "dec_bool (JBool b) old = Some b"
| "dec_bool JNull old = Some old"
| "dec_bool _ old = None"

text \<open>A \<open>*bool\<close>: the one place where an absent value and \<open>false\<close> differ.\<close>

fun dec_bool_ptr :: "bool option decoder" where
  "dec_bool_ptr (JBool b) old = Some (Some b)"
| "dec_bool_ptr JNull old = Some None"
| "dec_bool_ptr _ old = None"

fun dec_int :: "int decoder" where
  "dec_int (JNum n) old = (if in_int64 n then Some n else None)"
| "dec_int JNull old = Some old"
| "dec_int _ old = None"

fun dec_time :: "time decoder" where
  "dec_time (JStr s) old = parse_rfc3339 s"
| "dec_time JNull old = Some old"
| "dec_time _ old = None"

text \<open>\<open>json.RawMessage\<close>: the value itself, whatever it is.\<close>

definition dec_raw :: "json decoder" where "dec_raw v old = Some v"

fun all_some :: "'a option list \<Rightarrow> 'a list option" where
  "all_some [] = Some []"
| "all_some (None # xs) = None"
| "all_some (Some x # xs) = map_option ((#) x) (all_some xs)"

text \<open>A slice of elements of zero value \<open>z\<close>.\<close>

fun dec_list :: "'a decoder \<Rightarrow> 'a \<Rightarrow> 'a list decoder" where
  "dec_list d z (JArr vs) old = all_some (map (\<lambda>v. d v z) vs)"
| "dec_list d z JNull old = Some []"
| "dec_list d z _ old = None"

text \<open>A struct is decoded by a table of its fields: name on the wire, and how a value is stored.\<close>

type_synonym 'r field = "string \<times> 'r decoder"

definition field :: "string \<Rightarrow> 'a decoder \<Rightarrow> ('r \<Rightarrow> 'a) \<Rightarrow> (('a \<Rightarrow> 'a) \<Rightarrow> 'r \<Rightarrow> 'r) \<Rightarrow> 'r field" where
  "field name d get upd = (name, \<lambda>v r. map_option (\<lambda>a. upd (\<lambda>_. a) r) (d v (get r)))"

fun find_field :: "'r field list \<Rightarrow> string \<Rightarrow> 'r decoder option" where
  "find_field [] k = None"
| "find_field ((name, d) # fs) k = (if to_lower name = to_lower k then Some d else find_field fs k)"

fun dec_members :: "'r field list \<Rightarrow> (string \<times> json) list \<Rightarrow> 'r \<Rightarrow> 'r option" where
  "dec_members fs [] r = Some r"
| "dec_members fs ((k, v) # kvs) r =
     (case find_field fs k of
        None \<Rightarrow> dec_members fs kvs r
      | Some d \<Rightarrow> (case d v r of None \<Rightarrow> None | Some r' \<Rightarrow> dec_members fs kvs r'))"

fun dec_struct :: "'r field list \<Rightarrow> 'r decoder" where
  "dec_struct fs (JObj kvs) old = dec_members fs kvs old"
| "dec_struct fs JNull old = Some old"
| "dec_struct fs _ old = None"

section \<open>The structures of the wire\<close>

definition dec_name :: "name decoder" where
  "dec_name = dec_struct
     [field ''givenName'' dec_string n_GivenName n_GivenName_update,
      field ''familyName'' dec_string n_FamilyName n_FamilyName_update]"

definition dec_email :: "email decoder" where
  "dec_email = dec_struct
     [field ''value'' dec_string e_Value e_Value_update,
      field ''primary'' dec_bool e_Primary e_Primary_update,
      field ''type'' dec_string e_Type e_Type_update]"

definition dec_meta :: "meta decoder" where
  "dec_meta = dec_struct
     [field ''resourceType'' dec_string m_ResourceType m_ResourceType_update,
      field ''created'' dec_time m_Created m_Created_update,
      field ''lastModified'' dec_time m_LastModified m_LastModified_update]"

definition user_fields :: "user field list" where
  "user_fields =
     [field ''schemas'' (dec_list dec_string []) u_Schemas u_Schemas_update,
      field ''id'' dec_string u_ID u_ID_update,
      field ''externalId'' dec_string u_ExternalID u_ExternalID_update,
      field ''userName'' dec_string u_UserName u_UserName_update,
      field ''displayName'' dec_string u_DisplayName u_DisplayName_update,
      field ''name'' dec_name u_Name u_Name_update,
      field ''emails'' (dec_list dec_email zero_email) u_Emails u_Emails_update,
      field ''active'' dec_bool_ptr u_Active u_Active_update,
      field ''meta'' dec_meta u_Meta u_Meta_update]"

definition dec_user :: "user decoder" where
  "dec_user = dec_struct user_fields"

record list_response =
  lr_Schemas :: "string list"
  lr_TotalResults :: int
  lr_StartIndex :: int
  lr_ItemsPerPage :: int
  lr_Resources :: "json list"

definition zero_list_response :: list_response where
  "zero_list_response = \<lparr>lr_Schemas = [], lr_TotalResults = 0, lr_StartIndex = 0,
     lr_ItemsPerPage = 0, lr_Resources = []\<rparr>"

definition list_response_fields :: "list_response field list" where
  "list_response_fields =
     [field ''schemas'' (dec_list dec_string []) lr_Schemas lr_Schemas_update,
      field ''totalResults'' dec_int lr_TotalResults lr_TotalResults_update,
      field ''startIndex'' dec_int lr_StartIndex lr_StartIndex_update,
      field ''itemsPerPage'' dec_int lr_ItemsPerPage lr_ItemsPerPage_update,
      field ''Resources'' (dec_list dec_raw JNull) lr_Resources lr_Resources_update]"

definition dec_list_response :: "list_response decoder" where
  "dec_list_response = dec_struct list_response_fields"

definition dec_scim_error :: "scim_error decoder" where
  "dec_scim_error = dec_struct
     [field ''schemas'' (dec_list dec_string []) se_Schemas se_Schemas_update,
      field ''status'' dec_string se_Status se_Status_update,
      field ''scimType'' dec_string se_ScimType se_ScimType_update,
      field ''detail'' dec_string se_Detail se_Detail_update]"

text \<open>The two anonymous structs of \<open>ProviderConfig\<close> are decoded in place.\<close>

definition dec_provider_config :: "provider_config decoder" where
  "dec_provider_config = dec_struct
     [field ''schemas'' (dec_list dec_string []) pc_Schemas pc_Schemas_update,
      (''patch'', dec_struct [field ''supported'' dec_bool pc_PatchSupported pc_PatchSupported_update]),
      (''filter'', dec_struct
         [field ''supported'' dec_bool pc_FilterSupported pc_FilterSupported_update,
          field ''maxResults'' dec_int pc_FilterMaxResults pc_FilterMaxResults_update])]"

text \<open>\<open>json.Unmarshal\<close> of a value into a fresh variable; the wording of the error is not modelled.\<close>

definition decode_error :: goerror where
  "decode_error = Plain ''json: cannot decode''"

definition unmarshal :: "'a decoder \<Rightarrow> 'a \<Rightarrow> json \<Rightarrow> 'a result" where
  "unmarshal d z v = (case d v z of None \<Rightarrow> Inl decode_error | Some a \<Rightarrow> Inr a)"

text \<open>\<open>(*ListResponse).Users\<close>.\<close>

fun decode_users :: "nat \<Rightarrow> json list \<Rightarrow> user list result" where
  "decode_users i [] = Inr []"
| "decode_users i (raw # raws) =
     (case unmarshal dec_user zero_user raw of
        Inl e \<Rightarrow> Inl (Wrapped (''decode record '' @ itoa (int i)) e)
      | Inr u \<Rightarrow> (case decode_users (Suc i) raws of Inl e \<Rightarrow> Inl e | Inr us \<Rightarrow> Inr (u # us)))"

definition Users :: "list_response \<Rightarrow> user list result" where
  "Users lr = decode_users 0 (lr_Resources lr)"

section \<open>Encoding\<close>

text \<open>\<open>json.Marshal\<close> of a \<open>PatchOp\<close>, the only body the client sends; \<open>omitempty\<close> drops
  an empty path and a nil value.\<close>

fun enc_value :: "op_value \<Rightarrow> json" where
  "enc_value VNil = JNull"
| "enc_value (VStr s) = JStr s"
| "enc_value (VBool b) = JBool b"
| "enc_value (VAny v) = v"

definition enc_operation :: "operation \<Rightarrow> json" where
  "enc_operation oper =
     JObj ([(''op'', JStr (op_Op oper))]
       @ (if op_Path oper = [] then [] else [(''path'', JStr (op_Path oper))])
       @ (if op_Value oper = VNil then [] else [(''value'', enc_value (op_Value oper))]))"

definition enc_patch_op :: "patch_op \<Rightarrow> json" where
  "enc_patch_op p =
     JObj [(''schemas'', JArr (map JStr (po_Schemas p))),
           (''Operations'', JArr (map enc_operation (po_Operations p)))]"

section \<open>What decoding keeps\<close>

lemma all_some_iff: "all_some xs = Some ys \<longleftrightarrow> xs = map Some ys"
proof (induction xs arbitrary: ys)
  case (Cons x xs)
  then show ?case by (cases x; cases ys) auto
qed auto

text \<open>An invariant of every field's decoder is an invariant of the struct's.\<close>

lemma find_field_in: "find_field fs k = Some d \<Longrightarrow> \<exists>name. (name, d) \<in> set fs \<and> to_lower name = to_lower k"
  by (induction fs k rule: find_field.induct) (auto split: if_splits)

lemma dec_members_invariant:
  assumes "dec_members fs kvs r = Some r'" and "P r"
    and "\<And>name d v r r'. (name, d) \<in> set fs \<Longrightarrow> P r \<Longrightarrow> d v r = Some r' \<Longrightarrow> P r'"
  shows "P r'"
  using assms(1,2)
proof (induction kvs arbitrary: r)
  case (Cons kv kvs)
  obtain k v where kv: "kv = (k, v)" by fastforce
  show ?case
  proof (cases "find_field fs k")
    case None
    with Cons.prems Cons.IH [of r] show ?thesis by (simp add: kv)
  next
    case (Some d)
    with Cons.prems(1) obtain r1 where r1: "d v r = Some r1" "dec_members fs kvs r1 = Some r'"
      by (auto simp: kv split: option.splits)
    from find_field_in [OF Some] obtain name where "(name, d) \<in> set fs" by blast
    from assms(3) [OF this Cons.prems(2) r1(1)] have "P r1" .
    with Cons.IH r1(2) show ?thesis by blast
  qed
qed simp

lemma dec_int_range: "dec_int v n = Some n' \<Longrightarrow> in_int64 n \<Longrightarrow> in_int64 n'"
  by (cases v) (auto split: if_splits)

lemma dec_list_response_range:
  assumes "dec_list_response v zero_list_response = Some lr"
  shows "in_int64 (lr_TotalResults lr)"
proof -
  have z: "in_int64 (lr_TotalResults zero_list_response)"
    by (simp add: zero_list_response_def in_int64_def int64_min_def int64_max_def)
  show ?thesis
  proof (cases v)
    case (JObj kvs)
    with assms have "dec_members list_response_fields kvs zero_list_response = Some lr"
      by (simp add: dec_list_response_def)
    then show ?thesis
      by (rule dec_members_invariant [where P = "\<lambda>lr. in_int64 (lr_TotalResults lr)", OF _ z])
        (auto simp: list_response_fields_def field_def dest: dec_int_range)
  qed (use assms z in \<open>auto simp: dec_list_response_def\<close>)
qed

text \<open>
  A record without the member \<open>active\<close> decodes with no flag, never with the flag false.
\<close>

lemma dec_members_frame:
  assumes "dec_members fs kvs r = Some r'"
    and "\<And>k v d r r'. (k, v) \<in> set kvs \<Longrightarrow> find_field fs k = Some d \<Longrightarrow> d v r = Some r' \<Longrightarrow> get r' = get r"
  shows "get r' = get r"
  using assms
proof (induction kvs arbitrary: r)
  case (Cons kv kvs)
  obtain k v where kv: "kv = (k, v)" by fastforce
  note tail = Cons.prems(2) [OF list.set_intros(2)]
  show ?case
  proof (cases "find_field fs k")
    case None
    with Cons.prems(1) have "dec_members fs kvs r = Some r'" by (simp add: kv)
    from Cons.IH [OF this tail] show ?thesis .
  next
    case (Some d)
    with Cons.prems(1) obtain r1 where r1: "d v r = Some r1" "dec_members fs kvs r1 = Some r'"
      by (auto simp: kv split: option.splits)
    from Cons.IH [OF r1(2) tail] have "get r' = get r1" .
    also have "get r1 = get r" by (rule Cons.prems(2) [OF _ Some r1(1)]) (simp add: kv)
    finally show ?thesis .
  qed
qed simp

lemma missing_active:
  assumes "dec_user (JObj kvs) zero_user = Some u"
    and "\<And>k. k \<in> fst ` set kvs \<Longrightarrow> to_lower k \<noteq> ''active''"
  shows "u_Active u = None"
proof -
  have "u_Active u = u_Active zero_user"
  proof (rule dec_members_frame [where get = u_Active])
    show "dec_members user_fields kvs zero_user = Some u" using assms(1) by (simp add: dec_user_def)
    fix k v d and r r' :: user
    assume "(k, v) \<in> set kvs" and d: "find_field user_fields k = Some d" "d v r = Some r'"
    with assms(2) have k: "to_lower k \<noteq> ''active''" by force
    have lower: "to_lower ''active'' = ''active''" by (simp add: to_lower_def to_lower_char_def)
    obtain name where "(name, d) \<in> set user_fields" "to_lower name = to_lower k"
      using find_field_in [OF d(1)] by blast
    with k lower d(2) show "u_Active r' = u_Active r"
      by (auto simp: user_fields_def field_def)
  qed
  then show ?thesis by (simp add: zero_user_def)
qed

end
