(* ===== verification/Client.thy ===== *)
theory Client
  imports Transport Http_Date Scim_Json
begin

text \<open>
  \<open>scim/client.go\<close> and \<open>decodeError\<close> of \<open>scim/errors.go\<close>: the SCIM client over the
  operations of \<open>Transport\<close>. A function of the client threads the world of the client, the
  throttle's next slot and the environment. \<open>context.Context\<close> is part of the environment,
  whose \<open>t_Err\<close> is \<open>ctx.Err()\<close>.
\<close>

section \<open>Construction\<close>

record 'n client_options =
  co_BaseURL :: string
  co_Token :: string
  co_HTTPClient :: "(request \<Rightarrow> 'n \<Rightarrow> response result \<times> 'n) option"
  co_MaxRetries :: int
  co_RequestsPerSecond :: rat
  co_UserAgent :: string
  co_Sleep :: "(duration \<Rightarrow> 'n \<Rightarrow> goerror option \<times> 'n) option"
  co_Backoff :: "(int \<Rightarrow> 'n \<Rightarrow> duration result \<times> 'n) option"

record 'n client =
  cl_t :: "'n transport"
  cl_base :: string
  cl_token :: string
  cl_hc :: "request \<Rightarrow> 'n \<Rightarrow> response result \<times> 'n"
  cl_maxRetries :: int
  cl_userAgent :: string
  cl_interval :: duration
  cl_sleep :: "duration \<Rightarrow> 'n \<Rightarrow> goerror option \<times> 'n"
  cl_backoff :: "int \<Rightarrow> 'n \<Rightarrow> duration result \<times> 'n"

text \<open>\<open>x / 2\<close> on integers truncates toward zero.\<close>

definition half :: "int \<Rightarrow> int" where
  "half x = (if x < 0 then - (- x div 2) else x div 2)"

text \<open>
  \<open>defaultBackoff\<close>, every operation wrapped to 64 bits as the code has it. \<open>rand.Int64N\<close>
  panics on a bound that is not positive.
\<close>

definition backoff_base :: "int \<Rightarrow> duration" where
  "backoff_base attempt =
     (let base = wrap64 (wrap64 (wrap64 (2 ^ nat attempt) * 500) * millisecond) in
      if base > 30 * second then 30 * second else base)"

definition defaultBackoff :: "'n transport \<Rightarrow> int \<Rightarrow> 'n \<Rightarrow> duration result \<times> 'n" where
  "defaultBackoff t attempt n =
     (let base = backoff_base attempt; bound = half base + 1 in
      if bound \<le> 0 then (Inl (Panic ''invalid argument to Int64N''), n)
      else case t_Rand t bound n of (j, n') \<Rightarrow> (Inr (half base + j), n'))"

definition client_New :: "'n transport \<Rightarrow> 'n client_options \<Rightarrow> 'n client result" where
  "client_New t opts =
     (if co_BaseURL opts = [] then Inl (Plain ''scim: BaseURL is required'')
      else if co_Token opts = [] then Inl (Plain ''scim: Token is required'')
      else
        let base = trim_right_slash (co_BaseURL opts) @ ''/'' in
        if parse_refused base then Inl (Wrapped ''scim: bad BaseURL'' (Plain ''parse''))
        else Inr
          \<lparr>cl_t = t, cl_base = base, cl_token = co_Token opts,
           cl_hc = (case co_HTTPClient opts of None \<Rightarrow> t_Do t | Some f \<Rightarrow> f),
           cl_maxRetries = (if co_MaxRetries opts = 0 then 4 else co_MaxRetries opts),
           cl_userAgent = (if co_UserAgent opts = [] then ''helppi-scim-go/1.0'' else co_UserAgent opts),
           cl_interval = newLimiter (co_RequestsPerSecond opts),
           cl_sleep = (case co_Sleep opts of None \<Rightarrow> sleepCtx t | Some f \<Rightarrow> f),
           cl_backoff = (case co_Backoff opts of None \<Rightarrow> defaultBackoff t | Some f \<Rightarrow> f)\<rparr>)"

section \<open>One request\<close>

text \<open>\<open>io.ReadAll(io.LimitReader(body, 1<<20))\<close>: \<open>None\<close> when reading fails before the limit.\<close>

definition body_limit :: nat where "body_limit = 1048576"

definition read_limited :: "response \<Rightarrow> string option" where
  "read_limited resp =
     (if rs_Broken resp \<and> length (rs_Body resp) < body_limit then None
      else Some (take body_limit (rs_Body resp)))"

definition decodeError :: "response \<Rightarrow> scim_error" where
  "decodeError resp =
     (let e = zero_scim_error\<lparr>se_HTTPStatus := rs_StatusCode resp\<rparr> in
      case read_limited resp of
        None \<Rightarrow> e
      | Some body \<Rightarrow>
          if body = [] then e
          else
            let raw = e\<lparr>se_Detail := truncate_text (trim_space body) 512\<rparr> in
            case json_whole body of
              None \<Rightarrow> raw
            | Some v \<Rightarrow>
                (case dec_scim_error v zero_scim_error of
                   None \<Rightarrow> raw
                 | Some parsed \<Rightarrow>
                     if looksLikeSCIM parsed then parsed\<lparr>se_HTTPStatus := rs_StatusCode resp\<rparr> else raw))"

definition retryAfter :: "'n transport \<Rightarrow> response \<Rightarrow> 'n \<Rightarrow> (duration \<times> bool) \<times> 'n" where
  "retryAfter t resp n =
     (let v = header_get (rs_Header resp) ''Retry-After'' in
      if v = [] then ((0, False), n)
      else case (case atoi v of None \<Rightarrow> None | Some secs \<Rightarrow> if 0 \<le> secs then Some secs else None) of
          Some secs \<Rightarrow> ((wrap64 (secs * second), True), n)
        | None \<Rightarrow>
            (case ParseTime v of
               None \<Rightarrow> ((0, False), n)
             | Some due \<Rightarrow> (case t_Now t n of (now, n') \<Rightarrow>
                 (if 0 < time_sub due now then (time_sub due now, True) else (0, True), n'))))"

definition build_request :: "'n client \<Rightarrow> string \<Rightarrow> string \<Rightarrow> string option \<Rightarrow> request" where
  "build_request c meth target body =
     \<lparr>rq_Method = meth, rq_URL = target,
      rq_Header = (if body = None then [] else [(''Content-Type'', ContentType)])
        @ [(''Accept'', ContentType), (''Authorization'', ''Bearer '' @ cl_token c),
           (''User-Agent'', cl_userAgent c)],
      rq_Body = body\<rparr>"

definition call_name :: "string \<Rightarrow> string \<Rightarrow> string" where
  "call_name meth target = meth @ '' '' @ url_path target"

text \<open>The body of a success: \<open>dec\<close> decodes the first JSON value into the caller's variable \<open>z\<close>.\<close>

definition read_success :: "string \<Rightarrow> string \<Rightarrow> 'o decoder \<Rightarrow> 'o \<Rightarrow> response \<Rightarrow> 'o result" where
  "read_success meth target dec z resp =
     (let ct = header_get (rs_Header resp) ''Content-Type'' in
      if ct \<noteq> [] \<and> \<not> contains (to_lower ct) ''json'' then
        Inl (Plain (''scim: '' @ call_name meth target @ '': expected a JSON response, got Content-Type '' @ ct))
      else
        case json_first (rs_Body resp) of
          None \<Rightarrow> Inl (Wrapped (''scim: decode '' @ call_name meth target) decode_error)
        | Some v \<Rightarrow>
            (case unmarshal dec z v of
               Inl e \<Rightarrow> Inl (Wrapped (''scim: decode '' @ call_name meth target) e)
             | Inr a \<Rightarrow> Inr a))"

text \<open>
  \<open>attempt\<close>: the wait the server asked for, whether to retry, and the outcome. Every caller
  passes a variable to decode into, so the branch for \<open>out == nil\<close> does not occur.
\<close>

definition attempt_once ::
  "'n client \<Rightarrow> string \<Rightarrow> string \<Rightarrow> string option \<Rightarrow> 'o decoder \<Rightarrow> 'o \<Rightarrow> 'n \<Rightarrow>
     (duration \<times> bool \<times> 'o result) \<times> 'n" where
  "attempt_once c meth target body dec z n =
     (case cl_hc c (build_request c meth target body) n of
        (Inl e, n1) \<Rightarrow> ((0, True, Inl (Wrapped (''scim: '' @ call_name meth target) e)), n1)
      | (Inr resp, n1) \<Rightarrow>
          if rs_StatusCode resp = 429 \<or> 500 \<le> rs_StatusCode resp then
            (case retryAfter (cl_t c) resp n1 of
               ((wait, _), n2) \<Rightarrow> ((wait, True, Inl (Scim (decodeError resp))), n2))
          else if 400 \<le> rs_StatusCode resp then ((0, False, Inl (Scim (decodeError resp))), n1)
          else ((0, False, read_success meth target dec z resp), n1))"

section \<open>The retry loop\<close>

text \<open>
  \<open>do\<close> from attempt number \<open>k\<close> on. The loop ends because it goes round again only while
  \<open>k < maxRetries\<close>.
\<close>

function do_from ::
  "'n client \<Rightarrow> string \<Rightarrow> string \<Rightarrow> string option \<Rightarrow> 'o decoder \<Rightarrow> 'o \<Rightarrow> int \<Rightarrow> 'n net \<Rightarrow>
     'o result \<times> 'n net" where
  "do_from c meth target body dec z k w =
     (case limiter_wait (cl_t c) (cl_interval c) (cl_sleep c) w of
        (Some e, w1) \<Rightarrow> (Inl e, w1)
      | (None, w1) \<Rightarrow>
          (case in_env (attempt_once c meth target body dec z) w1 of
             ((wait, retry, res), w2) \<Rightarrow>
               if \<not> retry then (res, w2)
               else case in_env (t_Err (cl_t c)) w2 of
                   (ended, w3) \<Rightarrow>
                     if ended \<noteq> None \<or> cl_maxRetries c \<le> k then (res, w3)
                     else
                       case (if wait \<le> 0 then in_env (cl_backoff c k) w3 else (Inr wait, w3)) of
                         (Inl p, w4) \<Rightarrow> (Inl p, w4)
                       | (Inr pause, w4) \<Rightarrow>
                           (case in_env (cl_sleep c pause) w4 of
                              (Some e, w5) \<Rightarrow> (Inl e, w5)
                            | (None, w5) \<Rightarrow> do_from c meth target body dec z (k + 1) w5)))"
  by pat_completeness auto
termination
  by (relation "measure (\<lambda>(c, _, _, _, _, _, k, _). nat (cl_maxRetries c - k))") auto

declare do_from.simps [simp del]

definition do_request ::
  "'n client \<Rightarrow> string \<Rightarrow> string \<Rightarrow> string option \<Rightarrow> 'o decoder \<Rightarrow> 'o \<Rightarrow> 'n net \<Rightarrow> 'o result \<times> 'n net" where
  "do_request c meth ref body dec z w = do_from c meth (resolve (cl_base c) ref) body dec z 0 w"

section \<open>The operations\<close>

definition client_DefaultPageSize :: int where "client_DefaultPageSize = 200"

definition page_query :: "string \<Rightarrow> int \<Rightarrow> int \<Rightarrow> string" where
  "page_query filt startIndex cnt =
     ''count='' @ itoa cnt
     @ (if filt = [] then [] else ''&filter='' @ QueryEscape filt)
     @ ''&startIndex='' @ itoa startIndex"

definition Page :: "'n client \<Rightarrow> string \<Rightarrow> int \<Rightarrow> int \<Rightarrow> 'n net \<Rightarrow> list_response result \<times> 'n net" where
  "Page c filt startIndex0 count0 w =
     (let startIndex = (if startIndex0 < 1 then 1 else startIndex0);
          cnt = (if count0 \<le> 0 then client_DefaultPageSize else count0) in
      case do_request c ''GET'' (''Users?'' @ page_query filt startIndex cnt) None
             dec_list_response zero_list_response w of
        (Inl e, w1) \<Rightarrow> (Inl (Wrapped (''list users at startIndex='' @ itoa startIndex) e), w1)
      | (Inr lr, w1) \<Rightarrow>
          if SchemaList \<notin> set (lr_Schemas lr) then
            (Inl (Plain (''scim: response at startIndex='' @ itoa startIndex @ '' is not a '' @ SchemaList
               @ '' (schemas=['' @ join '' '' (lr_Schemas lr) @ ''])'')), w1)
          else (Inr lr, w1))"

text \<open>
  The loop over the records of a page: decode, remember the first id, call \<open>fn\<close>. It runs in
  the caller's world \<open>'x \<times> 'w\<close>, of which the client knows nothing.
\<close>

fun visit_records ::
  "(user \<Rightarrow> 'x \<times> 'w \<Rightarrow> goerror option \<times> 'x \<times> 'w) \<Rightarrow> int \<Rightarrow> nat \<Rightarrow> string \<Rightarrow> json list \<Rightarrow> 'x \<times> 'w \<Rightarrow>
     string result \<times> 'x \<times> 'w" where
  "visit_records fn startIndex i firstID [] s = (Inr firstID, s)"
| "visit_records fn startIndex i firstID (raw # raws) s =
     (case unmarshal dec_user zero_user raw of
        Inl e \<Rightarrow>
          (Inl (Wrapped (''decode record '' @ itoa (int i) @ '' of page starting at '' @ itoa startIndex) e), s)
      | Inr u \<Rightarrow>
          (case fn u s of
             (Some e, s1) \<Rightarrow> (Inl e, s1)
           | (None, s1) \<Rightarrow>
               visit_records fn startIndex (Suc i) (if i = 0 then u_ID u else firstID) raws s1))"


text \<open>The client's world as one component of the caller's: \<open>f\<close> acts on it alone.\<close>

definition at_net :: "('n net \<Rightarrow> 'a \<times> 'n net) \<Rightarrow> 'x \<times> 'n net \<times> 's \<Rightarrow> 'a \<times> 'x \<times> 'n net \<times> 's" where
  "at_net f s = (case f (fst (snd s)) of (a, w) \<Rightarrow> (a, fst s, w, snd (snd s)))"

text \<open>What a page that came back promises: it is a list response, and its total is an \<open>int\<close>.\<close>

lemma read_success_decoded:
  "read_success meth target dec z resp = Inr a \<Longrightarrow> \<exists>v. dec v z = Some a"
  by (auto simp: read_success_def unmarshal_def Let_def split: if_splits option.splits)

lemma attempt_once_decoded:
  "attempt_once c meth target body dec z n = ((wait, retry, Inr a), n') \<Longrightarrow> \<not> retry \<and> (\<exists>v. dec v z = Some a)"
  by (auto simp: attempt_once_def split: sum.splits prod.splits if_splits dest: read_success_decoded)

text \<open>The ways a round of the retry loop ends.\<close>

lemma do_from_cases [consumes 1, case_names throttled final given_up panicked interrupted again]:
  assumes "do_from c meth target body dec z k w = (res, w')"
  obtains e where "limiter_wait (cl_t c) (cl_interval c) (cl_sleep c) w = (Some e, w')" "res = Inl e"
  | w1 wait where "limiter_wait (cl_t c) (cl_interval c) (cl_sleep c) w = (None, w1)"
      "in_env (attempt_once c meth target body dec z) w1 = ((wait, False, res), w')"
  | w1 wait w2 ended where "limiter_wait (cl_t c) (cl_interval c) (cl_sleep c) w = (None, w1)"
      "in_env (attempt_once c meth target body dec z) w1 = ((wait, True, res), w2)"
      "in_env (t_Err (cl_t c)) w2 = (ended, w')" "ended \<noteq> None \<or> cl_maxRetries c \<le> k"
  | w1 wait r w2 w3 p where "limiter_wait (cl_t c) (cl_interval c) (cl_sleep c) w = (None, w1)"
      "in_env (attempt_once c meth target body dec z) w1 = ((wait, True, r), w2)"
      "in_env (t_Err (cl_t c)) w2 = (None, w3)" "k < cl_maxRetries c" "wait \<le> 0"
      "in_env (cl_backoff c k) w3 = (Inl p, w')" "res = Inl p"
  | w1 wait r w2 w3 pause w4 e where "limiter_wait (cl_t c) (cl_interval c) (cl_sleep c) w = (None, w1)"
      "in_env (attempt_once c meth target body dec z) w1 = ((wait, True, r), w2)"
      "in_env (t_Err (cl_t c)) w2 = (None, w3)" "k < cl_maxRetries c"
      "(if wait \<le> 0 then in_env (cl_backoff c k) w3 else (Inr wait, w3)) = (Inr pause, w4)"
      "in_env (cl_sleep c pause) w4 = (Some e, w')" "res = Inl e"
  | w1 wait r w2 w3 pause w4 w5 where "limiter_wait (cl_t c) (cl_interval c) (cl_sleep c) w = (None, w1)"
      "in_env (attempt_once c meth target body dec z) w1 = ((wait, True, r), w2)"
      "in_env (t_Err (cl_t c)) w2 = (None, w3)" "k < cl_maxRetries c"
      "(if wait \<le> 0 then in_env (cl_backoff c k) w3 else (Inr wait, w3)) = (Inr pause, w4)"
      "in_env (cl_sleep c pause) w4 = (None, w5)"
      "do_from c meth target body dec z (k + 1) w5 = (res, w')"
proof -
  note unfold = assms [unfolded do_from.simps [of c meth target body dec z k w]]
  obtain th w1 where th: "limiter_wait (cl_t c) (cl_interval c) (cl_sleep c) w = (th, w1)" by fastforce
  show ?thesis
  proof (cases th)
    case (Some e)
    with unfold th that(1) show ?thesis by simp
  next
    case None
    note th = th [unfolded None]
    obtain wait retry r w2 where once: "in_env (attempt_once c meth target body dec z) w1 = ((wait, retry, r), w2)"
      using prod_cases3 surj_pair by metis
    show ?thesis
    proof (cases retry)
      case False
      with unfold th once that(2) show ?thesis by simp
    next
      case True
      have once: "in_env (attempt_once c meth target body dec z) w1 = ((wait, True, r), w2)"
        using once True by simp
      obtain ended w3 where ended: "in_env (t_Err (cl_t c)) w2 = (ended, w3)" by fastforce
      show ?thesis
      proof (cases "ended \<noteq> None \<or> cl_maxRetries c \<le> k")
        case True
        with unfold th once ended have "res = r" "w' = w3" by simp_all
        with that(3) [OF th _ _ True] once ended show ?thesis by simp
      next
        case False
        then have go: "ended = None" "k < cl_maxRetries c" by simp_all
        note ended = ended [unfolded go(1)]
        obtain out w4 where out: "(if wait \<le> 0 then in_env (cl_backoff c k) w3 else (Inr wait, w3)) = (out, w4)"
          by fastforce
        show ?thesis
        proof (cases out)
          case (Inl p)
          with unfold th once ended go out that(4) show ?thesis by (simp split: if_splits)
        next
          case (Inr pause)
          note out = out [unfolded Inr]
          obtain slept w5 where slept: "in_env (cl_sleep c pause) w4 = (slept, w5)" by fastforce
          have "(case slept of None \<Rightarrow> do_from c meth target body dec z (k + 1) w5
              | Some e \<Rightarrow> (Inl e, w5)) = (res, w')"
            using unfold by (simp add: th once ended go(1) not_le [THEN iffD2, OF go(2)] out slept)
          then show ?thesis
            using slept that(5) [OF th once ended go(2) out] that(6) [OF th once ended go(2) out]
            by (cases slept) simp_all
        qed
      qed
    qed
  qed
qed

lemma do_from_decoded:
  "do_from c meth target body dec z k w = (Inr a, w') \<Longrightarrow> \<exists>v. dec v z = Some a"
proof (induction "nat (cl_maxRetries c - k)" arbitrary: k w rule: less_induct)
  case less
  from less.prems show ?case
  proof (cases rule: do_from_cases)
    case again
    show ?thesis using less.hyps [OF _ again(7)] again(4) by simp
  qed (auto simp: in_env_iff dest: attempt_once_decoded)
qed

lemma Page_ok:
  assumes "Page c filt startIndex cnt w = (Inr lr, w')"
  shows "SchemaList \<in> set (lr_Schemas lr)" and "in_int64 (lr_TotalResults lr)"
  using assms dec_list_response_range
  by (auto simp: Page_def do_request_def Let_def split: prod.splits sum.splits if_splits
      dest!: do_from_decoded)

text \<open>
  \<open>ListUsers\<close>, from a page on. \<open>startIndex\<close> and the two counters only grow and are not
  wrapped; \<open>maxPages\<close>, computed from a number the directory sends, is. The loop goes on only
  while the next index is within the total the last page announced, an \<open>int\<close>, which is why
  it ends.
\<close>

function list_from ::
  "'n client \<Rightarrow> string \<Rightarrow> int \<Rightarrow> (user \<Rightarrow> 'x \<times> 'n net \<times> 's \<Rightarrow> goerror option \<times> 'x \<times> 'n net \<times> 's) \<Rightarrow>
     int \<Rightarrow> int \<Rightarrow> int \<Rightarrow> string \<Rightarrow> int \<Rightarrow> 'x \<times> 'n net \<times> 's \<Rightarrow> goerror option \<times> 'x \<times> 'n net \<times> 's" where
  "list_from c filt psize fn startIndex pages maxPages prevFirstID totalScanned s =
     (case at_net (Page c filt startIndex psize) s of
        (Inl e, s1) \<Rightarrow> (Some e, s1)
      | (Inr lr, s1) \<Rightarrow>
          if lr_Resources lr = [] then (None, s1)
          else
            let pages' = pages + 1;
                maxPages' = (if maxPages = 0 \<and> 0 < lr_TotalResults lr
                             then wrap64 (lr_TotalResults lr div psize + 8) else maxPages) in
            case visit_records fn startIndex 0 [] (lr_Resources lr) s1 of
              (Inl e, s2) \<Rightarrow> (Some e, s2)
            | (Inr firstID, s2) \<Rightarrow>
                let total = totalScanned + int (length (lr_Resources lr));
                    next' = startIndex + int (length (lr_Resources lr)) in
                if firstID \<noteq> [] \<and> firstID = prevFirstID then
                  (Some (Plain (''scim: directory returned the same first record ('' @ firstID
                     @ '') twice at startIndex='' @ itoa startIndex
                     @ ''; it appears to be ignoring startIndex'')), s2)
                else if 0 < maxPages' \<and> maxPages' \<le> pages' then
                  (Some (Plain (''scim: pagination did not terminate after '' @ itoa pages' @ '' pages (''
                     @ itoa total @ '' records read, totalResults='' @ itoa (lr_TotalResults lr) @ '')'')), s2)
                else if int (length (lr_Resources lr)) < psize \<or> lr_TotalResults lr < next' then (None, s2)
                else list_from c filt psize fn next' pages' maxPages' firstID total s2)"
  by pat_completeness auto
termination
proof (relation "measure (\<lambda>(c, filt, psize, fn, startIndex, _). nat (int64_max + 1 - startIndex))", goal_cases)
  case (2 c filt psize fn startIndex pages maxPages prev total s r s1 lr)
  then have "in_int64 (lr_TotalResults lr)"
    by (auto simp: at_net_def split: prod.splits dest: Page_ok(2))
  with 2 show ?case by (auto simp: in_int64_def)
qed simp

declare list_from.simps [simp del]

definition client_ListUsers ::
  "'n client \<Rightarrow> string \<Rightarrow> int \<Rightarrow> (user \<Rightarrow> 'x \<times> 'n net \<times> 's \<Rightarrow> goerror option \<times> 'x \<times> 'n net \<times> 's) \<Rightarrow>
     'x \<times> 'n net \<times> 's \<Rightarrow> goerror option \<times> 'x \<times> 'n net \<times> 's" where
  "client_ListUsers c filt psize fn s =
     list_from c filt (if psize \<le> 0 then client_DefaultPageSize else psize) fn 1 0 0 [] 0 s"

definition GetUser :: "'n client \<Rightarrow> string \<Rightarrow> 'n net \<Rightarrow> user result \<times> 'n net" where
  "GetUser c ident w =
     do_request c ''GET'' (''Users/'' @ PathEscape ident) None dec_user zero_user w"

definition Patch :: "'n client \<Rightarrow> string \<Rightarrow> patch_op \<Rightarrow> 'n net \<Rightarrow> user result \<times> 'n net" where
  "Patch c ident op w =
     do_request c ''PATCH'' (''Users/'' @ PathEscape ident) (Some (print_json (enc_patch_op op)))
       dec_user zero_user w"

definition client_PatchExternalID :: "'n client \<Rightarrow> string \<Rightarrow> string \<Rightarrow> 'n net \<Rightarrow> user result \<times> 'n net" where
  "client_PatchExternalID c ident externalID w =
     (if externalID = [] then (Inl (Plain ''scim: refusing to write an empty externalId''), w)
      else Patch c ident (NewExternalIDPatch externalID) w)"

definition ServiceProviderConfig :: "'n client \<Rightarrow> 'n net \<Rightarrow> provider_config result \<times> 'n net" where
  "ServiceProviderConfig c w =
     do_request c ''GET'' ''ServiceProviderConfig'' None dec_provider_config zero_provider_config w"

end
