(* ===== verification/Client_Steps.thy ===== *)
theory Client_Steps
  imports Client
begin

text \<open>
  What a call of the client does to its environment, as a relation: the reconciler's contract,
  the dry run and the "one write only" property are all about which requests it contains.
\<close>

text \<open>
  What the client may do to its environment while the requests it sends satisfy \<open>P\<close>: each
  constructor is one call of the transport.
\<close>

inductive env_steps :: "'n client \<Rightarrow> (request \<Rightarrow> bool) \<Rightarrow> 'n \<Rightarrow> 'n \<Rightarrow> bool" for c P where
  env_done: "env_steps c P n n"
| env_request: "P rq \<Longrightarrow> cl_hc c rq n = (r, n1) \<Longrightarrow> env_steps c P n1 n2 \<Longrightarrow> env_steps c P n n2"
| env_ctx: "t_Err (cl_t c) n = (oe, n1) \<Longrightarrow> env_steps c P n1 n2 \<Longrightarrow> env_steps c P n n2"
| env_clock: "t_Now (cl_t c) n = (t, n1) \<Longrightarrow> env_steps c P n1 n2 \<Longrightarrow> env_steps c P n n2"
| env_sleep: "cl_sleep c d n = (oe, n1) \<Longrightarrow> env_steps c P n1 n2 \<Longrightarrow> env_steps c P n n2"
| env_backoff: "cl_backoff c k n = (rd, n1) \<Longrightarrow> env_steps c P n1 n2 \<Longrightarrow> env_steps c P n n2"

lemma env_steps_trans: "env_steps c P n1 n2 \<Longrightarrow> env_steps c P n2 n3 \<Longrightarrow> env_steps c P n1 n3"
  by (induction rule: env_steps.induct) (auto intro: env_steps.intros)

lemma env_steps_mono: "env_steps c P n n' \<Longrightarrow> (\<And>rq. P rq \<Longrightarrow> Q rq) \<Longrightarrow> env_steps c Q n n'"
  by (induction rule: env_steps.induct) (auto intro: env_steps.intros)

lemmas env_one = env_request [OF _ _ env_done] env_ctx [OF _ env_done] env_clock [OF _ env_done]
  env_sleep [OF _ env_done] env_backoff [OF _ env_done]

lemma limiter_wait_steps:
  "limiter_wait (cl_t c) i (cl_sleep c) w = (oe, w') \<Longrightarrow> env_steps c P (env w) (env w')"
  by (fastforce simp: limiter_wait_def in_env_iff Let_def split: prod.splits if_splits
      intro: env_one env_steps_trans)

lemma attempt_once_steps:
  assumes "attempt_once c meth target body dec z n = (r, n')" and "P (build_request c meth target body)"
  shows "env_steps c P n n'"
proof -
  have "retryAfter (cl_t c) resp n1 = (r, n2) \<Longrightarrow> env_steps c P n1 n2" for resp n1 r n2
    by (auto simp: retryAfter_def Let_def intro: env_done env_one
        split: if_splits option.splits prod.splits)
  with assms show ?thesis
    by (fastforce simp: attempt_once_def split: prod.splits sum.splits if_splits
        intro: env_one env_request)
qed

lemma pause_steps:
  assumes "in_env (t_Err (cl_t c)) w2 = (None, w3)"
    and "(if wait \<le> 0 then in_env (cl_backoff c k) w3 else (Inr wait, w3)) = (Inr pause, w4)"
    and "in_env (cl_sleep c pause) w4 = (oe, w5)"
  shows "env_steps c P (env w2) (env w5)"
proof -
  have "env_steps c P (env w4) (env w5)" using assms(3) by (auto simp: in_env_iff intro: env_one)
  then have "env_steps c P (env w3) (env w5)"
    using assms(2) by (auto simp: in_env_iff intro: env_backoff split: if_splits)
  with assms(1) show ?thesis by (auto simp: in_env_iff intro: env_ctx)
qed

lemma do_from_steps:
  assumes "do_from c meth target body dec z k w = (res, w')" and "P (build_request c meth target body)"
  shows "env_steps c P (env w) (env w')"
  using assms(1)
proof (induction "nat (cl_maxRetries c - k)" arbitrary: k w rule: less_induct)
  case less
  have once: "env_steps c P (env w1) (env w2)"
    if "in_env (attempt_once c meth target body dec z) w1 = (r, w2)" for w1 w2 r
    using that assms(2) by (auto simp: in_env_iff intro: attempt_once_steps)
  note tr = env_steps_trans [OF limiter_wait_steps] env_steps_trans [OF once]
  from less.prems show ?case
  proof (cases rule: do_from_cases)
    case throttled
    show ?thesis by (rule limiter_wait_steps [OF throttled(1)])
  next
    case final
    show ?thesis by (rule tr(1) [OF final(1) once [OF final(2)]])
  next
    case given_up
    show ?thesis
      by (rule tr(1) [OF given_up(1) tr(2) [OF given_up(2)]]) (use given_up(3) in \<open>auto simp: in_env_iff intro: env_one\<close>)
  next
    case panicked
    show ?thesis
      by (rule tr(1) [OF panicked(1) tr(2) [OF panicked(2)]])
        (use panicked(3,6) in \<open>auto simp: in_env_iff intro: env_ctx env_one\<close>)
  next
    case interrupted
    show ?thesis
      by (rule tr(1) [OF interrupted(1) tr(2) [OF interrupted(2) pause_steps [OF interrupted(3,5,6)]]])
  next
    case (again w1 wait r w2 w3 pause w4 w5)
    have "env_steps c P (env w5) (env w')"
      using less.hyps [OF _ again(7)] again(4) by simp
    moreover have "env_steps c P (env w2) (env w5)"
      by (rule pause_steps [OF again(3,5,6)])
    ultimately show ?thesis
      by (intro tr(1) [OF again(1) tr(2) [OF again(2)]]) (rule env_steps_trans)
  qed
qed


section \<open>The requests each operation sends\<close>

definition is_get :: "request \<Rightarrow> bool" where
  "is_get rq = (rq_Method rq = ''GET'' \<and> rq_Body rq = None)"

text \<open>A PATCH of one record that replaces its \<open>externalId\<close>, and nothing else.\<close>

definition is_write_back :: "'n client \<Rightarrow> request \<Rightarrow> bool" where
  "is_write_back c rq =
     (\<exists>ident x. x \<noteq> [] \<and> rq = build_request c ''PATCH'' (resolve (cl_base c) (''Users/'' @ PathEscape ident))
        (Some (print_json (enc_patch_op (NewExternalIDPatch x)))))"

lemma is_write_backI: "x \<noteq> [] \<Longrightarrow>
    is_write_back c (build_request c ''PATCH'' (resolve (cl_base c) (''Users/'' @ PathEscape ident))
      (Some (print_json (enc_patch_op (NewExternalIDPatch x)))))"
  unfolding is_write_back_def by blast

lemma do_request_steps:
  "do_request c meth ref body dec z w = (res, w') \<Longrightarrow>
     P (build_request c meth (resolve (cl_base c) ref) body) \<Longrightarrow> env_steps c P (env w) (env w')"
  unfolding do_request_def by (rule do_from_steps)

lemma Page_steps: "Page c filt i n w = (res, w') \<Longrightarrow> env_steps c is_get (env w) (env w')"
  by (auto simp: Page_def Let_def is_get_def build_request_def split: prod.splits sum.splits if_splits
      dest!: do_request_steps [where P = is_get])

lemma GetUser_steps: "GetUser c ident w = (res, w') \<Longrightarrow> env_steps c is_get (env w) (env w')"
  by (auto simp: GetUser_def is_get_def build_request_def dest!: do_request_steps [where P = is_get])

lemma PatchExternalID_steps:
  "client_PatchExternalID c ident x w = (res, w') \<Longrightarrow> env_steps c (is_write_back c) (env w) (env w')"
  unfolding client_PatchExternalID_def Patch_def
  by (auto intro: env_done is_write_backI [simplified] do_request_steps split: if_splits)

end
