(* ===== verification/Store.thy ===== *)
theory Store
  imports Go_Errors
begin

text \<open>
  \<open>store/store.go\<close>: the local side of the integration. The interface \<open>store.Store\<close> is a
  record of operations over a world \<open>'w\<close>, each returning its Go results and the world
  after the call; the locale \<open>store_contract\<close> states what the interface's comments, the
  guide \<open>docs/IMPLEMENTING_STORE.md\<close> and the contract suite \<open>store/storetest\<close> promise of
  an implementation. The reconciler is verified against the contract alone; the memory and
  PostgreSQL implementations interpret it.
\<close>

record helpper =
  h_ID :: string
  h_DirectoryID :: string
  h_Login :: string
  h_DisplayName :: string
  h_Enabled :: bool
  h_CreatedAt :: time
  h_UpdatedAt :: time

record new_helpper =
  nh_DirectoryID :: string
  nh_Login :: string
  nh_DisplayName :: string

record helpper_update =
  hu_Enabled :: bool
  hu_DisplayName :: string
  hu_Login :: string

definition zero_helpper :: helpper where
  "zero_helpper = \<lparr>h_ID = [], h_DirectoryID = [], h_Login = [], h_DisplayName = [],
     h_Enabled = False, h_CreatedAt = zero_time, h_UpdatedAt = zero_time\<rparr>"

text \<open>
  The interface. \<open>Ephemeral\<close> is the optional interface of the same name: \<open>None\<close> for a type
  that does not implement it, \<open>Some b\<close> for one whose method returns \<open>b\<close>.
\<close>

record 'w store_ops =
  HelpperByDirectoryID :: "string \<Rightarrow> 'w \<Rightarrow> helpper result \<times> 'w"
  CreateHelpper :: "new_helpper \<Rightarrow> 'w \<Rightarrow> helpper result \<times> 'w"
  UpdateHelpper :: "string \<Rightarrow> helpper_update \<Rightarrow> 'w \<Rightarrow> goerror option \<times> 'w"
  EnabledHelppers :: "'w \<Rightarrow> helpper list result \<times> 'w"
  Checkpoint :: "'w \<Rightarrow> time result \<times> 'w"
  SetCheckpoint :: "time \<Rightarrow> 'w \<Rightarrow> goerror option \<times> 'w"
  Ephemeral :: "bool option"

definition IsEphemeral :: "'w store_ops \<Rightarrow> bool" where
  "IsEphemeral st = (case Ephemeral st of None \<Rightarrow> False | Some b \<Rightarrow> b)"

text \<open>The desired state written over an account; the store picks the time stamp.\<close>

definition apply_update :: "helpper_update \<Rightarrow> time \<Rightarrow> helpper \<Rightarrow> helpper" where
  "apply_update upd now h =
     h\<lparr>h_Enabled := hu_Enabled upd, h_DisplayName := hu_DisplayName upd,
       h_Login := hu_Login upd, h_UpdatedAt := now\<rparr>"

lemma apply_update_simps [simp]:
  "h_ID (apply_update upd now h) = h_ID h"
  "h_DirectoryID (apply_update upd now h) = h_DirectoryID h"
  "h_Enabled (apply_update upd now h) = hu_Enabled upd"
  "h_DisplayName (apply_update upd now h) = hu_DisplayName upd"
  "h_Login (apply_update upd now h) = hu_Login upd"
  by (simp_all add: apply_update_def)

text \<open>
  The contract. \<open>accounts w\<close> is the table of helppers by directory id, \<open>saved w\<close> the
  checkpoint, \<open>ok\<close> the implementation's invariant and \<open>rnd\<close> the precision it stores a
  checkpoint with. Any operation may fail with an error of its own; it then changes nothing.
\<close>

locale store_contract =
  fixes st :: "'w store_ops"
    and ok :: "'w \<Rightarrow> bool"
    and accounts :: "'w \<Rightarrow> string \<Rightarrow> helpper option"
    and saved :: "'w \<Rightarrow> time"
    and rnd :: "time \<Rightarrow> time"
  assumes account_key: "ok w \<Longrightarrow> accounts w d = Some h \<Longrightarrow> h_DirectoryID h = d \<and> h_ID h \<noteq> []"
    and account_ids: "ok w \<Longrightarrow> accounts w d = Some h \<Longrightarrow> accounts w d' = Some h' \<Longrightarrow>
      h_ID h = h_ID h' \<Longrightarrow> d = d'"
    and lookup_frame: "ok w \<Longrightarrow> HelpperByDirectoryID st d w = (r, w') \<Longrightarrow>
      ok w' \<and> accounts w' = accounts w \<and> saved w' = saved w"
    and lookup_found: "ok w \<Longrightarrow> HelpperByDirectoryID st d w = (Inr h, w') \<Longrightarrow> accounts w d = Some h"
    and lookup_missing: "ok w \<Longrightarrow> HelpperByDirectoryID st d w = (Inl e, w') \<Longrightarrow>
      err_is e ErrNotFound \<Longrightarrow> accounts w d = None"
    and create_frame: "ok w \<Longrightarrow> CreateHelpper st nh w = (r, w') \<Longrightarrow> ok w' \<and> saved w' = saved w"
    and create_fresh: "ok w \<Longrightarrow> CreateHelpper st nh w = (Inr h, w') \<Longrightarrow>
      accounts w (nh_DirectoryID nh) = None
      \<and> accounts w' = (accounts w)(nh_DirectoryID nh \<mapsto> h)
      \<and> h_Login h = nh_Login nh \<and> h_DisplayName h = nh_DisplayName nh \<and> h_Enabled h"
    and create_failed: "ok w \<Longrightarrow> CreateHelpper st nh w = (Inl e, w') \<Longrightarrow>
      accounts w' = accounts w"
    and create_exists: "ok w \<Longrightarrow> CreateHelpper st nh w = (Inl e, w') \<Longrightarrow>
      err_is e ErrAlreadyExists \<Longrightarrow> accounts w (nh_DirectoryID nh) \<noteq> None"
    and update_frame: "ok w \<Longrightarrow> UpdateHelpper st i upd w = (oe, w') \<Longrightarrow> ok w' \<and> saved w' = saved w"
    and update_done: "ok w \<Longrightarrow> accounts w d = Some h \<Longrightarrow>
      UpdateHelpper st (h_ID h) upd w = (None, w') \<Longrightarrow>
      \<exists>now. accounts w' = (accounts w)(d \<mapsto> apply_update upd now h)"
    and update_failed: "ok w \<Longrightarrow> UpdateHelpper st i upd w = (Some e, w') \<Longrightarrow> accounts w' = accounts w"
    and enabled_frame: "ok w \<Longrightarrow> EnabledHelppers st w = (rl, w') \<Longrightarrow>
      ok w' \<and> accounts w' = accounts w \<and> saved w' = saved w"
    and enabled_list: "ok w \<Longrightarrow> EnabledHelppers st w = (Inr hs, w') \<Longrightarrow>
      set hs = {h. \<exists>d. accounts w d = Some h \<and> h_Enabled h}
      \<and> distinct (map h_DirectoryID hs)"
    and checkpoint_frame: "ok w \<Longrightarrow> Checkpoint st w = (rt, w') \<Longrightarrow>
      ok w' \<and> accounts w' = accounts w \<and> saved w' = saved w"
    and checkpoint_read: "ok w \<Longrightarrow> Checkpoint st w = (Inr t, w') \<Longrightarrow> t = saved w"
    and set_frame: "ok w \<Longrightarrow> SetCheckpoint st t w = (oe, w') \<Longrightarrow> ok w' \<and> accounts w' = accounts w"
    and set_done: "ok w \<Longrightarrow> SetCheckpoint st t w = (None, w') \<Longrightarrow> saved w' = rnd t"
    and set_failed: "ok w \<Longrightarrow> SetCheckpoint st t w = (Some e, w') \<Longrightarrow> saved w' = saved w"
    and rnd_le: "0 \<le> t \<Longrightarrow> 0 \<le> rnd t \<and> rnd t \<le> t"
    and rnd_saved: "ok w \<Longrightarrow> rnd (saved w) = saved w"
begin

lemmas frames = lookup_frame create_frame update_frame enabled_frame checkpoint_frame set_frame

text \<open>What the contract suite checks: a created helpper can be read back.\<close>

lemma create_then_read:
  assumes "ok w" and "CreateHelpper st nh w = (Inr h, w1)"
    and "HelpperByDirectoryID st (nh_DirectoryID nh) w1 = (Inr h', w2)"
  shows "h' = h" and "h_DirectoryID h = nh_DirectoryID nh" and "h_ID h \<noteq> []" and "h_Enabled h"
proof -
  from create_frame [OF assms(1,2)] have "ok w1" by simp
  moreover from create_fresh [OF assms(1,2)] have a: "accounts w1 (nh_DirectoryID nh) = Some h"
    and "h_Enabled h" by simp_all
  ultimately show "h' = h" using lookup_found [OF _ assms(3)] by simp
  show "h_DirectoryID h = nh_DirectoryID nh" "h_ID h \<noteq> []"
    using account_key [OF \<open>ok w1\<close> a] by simp_all
  show "h_Enabled h" by fact
qed

text \<open>A second create of the same directory id cannot succeed.\<close>

lemma create_twice:
  assumes "ok w" and "CreateHelpper st nh w = (Inr h, w1)"
    and "nh_DirectoryID nh' = nh_DirectoryID nh"
  shows "\<exists>e w2. CreateHelpper st nh' w1 = (Inl e, w2)"
proof -
  obtain r w2 where r: "CreateHelpper st nh' w1 = (r, w2)" by fastforce
  from create_frame [OF assms(1,2)] have "ok w1" by simp
  moreover from create_fresh [OF assms(1,2)] have "accounts w1 (nh_DirectoryID nh) = Some h" by simp
  ultimately show ?thesis
    using r create_fresh [of w1 nh' _ w2] assms(3) by (cases r) auto
qed

end

text \<open>
  The precision of a store keeps the order of the timestamps in \<open>T\<close>. The memory store's does for
  all of them; the PostgreSQL store reads those of the first second of 1970 as "never"
  (\<open>Checkpoint\<close> in \<open>postgres.go\<close>), and its precision keeps the order of the others.
\<close>

definition rounds_in_order :: "(time \<Rightarrow> time) \<Rightarrow> time set \<Rightarrow> bool" where
  "rounds_in_order rnd T \<longleftrightarrow> (\<forall>t \<in> T. rnd t \<in> T) \<and> (\<forall>t \<in> T. \<forall>t' \<in> T. t \<le> t' \<longrightarrow> rnd t \<le> rnd t')"

lemma exact_rounds_in_order: "rounds_in_order (\<lambda>t. t) UNIV"
  by (simp add: rounds_in_order_def)

section \<open>A store inside a larger world\<close>

text \<open>
  The running system is a directory and a store side by side. The store's operations act on
  the second component, and keep the contract there.
\<close>

definition on_snd :: "('s \<Rightarrow> 'a \<times> 's) \<Rightarrow> 'd \<times> 's \<Rightarrow> 'a \<times> ('d \<times> 's)" where
  "on_snd f w = (case f (snd w) of (r, s) \<Rightarrow> (r, (fst w, s)))"

definition beside :: "'s store_ops \<Rightarrow> ('d \<times> 's) store_ops" where
  "beside st =
     \<lparr>HelpperByDirectoryID = (\<lambda>d. on_snd (HelpperByDirectoryID st d)),
      CreateHelpper = (\<lambda>nh. on_snd (CreateHelpper st nh)),
      UpdateHelpper = (\<lambda>i upd. on_snd (UpdateHelpper st i upd)),
      EnabledHelppers = on_snd (EnabledHelppers st),
      Checkpoint = on_snd (Checkpoint st),
      SetCheckpoint = (\<lambda>t. on_snd (SetCheckpoint st t)),
      Ephemeral = Ephemeral st\<rparr>"

lemma on_snd_iff: "on_snd f w = (r, w') \<longleftrightarrow> f (snd w) = (r, snd w') \<and> fst w' = fst w"
  by (cases w; cases w') (auto simp: on_snd_def split: prod.splits)

lemma store_contract_beside:
  assumes "store_contract st ok accounts saved rnd"
  shows "store_contract (beside st) (\<lambda>w. ok (snd w)) (\<lambda>w. accounts (snd w)) (\<lambda>w. saved (snd w)) rnd"
proof -
  note c = store_contract.account_key [OF assms] store_contract.account_ids [OF assms]
    store_contract.lookup_frame [OF assms] store_contract.lookup_found [OF assms]
    store_contract.lookup_missing [OF assms] store_contract.create_frame [OF assms]
    store_contract.create_fresh [OF assms] store_contract.create_failed [OF assms]
    store_contract.create_exists [OF assms] store_contract.update_frame [OF assms]
    store_contract.update_done [OF assms] store_contract.update_failed [OF assms]
    store_contract.enabled_frame [OF assms] store_contract.enabled_list [OF assms]
    store_contract.checkpoint_frame [OF assms] store_contract.checkpoint_read [OF assms]
    store_contract.set_frame [OF assms] store_contract.set_done [OF assms]
    store_contract.set_failed [OF assms] store_contract.rnd_le [OF assms]
    store_contract.rnd_saved [OF assms]
  show ?thesis
    by (unfold_locales, unfold beside_def store_ops.simps on_snd_iff)
      ((elim conjE)?, rule c; assumption)+
qed

end
