(* ===== verification/Reconciler.thy ===== *)
theory Reconciler
  imports Scim_Types Rfc3339 Store
begin

text \<open>
  \<open>directory/directory.go\<close>: the reconciler. A \<open>Syncer\<close> is the record of its interfaces
  (the directory, the store, the clock) and its options; what it mutates is passed
  explicitly: the statistics of the cycle, the alerts already raised, and the world \<open>'w\<close>
  that the directory and the store live in. Logging (\<open>s.log\<close>) has no effect the code
  reads and is left out; an alert is an entry of a list.
\<close>

section \<open>Data\<close>

record stats =
  Scanned :: nat
  Created :: nat
  Enabled :: nat
  Disabled :: nat
  Updated :: nat
  Unchanged :: nat
  Skipped :: nat
  Malformed :: nat
  WroteBack :: nat
  Conflicts :: nat
  Duration :: duration
  stats_Checkpoint :: time

definition zero_stats :: stats where
  "zero_stats = \<lparr>Scanned = 0, Created = 0, Enabled = 0, Disabled = 0, Updated = 0,
     Unchanged = 0, Skipped = 0, Malformed = 0, WroteBack = 0, Conflicts = 0,
     Duration = 0, stats_Checkpoint = zero_time\<rparr>"

record drift =
  AbsentFromDirectory :: "string list"
  ShouldBeDisabled :: "string list"
  MissingExternalID :: "string list"

definition zero_drift :: drift where
  "zero_drift = \<lparr>AbsentFromDirectory = [], ShouldBeDisabled = [], MissingExternalID = []\<rparr>"

definition drift_Empty :: "drift \<Rightarrow> bool" where
  "drift_Empty d = (AbsentFromDirectory d = [] \<and> ShouldBeDisabled d = [] \<and> MissingExternalID d = [])"

text \<open>A call \<open>Alert(format, args...)\<close>, and what the process remembers of them.\<close>

datatype alert_arg = AStr string | AInt int | ADuration duration | AErr goerror

record alert =
  al_format :: string
  al_args :: "alert_arg list"

record alert_state =
  alerted :: "string set"
  raised :: "alert list"

definition no_alerts :: alert_state where
  "no_alerts = \<lparr>alerted = {}, raised = []\<rparr>"

definition raise_alert :: "string \<Rightarrow> alert_arg list \<Rightarrow> alert_state \<Rightarrow> alert_state" where
  "raise_alert format args m = m\<lparr>raised := raised m @ [\<lparr>al_format = format, al_args = args\<rparr>]\<rparr>"

definition alertOnce :: "string \<Rightarrow> string \<Rightarrow> alert_arg list \<Rightarrow> alert_state \<Rightarrow> alert_state" where
  "alertOnce key format args m =
     (if key \<in> alerted m then m
      else raise_alert format args (m\<lparr>alerted := insert key (alerted m)\<rparr>))"

text \<open>The state of one identity before the cycle touched it: the struct \<open>record\<close>.\<close>

record sync_record =
  existed :: bool
  enabledBefore :: bool
  activeNow :: bool
  externalIDBefore :: string
  malformed :: bool

definition zero_record :: sync_record where
  "zero_record = \<lparr>existed = False, enabledBefore = False, activeNow = False,
     externalIDBefore = [], malformed = False\<rparr>"

text \<open>
  The variables the callback of \<open>walkWith\<close> captures. \<open>wk_seen\<close> and \<open>wk_drift\<close> are those
  of the observer that \<open>Full\<close> passes; an incremental walk passes none and leaves them alone.
\<close>

record walk_state =
  wk_stats :: stats
  wk_high :: time
  wk_earliestMalformed :: time
  wk_seen :: "string set"
  wk_drift :: drift
  wk_alerts :: alert_state

section \<open>Interfaces and options\<close>

type_synonym ('x, 'w) callback = "user \<Rightarrow> 'x \<times> 'w \<Rightarrow> goerror option \<times> 'x \<times> 'w"

record 'w dir_ops =
  ListUsers :: "string \<Rightarrow> int \<Rightarrow> (walk_state, 'w) callback \<Rightarrow> walk_state \<times> 'w \<Rightarrow>
    goerror option \<times> walk_state \<times> 'w"
  PatchExternalID :: "string \<Rightarrow> string \<Rightarrow> 'w \<Rightarrow> user result \<times> 'w"

record options =
  o_PageSize :: int
  o_Overlap :: duration
  o_MaxMalformed :: int
  o_FutureSkew :: duration
  o_DryRun :: bool

record 'w syncer =
  dir :: "'w dir_ops"
  st :: "'w store_ops"
  pageSize :: int
  overlap :: duration
  maxMalformed :: int
  futureSkew :: duration
  dryRun :: bool
  now :: "'w \<Rightarrow> time \<times> 'w"

definition DefaultPageSize :: int where "DefaultPageSize = 200"
definition DefaultOverlap :: duration where "DefaultOverlap = 2 * minute"
definition DefaultMaxMalformed :: int where "DefaultMaxMalformed = 25"
definition DefaultFutureSkew :: duration where "DefaultFutureSkew = 5 * minute"

definition syncer_New ::
  "'w dir_ops \<Rightarrow> 'w store_ops \<Rightarrow> ('w \<Rightarrow> time \<times> 'w) \<Rightarrow> options \<Rightarrow> 'w syncer" where
  "syncer_New d s clock opts =
     \<lparr>dir = d, st = s,
      pageSize = (if o_PageSize opts \<le> 0 then DefaultPageSize else o_PageSize opts),
      overlap = (if o_Overlap opts = 0 then DefaultOverlap else o_Overlap opts),
      maxMalformed = (if o_MaxMalformed opts = 0 then DefaultMaxMalformed else o_MaxMalformed opts),
      futureSkew = (if o_FutureSkew opts = 0 then DefaultFutureSkew else o_FutureSkew opts),
      dryRun = o_DryRun opts,
      now = clock\<rparr>"

section \<open>One record\<close>

text \<open>What \<open>apply\<close> and its helppers mutate.\<close>

record 'w run =
  r_stats :: stats
  r_alerts :: alert_state
  r_world :: 'w

definition validate :: "user \<Rightarrow> string" where
  "validate u =
     (if u_ID u = [] then ''no id''
      else if u_Active u = None then ''no active flag''
      else if u_UserName u = [] \<and> PrimaryEmail u = [] then ''no userName and no email''
      else [])"

definition dryRunHelpperID :: string where
  "dryRunHelpperID = ''(assigned on a real run)''"

abbreviation count :: "(stats \<Rightarrow> stats) \<Rightarrow> 'w run \<Rightarrow> 'w run" where
  "count f r \<equiv> r\<lparr>r_stats := f (r_stats r)\<rparr>"

abbreviation at_world :: "'w \<Rightarrow> 'w run \<Rightarrow> 'w run" where
  "at_world w r \<equiv> r\<lparr>r_world := w\<rparr>"

definition ensureHelpper :: "'w syncer \<Rightarrow> user \<Rightarrow> 'w run \<Rightarrow> helpper result \<times> 'w run" where
  "ensureHelpper s u r =
     (if dryRun s then
        (Inr (zero_helpper\<lparr>h_DirectoryID := u_ID u, h_ID := dryRunHelpperID\<rparr>),
         count (Created_update Suc) r)
      else
        case CreateHelpper (st s) \<lparr>nh_DirectoryID = u_ID u, nh_Login = PrimaryEmail u,
               nh_DisplayName = u_DisplayName u\<rparr> (r_world r) of
          (Inr p, w) \<Rightarrow> (Inr p, count (Created_update Suc) (at_world w r))
        | (Inl e, w) \<Rightarrow>
            if err_is e ErrAlreadyExists then
              (case HelpperByDirectoryID (st s) (u_ID u) w of
                 (Inl e', w') \<Rightarrow>
                   (Inl (Wrapped (''re-read '' @ u_ID u @ '' after create conflict'') e'), at_world w' r)
               | (Inr p, w') \<Rightarrow> (Inr p, at_world w' r))
            else (Inl (Wrapped (''create helpper for '' @ u_ID u) e), at_world w r))"

definition syncState :: "'w syncer \<Rightarrow> user \<Rightarrow> bool \<Rightarrow> helpper \<Rightarrow> 'w run \<Rightarrow> goerror option \<times> 'w run" where
  "syncState s u active p r =
     (let login = PrimaryEmail u in
      if h_Enabled p = active \<and> h_DisplayName p = u_DisplayName u \<and> h_Login p = login then
        (None, count (Unchanged_update Suc) r)
      else
        let counted = (if h_Enabled p \<and> \<not> active then Disabled_update Suc
                       else if \<not> h_Enabled p \<and> active then Enabled_update Suc
                       else Updated_update Suc)
        in if dryRun s then (None, count counted r)
           else case UpdateHelpper (st s) (h_ID p)
                  \<lparr>hu_Enabled = active, hu_DisplayName = u_DisplayName u, hu_Login = login\<rparr>
                  (r_world r) of
               (Some e, w) \<Rightarrow> (Some (Wrapped (''update helpper '' @ h_ID p) e), at_world w r)
             | (None, w) \<Rightarrow> (None, count counted (at_world w r)))"

definition conflict_format :: string where
  "conflict_format = ''write-back conflict: helpper %s is already bound to another identity (directory_id=%s): %v''"

definition writeBack :: "'w syncer \<Rightarrow> string \<Rightarrow> string \<Rightarrow> 'w run \<Rightarrow> goerror option \<times> 'w run" where
  "writeBack s directoryID helpperID r =
     (if helpperID = [] then
        (Some (Plain (''refusing to write back an empty helpper id for '' @ directoryID)), r)
      else if dryRun s then (None, count (WroteBack_update Suc) r)
      else
        case PatchExternalID (dir s) directoryID helpperID (r_world r) of
          (Inr _, w) \<Rightarrow> (None, count (WroteBack_update Suc) (at_world w r))
        | (Inl e, w) \<Rightarrow>
            (case err_as_scim e of
               Some se \<Rightarrow>
                 if Conflict se then
                   (None,
                    (count (Conflicts_update Suc) (at_world w r))
                      \<lparr>r_alerts := alertOnce (''conflict:'' @ directoryID) conflict_format
                          [AStr helpperID, AStr directoryID, AErr (Scim se)] (r_alerts r)\<rparr>)
                 else (Some (Wrapped (''write back helpper_id for '' @ directoryID) e), at_world w r)
             | None \<Rightarrow> (Some (Wrapped (''write back helpper_id for '' @ directoryID) e), at_world w r)))"

definition malformed_format :: string where
  "malformed_format = ''unusable directory record (id=%q): %s; skipped''"

text \<open>
  \<open>apply\<close>. The record it returns beside an error is ignored by its caller, so an error is
  returned alone.
\<close>

definition apply_record :: "'w syncer \<Rightarrow> user \<Rightarrow> 'w run \<Rightarrow> sync_record result \<times> 'w run" where
  "apply_record s u r0 =
     (let r1 = count (Scanned_update Suc) r0; reason = validate u in
      if reason \<noteq> [] then
        (Inr (zero_record\<lparr>malformed := True\<rparr>),
         (count (Malformed_update Suc) r1)
           \<lparr>r_alerts := alertOnce (''malformed:'' @ u_ID u) malformed_format
               [AStr (u_ID u), AStr reason] (r_alerts r1)\<rparr>)
      else
        let active = (u_Active u = Some True); rec = zero_record\<lparr>activeNow := active\<rparr> in
        case HelpperByDirectoryID (st s) (u_ID u) (r_world r1) of
          (Inl e, w) \<Rightarrow>
            (let r2 = at_world w r1 in
             if err_is e ErrNotFound then
               if \<not> active then (Inr rec, count (Skipped_update Suc) r2)
               else
                 case ensureHelpper s u r2 of
                   (Inl e', r3) \<Rightarrow> (Inl e', r3)
                 | (Inr p, r3) \<Rightarrow>
                     (case writeBack s (u_ID u) (h_ID p) r3 of
                        (Some e', r4) \<Rightarrow> (Inl e', r4)
                      | (None, r4) \<Rightarrow> (Inr rec, r4))
             else (Inl (Wrapped (''lookup '' @ u_ID u) e), r2))
        | (Inr p, w) \<Rightarrow>
            (let r2 = at_world w r1;
                 rec' = rec\<lparr>existed := True, enabledBefore := h_Enabled p,
                            externalIDBefore := u_ExternalID u\<rparr> in
             case syncState s u active p r2 of
               (Some e', r3) \<Rightarrow> (Inl e', r3)
             | (None, r3) \<Rightarrow>
                 if u_ExternalID u \<noteq> h_ID p then
                   (case writeBack s (u_ID u) (h_ID p) r3 of
                      (Some e', r4) \<Rightarrow> (Inl e', r4)
                    | (None, r4) \<Rightarrow> (Inr rec', r4))
                 else (Inr rec', r3)))"

section \<open>The walk\<close>

text \<open>How the callback moves the watermarks after a record: \<open>high\<close> over usable ones,
  \<open>earliestMalformed\<close> over unusable ones that carry a timestamp.\<close>

definition note_usable :: "user \<Rightarrow> walk_state \<Rightarrow> walk_state" where
  "note_usable u x = (if after (LastModified u) (wk_high x) then x\<lparr>wk_high := LastModified u\<rparr> else x)"

definition note_malformed :: "user \<Rightarrow> walk_state \<Rightarrow> walk_state" where
  "note_malformed u x =
     (if is_zero (wk_earliestMalformed x) \<or> before (LastModified u) (wk_earliestMalformed x) then
        if \<not> is_zero (LastModified u) then x\<lparr>wk_earliestMalformed := LastModified u\<rparr> else x
      else x)"

definition broken_feed :: "nat \<Rightarrow> int \<Rightarrow> goerror" where
  "broken_feed n limit = Plain (itoa (int n) @ '' unusable records in one cycle (limit '' @ itoa limit @
     ''): the directory feed looks broken'')"

type_synonym observer = "user \<Rightarrow> sync_record \<Rightarrow> walk_state \<Rightarrow> walk_state"

definition walk_callback :: "'w syncer \<Rightarrow> observer option \<Rightarrow> (walk_state, 'w) callback" where
  "walk_callback s observe u xw =
     (case apply_record s u \<lparr>r_stats = wk_stats (fst xw), r_alerts = wk_alerts (fst xw), r_world = snd xw\<rparr> of
        (Inl e, r) \<Rightarrow>
          (Some e, (fst xw)\<lparr>wk_stats := r_stats r, wk_alerts := r_alerts r\<rparr>, r_world r)
      | (Inr rec, r) \<Rightarrow>
          (let x1 = (fst xw)\<lparr>wk_stats := r_stats r, wk_alerts := r_alerts r\<rparr>;
               x2 = (case observe of None \<Rightarrow> x1 | Some f \<Rightarrow> f u rec x1) in
           if malformed rec then
             let x3 = note_malformed u x2 in
             if 0 \<le> maxMalformed s \<and> maxMalformed s < int (Malformed (wk_stats x3)) then
               (Some (broken_feed (Malformed (wk_stats x3)) (maxMalformed s)), x3, r_world r)
             else (None, x3, r_world r)
           else (None, note_usable u x2, r_world r)))"

definition start_walk :: "alert_state \<Rightarrow> walk_state" where
  "start_walk m = \<lparr>wk_stats = zero_stats, wk_high = zero_time, wk_earliestMalformed = zero_time,
     wk_seen = {}, wk_drift = zero_drift, wk_alerts = m\<rparr>"

text \<open>The watermark a finished walk returns.\<close>

definition watermark :: "walk_state \<Rightarrow> time" where
  "watermark x =
     (if \<not> is_zero (wk_earliestMalformed x) \<and> after (wk_high x) (wk_earliestMalformed x)
      then wk_earliestMalformed x else wk_high x)"

text \<open>\<open>walkWith\<close> also hands back the captured variables, for the caller's observer.\<close>

definition walkWith ::
  "'w syncer \<Rightarrow> string \<Rightarrow> observer option \<Rightarrow> alert_state \<Rightarrow> 'w \<Rightarrow>
     (time result \<times> walk_state) \<times> 'w" where
  "walkWith s filt observe m w =
     (case ListUsers (dir s) filt (pageSize s) (walk_callback s observe) (start_walk m, w) of
        (Some e, x, w') \<Rightarrow> ((Inl e, x), w')
      | (None, x, w') \<Rightarrow> ((Inr (watermark x), x), w'))"

section \<open>The cycles\<close>

definition future_format :: string where
  "future_format = ''directory timestamp %s is more than %s ahead of our clock; holding the checkpoint at %s''"

definition advance :: "'w syncer \<Rightarrow> time \<Rightarrow> time \<Rightarrow> alert_state \<Rightarrow> 'w \<Rightarrow>
     (time \<times> goerror option) \<times> alert_state \<times> 'w" where
  "advance s current mark m w =
     (if is_zero mark \<or> \<not> after mark current then ((current, None), m, w)
      else
        case now s w of (t, w1) \<Rightarrow>
        if after mark (t + futureSkew s) then
          ((current, None),
           alertOnce ''future-watermark'' future_format
             [AStr (format_rfc3339 mark), ADuration (futureSkew s), AStr (format_rfc3339 current)] m,
           w1)
        else if dryRun s then ((current, None), m, w1)
        else
          case SetCheckpoint (st s) mark w1 of
            (Some e, w2) \<Rightarrow> ((current, Some (Wrapped ''advance checkpoint'' e)), m, w2)
          | (None, w2) \<Rightarrow> ((mark, None), m, w2))"

text \<open>The filter of an incremental cycle; \<open>%q\<close> of an RFC 3339 string only adds the quotes.\<close>

definition quote :: "string \<Rightarrow> string" where
  "quote s = [CHR 0x22] @ s @ [CHR 0x22]"

definition incremental_filter :: "'w syncer \<Rightarrow> time \<Rightarrow> string" where
  "incremental_filter s cp =
     (if is_zero cp then [] else ''meta.lastModified gt '' @ quote (format_rfc3339 (cp - overlap s)))"

definition Incremental :: "'w syncer \<Rightarrow> alert_state \<Rightarrow> 'w \<Rightarrow>
     (stats \<times> goerror option) \<times> alert_state \<times> 'w" where
  "Incremental s m w0 =
     (case now s w0 of (started, w1) \<Rightarrow>
      case Checkpoint (st s) w1 of
        (Inl e, w2) \<Rightarrow> ((zero_stats, Some (Wrapped ''read checkpoint'' e)), m, w2)
      | (Inr cp, w2) \<Rightarrow>
          (case walkWith s (incremental_filter s cp) None m w2 of
             ((res, x), w3) \<Rightarrow>
               case now s w3 of (finished, w4) \<Rightarrow>
               let sts = (wk_stats x)\<lparr>Duration := time_sub finished started\<rparr> in
               case res of
                 Inl e \<Rightarrow> ((sts, Some e), wk_alerts x, w4)
               | Inr mark \<Rightarrow>
                   (case advance s cp mark (wk_alerts x) w4 of
                      ((cp', err), m', w5) \<Rightarrow> ((sts\<lparr>stats_Checkpoint := cp'\<rparr>, err), m', w5))))"

text \<open>The observer of \<open>Full\<close>: drift is read off the state before the upsert.\<close>

definition observe_drift :: observer where
  "observe_drift u rec x0 =
     (let x1 = x0\<lparr>wk_seen := insert (u_ID u) (wk_seen x0)\<rparr> in
      if \<not> existed rec then x1
      else
        let x2 = (if enabledBefore rec \<and> \<not> activeNow rec then
                    x1\<lparr>wk_drift := (wk_drift x1)\<lparr>ShouldBeDisabled := ShouldBeDisabled (wk_drift x1) @ [u_ID u]\<rparr>\<rparr>
                  else x1) in
        if externalIDBefore rec = [] then
          x2\<lparr>wk_drift := (wk_drift x2)\<lparr>MissingExternalID := MissingExternalID (wk_drift x2) @ [u_ID u]\<rparr>\<rparr>
        else x2)"

definition absent_from :: "string set \<Rightarrow> helpper list \<Rightarrow> string list" where
  "absent_from seen local = map h_DirectoryID (filter (\<lambda>p. h_DirectoryID p \<notin> seen) local)"

definition drift_format :: string where
  "drift_format = ''directory drift detected: absent=%d should_be_disabled=%d missing_external_id=%d''"

definition Full :: "'w syncer \<Rightarrow> alert_state \<Rightarrow> 'w \<Rightarrow>
     (stats \<times> drift \<times> goerror option) \<times> alert_state \<times> 'w" where
  "Full s m w0 =
     (case now s w0 of (started, w1) \<Rightarrow>
      case Checkpoint (st s) w1 of
        (Inl e, w2) \<Rightarrow> ((zero_stats, zero_drift, Some (Wrapped ''read checkpoint'' e)), m, w2)
      | (Inr cp, w2) \<Rightarrow>
          (case walkWith s [] (Some observe_drift) m w2 of
             ((res, x), w3) \<Rightarrow>
               case now s w3 of (finished, w4) \<Rightarrow>
               let sts = (wk_stats x)\<lparr>Duration := time_sub finished started\<rparr> in
               case res of
                 Inl e \<Rightarrow> ((sts, wk_drift x, Some e), wk_alerts x, w4)
               | Inr mark \<Rightarrow>
                   (case EnabledHelppers (st s) w4 of
                      (Inl e, w5) \<Rightarrow>
                        ((sts, wk_drift x, Some (Wrapped ''list enabled helppers'' e)), wk_alerts x, w5)
                    | (Inr local, w5) \<Rightarrow>
                        (let d = (wk_drift x)\<lparr>AbsentFromDirectory := absent_from (wk_seen x) local\<rparr>;
                             m1 = (if drift_Empty d then wk_alerts x
                                   else raise_alert drift_format
                                     [AInt (int (length (AbsentFromDirectory d))),
                                      AInt (int (length (ShouldBeDisabled d))),
                                      AInt (int (length (MissingExternalID d)))] (wk_alerts x)) in
                         case advance s cp mark m1 w5 of
                           ((cp', err), m', w6) \<Rightarrow>
                             ((sts\<lparr>stats_Checkpoint := cp'\<rparr>, d, err), m', w6)))))"

end
