(* ===== verification/Reconciler_Spec.thy ===== *)
theory Reconciler_Spec
  imports Reconciler
begin

text \<open>
  What the reconciler is meant to do, stated without its code: the effect one directory
  record may have on the table of helppers, the state the record asks for, and the contract
  of the directory it reads. The locale \<open>reconciler\<close> puts the store's contract, the
  directory's and the clock's side by side; the theories that follow prove the code of
  \<open>Reconciler\<close> against it.
\<close>

type_synonym table = "string \<Rightarrow> helpper option"

text \<open>The account a record asks for: what its owner sees after a cycle applied it.\<close>

definition desired :: "user \<Rightarrow> helpper option \<Rightarrow> bool" where
  "desired u a =
     (case a of
        None \<Rightarrow> u_Active u = Some False
      | Some h \<Rightarrow> u_Active u = Some (h_Enabled h) \<and> h_DisplayName h = u_DisplayName u
          \<and> h_Login h = PrimaryEmail u)"

text \<open>
  The one upsert every transition of the contract collapses into. An unusable record
  changes nothing; an unknown identity is created when it is active; a known one keeps its
  id and takes the directory's flag, name and login.
\<close>

definition upsert :: "user \<Rightarrow> table \<Rightarrow> table \<Rightarrow> bool" where
  "upsert u T T' =
     (if validate u \<noteq> [] then T' = T
      else case T (u_ID u) of
          None \<Rightarrow>
            if u_Active u = Some True
            then \<exists>h. T' = T(u_ID u \<mapsto> h) \<and> h_Enabled h \<and> h_Login h = PrimaryEmail u
                   \<and> h_DisplayName h = u_DisplayName u
            else T' = T
        | Some h \<Rightarrow>
            (T' = T \<and> desired u (Some h))
            \<or> (\<exists>t. T' = T(u_ID u \<mapsto> apply_update
                   \<lparr>hu_Enabled = (u_Active u = Some True), hu_DisplayName = u_DisplayName u,
                    hu_Login = PrimaryEmail u\<rparr> t h)))"

text \<open>A cycle: the upserts of records the directory serves, in some order.\<close>

inductive evolves :: "(user \<Rightarrow> bool) \<Rightarrow> table \<Rightarrow> table \<Rightarrow> bool" for served where
  evolves_refl: "evolves served T T"
| evolves_step: "served u \<Longrightarrow> upsert u T T1 \<Longrightarrow> evolves served T1 T2 \<Longrightarrow> evolves served T T2"

lemma validate_active: "validate u = [] \<Longrightarrow> \<exists>b. u_Active u = Some b"
  by (auto simp: validate_def split: if_splits)

lemma upsert_malformed: "validate u \<noteq> [] \<Longrightarrow> upsert u T T' \<longleftrightarrow> T' = T"
  by (simp add: upsert_def)

lemma upsert_frame: "upsert u T T' \<Longrightarrow> d \<noteq> u_ID u \<Longrightarrow> T' d = T d"
  by (auto simp: upsert_def split: if_splits option.splits)

lemma upsert_desired:
  assumes "upsert u T T'" and "validate u = []"
  shows "desired u (T' (u_ID u))"
  using assms validate_active [OF assms(2)]
  by (auto simp: upsert_def desired_def split: if_splits option.splits)

lemma upsert_keeps_id: "upsert u T T' \<Longrightarrow> T d = Some h \<Longrightarrow> \<exists>h'. T' d = Some h' \<and> h_ID h' = h_ID h"
  by (cases "d = u_ID u")
    (auto simp: upsert_def split: if_splits option.splits)

lemma upsert_creates_active:
  "upsert u T T' \<Longrightarrow> T d = None \<Longrightarrow> T' d = Some h \<Longrightarrow>
     d = u_ID u \<and> validate u = [] \<and> u_Active u = Some True"
  by (cases "d = u_ID u")
    (auto simp: upsert_def split: if_splits option.splits)

lemma upsert_disables_inactive:
  assumes "upsert u T T'" and "T d = Some h" "h_Enabled h" and "T' d = Some h'" "\<not> h_Enabled h'"
  shows "d = u_ID u \<and> validate u = [] \<and> u_Active u = Some False"
proof (cases "d = u_ID u")
  case True
  with assms validate_active [of u] show ?thesis
    by (auto simp: upsert_def split: if_splits)
next
  case False
  with assms show ?thesis using upsert_frame by force
qed

text \<open>The state a record asks for is a fixed point of its upsert.\<close>

lemma upsert_converged:
  "desired u (T (u_ID u)) \<Longrightarrow> validate u = [] \<Longrightarrow> upsert u T T"
  by (auto simp: upsert_def desired_def split: option.splits)

lemma evolves_trans: "evolves P T1 T2 \<Longrightarrow> evolves P T2 T3 \<Longrightarrow> evolves P T1 T3"
  by (induction rule: evolves.induct) (auto intro: evolves.intros)

lemma evolves_one: "P u \<Longrightarrow> upsert u T T' \<Longrightarrow> evolves P T T'"
  by (auto intro: evolves.intros)

lemma evolves_frame:
  "evolves P T T' \<Longrightarrow> (\<And>u. P u \<Longrightarrow> validate u = [] \<Longrightarrow> u_ID u \<noteq> d) \<Longrightarrow> T' d = T d"
proof (induction rule: evolves.induct)
  case (evolves_step u T T1 T2)
  have "T1 d = T d"
    using evolves_step upsert_frame [of u T T1 d] upsert_malformed by (cases "validate u = []") auto
  with evolves_step show ?case by simp
qed simp

text \<open>Whatever an account became, it kept its id and its birth, and it is as some record asks.\<close>

lemma upsert_traced:
  assumes "upsert u T T'" and "T d = Some h"
  shows "\<exists>h'. T' d = Some h' \<and> h_ID h' = h_ID h \<and> h_CreatedAt h' = h_CreatedAt h
    \<and> (h' = h \<or> u_ID u = d \<and> validate u = [] \<and> desired u (Some h'))"
proof (cases "d = u_ID u \<and> validate u = []")
  case True
  with upsert_desired [OF assms(1)] assms show ?thesis
    by (auto simp: upsert_def apply_update_def)
next
  case False
  with upsert_frame [OF assms(1), of d] assms show ?thesis by (auto simp: upsert_malformed)
qed

lemma evolves_traced:
  "evolves P T T' \<Longrightarrow> T d = Some h \<Longrightarrow>
     \<exists>h'. T' d = Some h' \<and> h_ID h' = h_ID h \<and> h_CreatedAt h' = h_CreatedAt h
       \<and> (h' = h \<or> (\<exists>u. P u \<and> u_ID u = d \<and> validate u = [] \<and> desired u (Some h')))"
proof (induction arbitrary: h rule: evolves.induct)
  case (evolves_step u T T1 T2)
  from upsert_traced [OF evolves_step.hyps(2) evolves_step.prems] obtain h1 where h1: "T1 d = Some h1" "h_ID h1 = h_ID h"
    "h_CreatedAt h1 = h_CreatedAt h" "h1 = h \<or> u_ID u = d \<and> validate u = [] \<and> desired u (Some h1)" by blast
  from evolves_step.IH [OF h1(1)] h1(2-4) evolves_step.hyps(1) show ?case by fastforce
qed simp

lemma evolves_creates_active:
  "evolves P T T' \<Longrightarrow> T d = None \<Longrightarrow> T' d \<noteq> None \<Longrightarrow>
     \<exists>u. P u \<and> u_ID u = d \<and> validate u = [] \<and> u_Active u = Some True"
proof (induction rule: evolves.induct)
  case (evolves_step u T T1 T2)
  show ?case
  proof (cases "T1 d")
    case None
    with evolves_step show ?thesis by simp
  next
    case (Some h)
    with evolves_step upsert_creates_active [of u T T1 d h] show ?thesis by auto
  qed
qed simp

lemma evolves_disables_inactive:
  "evolves P T T' \<Longrightarrow> T d = Some h \<Longrightarrow> h_Enabled h \<Longrightarrow> T' d = Some h' \<Longrightarrow> \<not> h_Enabled h' \<Longrightarrow>
     \<exists>u. P u \<and> u_ID u = d \<and> validate u = [] \<and> u_Active u = Some False"
proof (induction arbitrary: h rule: evolves.induct)
  case (evolves_step u T T1 T2)
  obtain h1 where h1: "T1 d = Some h1"
    using upsert_keeps_id [OF evolves_step.hyps(2) evolves_step.prems(1)] by blast
  show ?case
  proof (cases "h_Enabled h1")
    case True
    with evolves_step h1 show ?thesis by blast
  next
    case False
    with evolves_step h1 upsert_disables_inactive [of u T T1 d h h1] show ?thesis by blast
  qed
qed simp

section \<open>The directory's contract\<close>

text \<open>
  What the proofs about the reconciler ask of \<open>ListUsers\<close>, and no more: it hands records the
  directory served to its callback, one after the other, with steps of its own in between
  (\<open>rstep\<close>, page requests), stops at the first error of the callback and returns that error
  unchanged, or stops of its own accord with or without an error of its own. Which records, in
  which order, and when it may stop is left open here on purpose, so that the safety of the
  reconciler does not rest on it. What the client's \<open>ListUsers\<close> does exactly is \<open>paged\<close> in
  \<open>Client_Contract\<close>, and \<open>us\<close> is then the list \<open>handed\<close> computed there.
\<close>

inductive walked :: "('w \<Rightarrow> 'w \<Rightarrow> bool) \<Rightarrow> (user \<Rightarrow> bool) \<Rightarrow> ('x, 'w) callback \<Rightarrow>
    'x \<times> 'w \<Rightarrow> user list \<Rightarrow> goerror option \<Rightarrow> 'x \<times> 'w \<Rightarrow> bool"
  for rstep served fn where
  walked_stop: "walked rstep served fn s [] e s"
| walked_fetch: "rstep w w1 \<Longrightarrow> walked rstep served fn (x, w1) us e s \<Longrightarrow>
    walked rstep served fn (x, w) us e s"
| walked_visit: "served u \<Longrightarrow> fn u s = (None, s1) \<Longrightarrow> walked rstep served fn s1 us e s2 \<Longrightarrow>
    walked rstep served fn s (u # us) e s2"
| walked_abort: "served u \<Longrightarrow> fn u s = (Some err, s1) \<Longrightarrow>
    walked rstep served fn s [u] (Some err) s1"

lemma walked_served: "walked rstep served fn s us e s' \<Longrightarrow> u \<in> set us \<Longrightarrow> served u"
  by (induction rule: walked.induct) auto

locale directory_contract =
  fixes d :: "'w dir_ops"
    and rstep :: "'w \<Rightarrow> 'w \<Rightarrow> bool"
    and pstep :: "'w \<Rightarrow> 'w \<Rightarrow> bool"
    and served :: "user \<Rightarrow> bool"
  assumes list_walks: "ListUsers d f n fn s = (e, s') \<Longrightarrow> \<exists>us. walked rstep served fn s us e s'"
    and patch_steps: "PatchExternalID d i x w = (r, w') \<Longrightarrow> pstep w w'"

text \<open>
  The reconciler's surroundings: a store that keeps the contract, a directory that does,
  and neither the directory nor the clock reaching into the store.
\<close>

locale reconciler =
  store_contract "st s" ok accounts saved rnd + directory_contract "dir s" rstep pstep served
  for s :: "'w syncer" and ok accounts saved rnd rstep pstep served +
  assumes rstep_frame: "rstep w w' \<Longrightarrow> ok w \<Longrightarrow> ok w' \<and> accounts w' = accounts w \<and> saved w' = saved w"
    and pstep_frame: "pstep w w' \<Longrightarrow> ok w \<Longrightarrow> ok w' \<and> accounts w' = accounts w \<and> saved w' = saved w"
    and now_frame: "now s w = (t, w') \<Longrightarrow> ok w \<Longrightarrow> ok w' \<and> accounts w' = accounts w \<and> saved w' = saved w"

text \<open>
  The same surroundings seen by a dry run: which steps of the world count as reading only.
\<close>

locale quiet_reads = directory_contract "dir s" rstep pstep served
  for s :: "'w syncer" and rstep pstep served +
  fixes quiet :: "'w \<Rightarrow> 'w \<Rightarrow> bool"
  assumes quiet_refl: "quiet w w"
    and quiet_trans: "quiet w1 w2 \<Longrightarrow> quiet w2 w3 \<Longrightarrow> quiet w1 w3"
    and quiet_rstep: "rstep w w' \<Longrightarrow> quiet w w'"
    and quiet_now: "now s w = (t, w') \<Longrightarrow> quiet w w'"
    and quiet_lookup: "HelpperByDirectoryID (st s) i w = (r, w') \<Longrightarrow> quiet w w'"
    and quiet_enabled: "EnabledHelppers (st s) w = (rl, w') \<Longrightarrow> quiet w w'"
    and quiet_checkpoint: "Checkpoint (st s) w = (rt, w') \<Longrightarrow> quiet w w'"

end
