(* ===== verification/Reconciler_Apply.thy ===== *)
theory Reconciler_Apply
  imports Reconciler_Spec
begin

text \<open>
  One record: \<open>apply\<close>, \<open>ensureHelpper\<close>, \<open>syncState\<close>, \<open>writeBack\<close> and \<open>alertOnce\<close>.
  The main result is that \<open>apply\<close> refines \<open>upsert\<close>, on success and on every error path,
  and that each record is counted in exactly one statistic.
\<close>

section \<open>Alerts\<close>

text \<open>
  Every alert raised through \<open>alertOnce\<close> uses up a fresh key, and keys are never released,
  so as many alerts are raised as keys are used up.
\<close>

definition alert_growth :: "alert_state \<Rightarrow> alert_state \<Rightarrow> bool" where
  "alert_growth m m' =
     (alerted m \<subseteq> alerted m' \<and> finite (alerted m' - alerted m)
      \<and> length (raised m') = length (raised m) + card (alerted m' - alerted m)
      \<and> take (length (raised m)) (raised m') = raised m)"

lemma alert_growth_refl [simp]: "alert_growth m m"
  by (simp add: alert_growth_def)

lemma alert_growth_trans: "alert_growth m1 m2 \<Longrightarrow> alert_growth m2 m3 \<Longrightarrow> alert_growth m1 m3"
proof -
  assume 1: "alert_growth m1 m2" and 2: "alert_growth m2 m3"
  have eq: "alerted m3 - alerted m1 = (alerted m2 - alerted m1) \<union> (alerted m3 - alerted m2)"
    using 1 2 by (auto simp: alert_growth_def)
  have "card (alerted m3 - alerted m1) = card (alerted m2 - alerted m1) + card (alerted m3 - alerted m2)"
    unfolding eq using 1 2 by (intro card_Un_disjoint) (auto simp: alert_growth_def)
  moreover have "take (length (raised m1)) (raised m3) = raised m1"
  proof -
    have "length (raised m1) \<le> length (raised m2)" using 1 by (simp add: alert_growth_def)
    then have "take (length (raised m1)) (raised m3)
        = take (length (raised m1)) (take (length (raised m2)) (raised m3))" by simp
    with 1 2 show ?thesis by (simp add: alert_growth_def)
  qed
  ultimately show ?thesis using 1 2 eq by (auto simp: alert_growth_def)
qed

lemma alertOnce_growth [simp]: "alert_growth m (alertOnce k f a m)"
proof (cases "k \<in> alerted m")
  case False
  then have "insert k (alerted m) - alerted m = {k}" by auto
  with False show ?thesis by (auto simp: alert_growth_def alertOnce_def raise_alert_def)
qed (simp add: alertOnce_def)

lemma alertOnce_key [simp]: "k \<in> alerted (alertOnce k f a m)"
  by (simp add: alertOnce_def raise_alert_def)

lemma alertOnce_again: "k \<in> alerted m \<Longrightarrow> alertOnce k f a m = m"
  by (simp add: alertOnce_def)

section \<open>Bookkeeping of one record\<close>

definition outcomes :: "stats \<Rightarrow> nat" where
  "outcomes t = Malformed t + Skipped t + Created t + Enabled t + Disabled t + Updated t + Unchanged t"

lemmas record_simps = outcomes_def zero_record_def

lemma validate_Nil: "validate u = [] \<longleftrightarrow>
    u_ID u \<noteq> [] \<and> u_Active u \<noteq> None \<and> (u_UserName u \<noteq> [] \<or> PrimaryEmail u \<noteq> [])"
  by (auto simp: validate_def)

lemma writeBack_stats:
  "writeBack s i h r = (oe, r') \<Longrightarrow>
     outcomes (r_stats r') = outcomes (r_stats r) \<and> Scanned (r_stats r') = Scanned (r_stats r)
     \<and> Malformed (r_stats r') = Malformed (r_stats r)
     \<and> alert_growth (r_alerts r) (r_alerts r')"
  by (auto simp: writeBack_def record_simps split: if_splits sum.splits prod.splits option.splits)

lemma syncState_stats:
  "syncState s u b p r = (oe, r') \<Longrightarrow>
     Scanned (r_stats r') = Scanned (r_stats r) \<and> Malformed (r_stats r') = Malformed (r_stats r)
     \<and> r_alerts r' = r_alerts r
     \<and> outcomes (r_stats r') = outcomes (r_stats r) + (if oe = None then 1 else 0)"
  by (auto simp: syncState_def record_simps Let_def split: if_splits sum.splits prod.splits option.splits)

lemma ensureHelpper_stats:
  "ensureHelpper s u r = (res, r') \<Longrightarrow>
     Scanned (r_stats r') = Scanned (r_stats r) \<and> Malformed (r_stats r') = Malformed (r_stats r)
     \<and> r_alerts r' = r_alerts r
     \<and> outcomes (r_stats r') \<le> outcomes (r_stats r) + 1"
  by (auto simp: ensureHelpper_def record_simps split: if_splits sum.splits prod.splits)

text \<open>What holds of the counters whatever the interfaces do.\<close>

lemma apply_counts:
  assumes "apply_record s u r = (res, r')"
  shows "Scanned (r_stats r') = Suc (Scanned (r_stats r))"
    and "alert_growth (r_alerts r) (r_alerts r')"
    and "outcomes (r_stats r') \<le> Suc (outcomes (r_stats r))"
    and "Malformed (r_stats r') = Malformed (r_stats r) + (if validate u = [] then 0 else 1)"
  using assms
  by (auto simp: apply_record_def Let_def record_simps split: if_splits sum.splits prod.splits option.splits
      dest!: writeBack_stats syncState_stats ensureHelpper_stats)

lemma apply_malformed:
  "validate u \<noteq> [] \<Longrightarrow> apply_record s u r = (res, r') \<Longrightarrow>
     res = Inr (zero_record\<lparr>malformed := True\<rparr>) \<and> r_world r' = r_world r"
  by (auto simp: apply_record_def Let_def)

lemma apply_malformed_flag:
  "apply_record s u r = (Inr rec, r') \<Longrightarrow> malformed rec = (validate u \<noteq> [])"
  by (auto simp: apply_record_def Let_def record_simps split: if_splits sum.splits prod.splits option.splits)

section \<open>Refinement of the upsert\<close>

context reconciler begin

lemma writeBack_frame:
  "writeBack s i h r = (oe, r') \<Longrightarrow> ok (r_world r) \<Longrightarrow>
     ok (r_world r') \<and> accounts (r_world r') = accounts (r_world r) \<and> saved (r_world r') = saved (r_world r)"
  by (auto simp: writeBack_def split: if_splits sum.splits prod.splits option.splits
      dest!: patch_steps dest: pstep_frame)

lemma syncState_upsert:
  assumes "syncState s u active p r = (oe, r')" and "ok (r_world r)"
    and "accounts (r_world r) (u_ID u) = Some p" and "u_Active u = Some active" and "validate u = []"
  shows "ok (r_world r')" and "saved (r_world r') = saved (r_world r)"
    and "upsert u (accounts (r_world r)) (accounts (r_world r'))
         \<or> oe \<noteq> None \<and> accounts (r_world r') = accounts (r_world r) \<or> dryRun s \<and> r_world r' = r_world r"
proof -
  let ?w = "r_world r"
  let ?upd = "\<lparr>hu_Enabled = active, hu_DisplayName = u_DisplayName u, hu_Login = PrimaryEmail u\<rparr>"
  consider
      (same) "h_Enabled p = active \<and> h_DisplayName p = u_DisplayName u \<and> h_Login p = PrimaryEmail u"
        "r_world r' = ?w"
    | (dry) "dryRun s" "r_world r' = ?w"
    | (upd) "UpdateHelpper (st s) (h_ID p) ?upd ?w = (oe, r_world r')"
        \<comment> \<open>up to the prefix of the error\<close>
    | (err) e where "UpdateHelpper (st s) (h_ID p) ?upd ?w = (Some e, r_world r')" "oe \<noteq> None"
    using assms(1)
    by (auto simp: syncState_def Let_def split: if_splits prod.splits option.splits)
  then have "ok (r_world r') \<and> saved (r_world r') = saved ?w
    \<and> (upsert u (accounts ?w) (accounts (r_world r'))
       \<or> oe \<noteq> None \<and> accounts (r_world r') = accounts ?w \<or> dryRun s \<and> r_world r' = ?w)"
  proof cases
    case same
    then have "upsert u (accounts ?w) (accounts ?w)"
      using assms(3-5) by (simp add: upsert_converged desired_def)
    with same assms(2) show ?thesis by simp
  next
    case dry
    with assms(2) show ?thesis by simp
  next
    case upd
    note f = update_frame [OF assms(2) upd]
    show ?thesis
    proof (cases oe)
      case None
      with upd update_done [OF assms(2,3)] obtain t where
        "accounts (r_world r') = (accounts ?w)(u_ID u \<mapsto> apply_update ?upd t p)" by blast
      then have "upsert u (accounts ?w) (accounts (r_world r'))"
        using assms(3-5) by (auto simp: upsert_def)
      with f show ?thesis by simp
    next
      case (Some e)
      with upd update_failed [OF assms(2)] f show ?thesis by blast
    qed
  next
    case err
    with update_frame [OF assms(2) err(1)] update_failed [OF assms(2) err(1)] show ?thesis by simp
  qed
  then show "ok (r_world r')" "saved (r_world r') = saved ?w"
    and "upsert u (accounts ?w) (accounts (r_world r'))
       \<or> oe \<noteq> None \<and> accounts (r_world r') = accounts ?w \<or> dryRun s \<and> r_world r' = ?w" by blast+
qed

lemma ensureHelpper_upsert:
  assumes "ensureHelpper s u r = (res, r')" and "ok (r_world r)"
    and "accounts (r_world r) (u_ID u) = None" and "u_Active u = Some True" and "validate u = []"
  shows "ok (r_world r')" and "saved (r_world r') = saved (r_world r)"
    and "case res of
           Inl e \<Rightarrow> accounts (r_world r') = accounts (r_world r)
         | Inr p \<Rightarrow> (if dryRun s then r_world r' = r_world r
             else upsert u (accounts (r_world r)) (accounts (r_world r'))
                  \<and> accounts (r_world r') (u_ID u) = Some p)"
proof -
  let ?w = "r_world r"
  let ?nh = "\<lparr>nh_DirectoryID = u_ID u, nh_Login = PrimaryEmail u, nh_DisplayName = u_DisplayName u\<rparr>"
  consider (dry) p where "dryRun s" "res = Inr p" "r_world r' = ?w"
    | (new) p where "\<not> dryRun s" "CreateHelpper (st s) ?nh ?w = (Inr p, r_world r')" "res = Inr p"
    | (race) e w1 where "CreateHelpper (st s) ?nh ?w = (Inl e, w1)" "err_is e ErrAlreadyExists"
    | (err) e where "CreateHelpper (st s) ?nh ?w = (Inl e, r_world r')" "isl res"
    using assms(1) by (auto simp: ensureHelpper_def split: if_splits sum.splits prod.splits)
  then have "ok (r_world r') \<and> saved (r_world r') = saved ?w \<and>
    (case res of Inl e \<Rightarrow> accounts (r_world r') = accounts ?w
     | Inr p \<Rightarrow> (if dryRun s then r_world r' = ?w
         else upsert u (accounts ?w) (accounts (r_world r')) \<and> accounts (r_world r') (u_ID u) = Some p))"
  proof cases
    case dry
    with assms(2) show ?thesis by simp
  next
    case new
    with create_frame [OF assms(2) new(2)] create_fresh [OF assms(2) new(2)] assms(3-5)
    show ?thesis by (auto simp: upsert_def)
  next
    case race
    from create_exists [OF assms(2) race] assms(3) show ?thesis by simp
  next
    case err
    with create_frame [OF assms(2) err(1)] create_failed [OF assms(2) err(1)] show ?thesis
      by (cases res) auto
  qed
  then show "ok (r_world r')" "saved (r_world r') = saved ?w"
    and "case res of Inl e \<Rightarrow> accounts (r_world r') = accounts ?w
     | Inr p \<Rightarrow> (if dryRun s then r_world r' = ?w
         else upsert u (accounts ?w) (accounts (r_world r')) \<and> accounts (r_world r') (u_ID u) = Some p)"
    by blast+
qed

text \<open>
  The branches of \<open>apply\<close> past the validation, as the proofs need them: the lookup, the
  upsert, the write-back.
\<close>

lemma apply_branches:
  assumes "apply_record s u r = (res, r')" and "validate u = []"
  obtains (failed) e w where "HelpperByDirectoryID (st s) (u_ID u) (r_world r) = (Inl e, w)"
      "\<not> err_is e ErrNotFound" "r_world r' = w" "isl res"
      "outcomes (r_stats r') = outcomes (r_stats r)"
  | (skip) e w where "HelpperByDirectoryID (st s) (u_ID u) (r_world r) = (Inl e, w)"
      "err_is e ErrNotFound" "u_Active u = Some False" "r_world r' = w" "\<not> isl res"
      "outcomes (r_stats r') = Suc (outcomes (r_stats r))"
  | (create) e w r2 q r3 where "HelpperByDirectoryID (st s) (u_ID u) (r_world r) = (Inl e, w)"
      "err_is e ErrNotFound" "u_Active u = Some True" "r_world r2 = w"
      "outcomes (r_stats r2) = outcomes (r_stats r)" "ensureHelpper s u r2 = (q, r3)"
      "case q of Inl e' \<Rightarrow> r' = r3 \<and> res = Inl e'
         | Inr p \<Rightarrow> (\<exists>oe. writeBack s (u_ID u) (h_ID p) r3 = (oe, r') \<and> (oe \<noteq> None \<longleftrightarrow> isl res))"
  | (update) p w r2 oe r3 active where "HelpperByDirectoryID (st s) (u_ID u) (r_world r) = (Inr p, w)"
      "r_world r2 = w" "outcomes (r_stats r2) = outcomes (r_stats r)"
      "u_Active u = Some active" "syncState s u active p r2 = (oe, r3)"
      "if oe \<noteq> None then r' = r3 \<and> isl res
       else if u_ExternalID u = h_ID p then r' = r3 \<and> \<not> isl res
       else (\<exists>oe. writeBack s (u_ID u) (h_ID p) r3 = (oe, r') \<and> (oe \<noteq> None \<longleftrightarrow> isl res))"
proof -
  obtain b where b: "u_Active u = Some b" using validate_active [OF assms(2)] by blast
  define r1 where "r1 = count (Scanned_update Suc) r"
  have r1: "r_world r1 = r_world r" "outcomes (r_stats r1) = outcomes (r_stats r)"
    by (simp_all add: r1_def outcomes_def)
  obtain q w where lookup: "HelpperByDirectoryID (st s) (u_ID u) (r_world r) = (q, w)" by fastforce
  have lookup1: "HelpperByDirectoryID (st s) (u_ID u) (r_world r1) = (q, w)"
    by (simp add: r1 lookup)
  note run = assms(1) [unfolded apply_record_def Let_def r1_def [symmetric], simplified assms(2) b lookup1, simplified]
  have w: "r_world (at_world w r1) = w" "outcomes (r_stats (at_world w r1)) = outcomes (r_stats r)"
    using r1 by simp_all
  show thesis
  proof (cases q)
    case (Inl e)
    show ?thesis
    proof (cases "err_is e ErrNotFound")
      case False
      with Inl run r1 lookup show ?thesis by (intro failed) auto
    next
      case nf: True
      show ?thesis
      proof (cases b)
        case False
        with Inl run r1 lookup nf b show ?thesis by (intro skip) (auto simp: outcomes_def)
      next
        case True
        obtain q3 r3 where "ensureHelpper s u (at_world w r1) = (q3, r3)" by fastforce
        with Inl run lookup nf b True w show ?thesis
          by (intro create [of e w "at_world w r1" q3 r3])
            (auto split: sum.splits prod.splits option.splits)
      qed
    qed
  next
    case (Inr p)
    obtain oe r3 where "syncState s u b p (at_world w r1) = (oe, r3)" by fastforce
    with Inr run lookup b w show ?thesis
      by (intro update [of p w "at_world w r1" b oe r3])
        (auto split: option.splits prod.splits if_splits)
  qed
qed

theorem apply_upsert:
  assumes "apply_record s u r = (res, r')" and "ok (r_world r)"
  shows "ok (r_world r')" and "saved (r_world r') = saved (r_world r)"
    and "accounts (r_world r') = accounts (r_world r) \<and> (dryRun s \<or> isl res)
         \<or> upsert u (accounts (r_world r)) (accounts (r_world r'))"
proof -
  let ?w = "r_world r"
  let ?goal = "ok (r_world r') \<and> saved (r_world r') = saved ?w
    \<and> (accounts (r_world r') = accounts ?w \<and> (dryRun s \<or> isl res)
       \<or> upsert u (accounts ?w) (accounts (r_world r')))"
  have ?goal
  proof (cases "validate u = []")
    case False
    with apply_malformed [OF this assms(1)] assms(2) show ?thesis by (simp add: upsert_malformed)
  next
    case True
    from assms(1) True show ?thesis
    proof (cases rule: apply_branches)
      case (failed e w)
      with lookup_frame [OF assms(2) failed(1)] show ?thesis by simp
    next
      case (skip e w)
      from lookup_missing [OF assms(2) skip(1,2)] True skip(3)
      have "upsert u (accounts ?w) (accounts ?w)" by (simp add: upsert_def)
      with skip lookup_frame [OF assms(2) skip(1)] show ?thesis by simp
    next
      case (create e w r2 q r3)
      have w: "ok w" "accounts w = accounts ?w" "saved w = saved ?w"
        using lookup_frame [OF assms(2) create(1)] by simp_all
      have none: "accounts (r_world r2) (u_ID u) = None"
        using lookup_missing [OF assms(2) create(1,2)] create(4) w by simp
      note en = ensureHelpper_upsert [OF create(6) _ none create(3) True] and cw = create(4) w
      show ?thesis
      proof (cases q)
        case (Inl e')
        with create(7) en cw show ?thesis by simp
      next
        case (Inr p)
        with create(7) obtain oe where wb: "writeBack s (u_ID u) (h_ID p) r3 = (oe, r')"
          and "(oe \<noteq> None) = isl res" by auto
        with writeBack_frame [OF wb] Inr en cw show ?thesis by (auto split: if_splits)
      qed
    next
      case (update p w r2 oe r3 active)
      have w: "ok w" "accounts w = accounts ?w" "saved w = saved ?w"
        using lookup_frame [OF assms(2) update(1)] by simp_all
      have some: "accounts (r_world r2) (u_ID u) = Some p"
        using lookup_found [OF assms(2) update(1)] update(2) w by simp
      note sy = syncState_upsert [OF update(5) _ some update(4) True] and cw = update(2) w
      show ?thesis
      proof (cases "oe \<noteq> None \<or> u_ExternalID u = h_ID p")
        case True
        with update(6) sy cw show ?thesis by (auto split: if_splits)
      next
        case False
        with update(6) obtain oe' where wb: "writeBack s (u_ID u) (h_ID p) r3 = (oe', r')" by auto
        with writeBack_frame [OF wb] False sy cw show ?thesis by auto
      qed
    qed
  qed
  then show "ok (r_world r')" "saved (r_world r') = saved ?w"
    and "accounts (r_world r') = accounts ?w \<and> (dryRun s \<or> isl res)
       \<or> upsert u (accounts ?w) (accounts (r_world r'))" by blast+
qed

text \<open>A usable record that was applied for real leaves the account it asks for.\<close>

corollary apply_converges:
  assumes "apply_record s u r = (Inr rec, r')" and "ok (r_world r)"
    and "validate u = []" and "\<not> dryRun s"
  shows "desired u (accounts (r_world r') (u_ID u))"
  using apply_upsert(3) [OF assms(1,2)] assms(3,4) upsert_desired by auto

text \<open>With one worker on the store, a record that was applied is counted exactly once.\<close>

lemma apply_outcome:
  assumes "apply_record s u r = (Inr rec, r')" and "ok (r_world r)"
  shows "outcomes (r_stats r') = Suc (outcomes (r_stats r))"
proof (cases "validate u = []")
  case False
  with assms show ?thesis by (auto simp: apply_record_def Let_def outcomes_def)
next
  case True
  from assms(1) True show ?thesis
  proof (cases rule: apply_branches)
    case (create e w r2 q r3)
    have none: "accounts (r_world r2) (u_ID u) = None"
      using lookup_missing [OF assms(2) create(1,2)] lookup_frame [OF assms(2) create(1)] create(4)
      by simp
    have okw: "ok (r_world r2)" using lookup_frame [OF assms(2) create(1)] create(4) by simp
    have "outcomes (r_stats r3) = Suc (outcomes (r_stats r2))" if "\<not> isl q"
      using create(6) that none
      by (auto simp: ensureHelpper_def outcomes_def split: if_splits sum.splits prod.splits
          dest: create_exists [OF okw])
    with create show ?thesis by (auto dest!: writeBack_stats split: sum.splits)
  next
    case (update p w r2 oe r3 active)
    with syncState_stats [OF update(5)] show ?thesis
      by (auto dest!: writeBack_stats split: if_splits)
  qed simp_all
qed

text \<open>
  Applying a record to a base that already is as it asks, with the identifier already on
  the directory record, reads the store and does nothing else.
\<close>

lemma apply_converged_is_noop:
  assumes "HelpperByDirectoryID (st s) (u_ID u) (r_world r) = (Inr p, w)" and "ok (r_world r)"
    and "validate u = []" and "desired u (accounts (r_world r) (u_ID u))" and "u_ExternalID u = h_ID p"
  shows "\<exists>rec. apply_record s u r =
    (Inr rec, at_world w (count (Unchanged_update Suc) (count (Scanned_update Suc) r)))"
proof -
  from lookup_found [OF assms(2,1)] assms(4)
  have "u_Active u = Some (h_Enabled p)" "h_DisplayName p = u_DisplayName u" "h_Login p = PrimaryEmail u"
    by (simp_all add: desired_def)
  with assms(1,3,5) show ?thesis
    by (cases r) (simp add: apply_record_def syncState_def Let_def)
qed

end

end
