(* ===== verification/Reconciler_Cycle.thy ===== *)
theory Reconciler_Cycle
  imports Reconciler_Apply
begin

text \<open>
  The walk and the two cycles. The facts about a walk are inductions over \<open>walked\<close>, the
  contract of the directory, so they hold however the records are paged and whatever the
  directory does in between; the facts about \<open>Incremental\<close> and \<open>Full\<close> follow from the
  walk and from \<open>advance\<close>.
\<close>

section \<open>Observers\<close>

text \<open>An observer touches only the two variables that are its own.\<close>

definition benign :: "observer option \<Rightarrow> bool" where
  "benign observe =
     (\<forall>f u rec x. observe = Some f \<longrightarrow>
        wk_stats (f u rec x) = wk_stats x \<and> wk_high (f u rec x) = wk_high x
        \<and> wk_earliestMalformed (f u rec x) = wk_earliestMalformed x \<and> wk_alerts (f u rec x) = wk_alerts x)"

lemma benign_None [simp, intro]: "benign None"
  by (simp add: benign_def)

lemma benign_observe_drift [simp, intro]: "benign (Some observe_drift)"
  by (simp add: benign_def observe_drift_def Let_def)

section \<open>One call of the callback\<close>

lemma note_simps [simp]:
  "wk_stats (note_usable u x) = wk_stats x" "wk_stats (note_malformed u x) = wk_stats x"
  "wk_alerts (note_usable u x) = wk_alerts x" "wk_alerts (note_malformed u x) = wk_alerts x"
  "wk_seen (note_usable u x) = wk_seen x" "wk_seen (note_malformed u x) = wk_seen x"
  "wk_drift (note_usable u x) = wk_drift x" "wk_drift (note_malformed u x) = wk_drift x"
  "wk_earliestMalformed (note_usable u x) = wk_earliestMalformed x"
  "wk_high (note_malformed u x) = wk_high x"
  by (simp_all add: note_usable_def note_malformed_def)

abbreviation run_of :: "walk_state \<Rightarrow> 'w \<Rightarrow> 'w run" where
  "run_of x w \<equiv> \<lparr>r_stats = wk_stats x, r_alerts = wk_alerts x, r_world = w\<rparr>"

lemma callback_run:
  assumes "walk_callback s observe u (x, w) = (oe, x', w')" and "benign observe"
  shows "\<exists>res. apply_record s u (run_of x w) = (res, run_of x' w') \<and> (isl res \<longrightarrow> oe \<noteq> None)"
proof -
  obtain res r where r: "apply_record s u (run_of x w) = (res, r)" by fastforce
  have "r = run_of x' w' \<and> (isl res \<longrightarrow> oe \<noteq> None)"
    using assms r
    by (cases r) (auto simp: walk_callback_def Let_def benign_def split: sum.splits if_splits option.splits)
  with r show ?thesis by blast
qed

lemma callback_limit:
  assumes "walk_callback s observe u (x, w) = (None, x', w')"
    and "validate u \<noteq> []" and "0 \<le> maxMalformed s"
  shows "int (Malformed (wk_stats x')) \<le> maxMalformed s"
  using assms
  by (auto simp: walk_callback_def Let_def apply_malformed_flag split: sum.splits if_splits prod.splits)

lemma callback_marks:
  assumes "walk_callback s observe u (x, w) = (None, x', w')" and "benign observe"
  shows "validate u = [] \<Longrightarrow> wk_high x' = max (wk_high x) (LastModified u)
           \<and> wk_earliestMalformed x' = wk_earliestMalformed x"
    and "validate u \<noteq> [] \<Longrightarrow> wk_high x' = wk_high x
           \<and> wk_earliestMalformed x' =
               (if LastModified u \<noteq> 0 \<and> (wk_earliestMalformed x = 0 \<or> LastModified u < wk_earliestMalformed x)
                then LastModified u else wk_earliestMalformed x)"
  using assms
  by (auto simp: walk_callback_def Let_def benign_def apply_malformed_flag note_usable_def
      note_malformed_def time_defs split: sum.splits if_splits option.splits prod.splits)

lemma callback_seen:
  assumes "walk_callback s (Some observe_drift) u (x, w) = (None, x', w')"
  shows "wk_seen x' = insert (u_ID u) (wk_seen x)"
  using assms
  by (auto simp: walk_callback_def Let_def observe_drift_def split: sum.splits if_splits prod.splits)

section \<open>The walk, whatever the interfaces do\<close>

lemma walked_counts:
  assumes "walked rstep served (walk_callback s observe) (x, w) us e (x', w')" and "benign observe"
  shows "alert_growth (wk_alerts x) (wk_alerts x')"
    and "Scanned (wk_stats x') = Scanned (wk_stats x) + length us"
    and "outcomes (wk_stats x) \<le> Scanned (wk_stats x) \<Longrightarrow> outcomes (wk_stats x') \<le> Scanned (wk_stats x')"
proof -
  have "alert_growth (wk_alerts x) (wk_alerts x')
    \<and> Scanned (wk_stats x') = Scanned (wk_stats x) + length us
    \<and> (outcomes (wk_stats x) \<le> Scanned (wk_stats x) \<longrightarrow> outcomes (wk_stats x') \<le> Scanned (wk_stats x'))"
    using assms(1)
  proof (induction "(x, w)" us e "(x', w')" arbitrary: x w rule: walked.induct)
    case (walked_visit u s1 us e)
    obtain x1 w1 where s1: "s1 = (x1, w1)" by fastforce
    from callback_run [OF walked_visit(2) [unfolded s1] assms(2)] obtain res where
      run: "apply_record s u (run_of x w) = (res, run_of x1 w1)" by blast
    note one = apply_counts [OF run, simplified]
    note IH = walked_visit(4) [OF s1]
    with one(2) have "alert_growth (wk_alerts x) (wk_alerts x')" by (blast intro: alert_growth_trans)
    with one(1,3) IH show ?case by auto
  next
    case (walked_abort u err)
    from callback_run [OF walked_abort(2) assms(2)] obtain res where
      run: "apply_record s u (run_of x w) = (res, run_of x' w')" by blast
    from apply_counts(1-3) [OF run, simplified] show ?case by simp
  qed auto
  then show "alert_growth (wk_alerts x) (wk_alerts x')"
    and "Scanned (wk_stats x') = Scanned (wk_stats x) + length us"
    and "outcomes (wk_stats x) \<le> Scanned (wk_stats x) \<Longrightarrow> outcomes (wk_stats x') \<le> Scanned (wk_stats x')"
    by blast+
qed

text \<open>A finished walk has met no more unusable records than the limit allows.\<close>

lemma walked_malformed_limit:
  assumes "walked rstep served (walk_callback s observe) (x, w) us None (x', w')" and "benign observe"
    and "0 \<le> maxMalformed s" and "int (Malformed (wk_stats x)) \<le> maxMalformed s"
  shows "int (Malformed (wk_stats x')) \<le> maxMalformed s"
  using assms(1,4)
proof (induction "(x, w)" us "None :: goerror option" "(x', w')" arbitrary: x w rule: walked.induct)
  case (walked_visit u s1 us)
  obtain x1 w1 where s1: "s1 = (x1, w1)" by fastforce
  from callback_run [OF walked_visit(2) [unfolded s1] assms(2)] obtain res where
    run: "apply_record s u (run_of x w) = (res, run_of x1 w1)" by blast
  show ?case
  proof (cases "validate u = []")
    case True
    with apply_counts(4) [OF run] walked_visit(4) [OF s1] walked_visit(5) show ?thesis by simp
  next
    case False
    with callback_limit [OF walked_visit(2) [unfolded s1] _ assms(3)] walked_visit(4) [OF s1]
    show ?thesis by simp
  qed
qed simp_all

text \<open>
  The watermarks of a finished walk: \<open>high\<close> is the newest timestamp of a usable record,
  \<open>earliestMalformed\<close> the oldest one of an unusable record that has one.
\<close>

lemma walked_high:
  assumes "walked rstep served (walk_callback s observe) (x, w) us None (x', w')" and "benign observe"
  shows "wk_high x \<le> wk_high x'"
    and "\<forall>u \<in> set us. validate u = [] \<longrightarrow> LastModified u \<le> wk_high x'"
    and "wk_high x' = wk_high x \<or> (\<exists>u \<in> set us. served u \<and> validate u = [] \<and> wk_high x' = LastModified u)"
proof -
  have "wk_high x \<le> wk_high x' \<and> (\<forall>u \<in> set us. validate u = [] \<longrightarrow> LastModified u \<le> wk_high x')
    \<and> (wk_high x' = wk_high x \<or> (\<exists>u \<in> set us. served u \<and> validate u = [] \<and> wk_high x' = LastModified u))"
    using assms(1)
  proof (induction "(x, w)" us "None :: goerror option" "(x', w')" arbitrary: x w rule: walked.induct)
    case (walked_visit u s1 us)
    obtain x1 w1 where s1: "s1 = (x1, w1)" by fastforce
    note marks = callback_marks [OF walked_visit(2) [unfolded s1] assms(2)]
    from marks walked_visit(4) [OF s1] walked_visit(1) show ?case
      by (cases "validate u = []") (auto simp: max_def split: if_splits)
  qed simp_all
  then show "wk_high x \<le> wk_high x'"
    and "\<forall>u \<in> set us. validate u = [] \<longrightarrow> LastModified u \<le> wk_high x'"
    and "wk_high x' = wk_high x \<or> (\<exists>u \<in> set us. served u \<and> validate u = [] \<and> wk_high x' = LastModified u)"
    by blast+
qed

lemma walked_earliest:
  assumes "walked rstep served (walk_callback s observe) (x, w) us None (x', w')" and "benign observe"
  shows "wk_earliestMalformed x \<noteq> 0 \<Longrightarrow>
      wk_earliestMalformed x' \<noteq> 0 \<and> wk_earliestMalformed x' \<le> wk_earliestMalformed x"
    and "\<forall>u \<in> set us. validate u \<noteq> [] \<longrightarrow> LastModified u \<noteq> 0 \<longrightarrow>
      wk_earliestMalformed x' \<noteq> 0 \<and> wk_earliestMalformed x' \<le> LastModified u"
    and "wk_earliestMalformed x' = wk_earliestMalformed x
      \<or> (\<exists>u \<in> set us. served u \<and> validate u \<noteq> [] \<and> wk_earliestMalformed x' = LastModified u)"
proof -
  have "(wk_earliestMalformed x \<noteq> 0 \<longrightarrow>
        wk_earliestMalformed x' \<noteq> 0 \<and> wk_earliestMalformed x' \<le> wk_earliestMalformed x)
    \<and> (\<forall>u \<in> set us. validate u \<noteq> [] \<longrightarrow> LastModified u \<noteq> 0 \<longrightarrow>
        wk_earliestMalformed x' \<noteq> 0 \<and> wk_earliestMalformed x' \<le> LastModified u)
    \<and> (wk_earliestMalformed x' = wk_earliestMalformed x
      \<or> (\<exists>u \<in> set us. served u \<and> validate u \<noteq> [] \<and> wk_earliestMalformed x' = LastModified u))"
    using assms(1)
  proof (induction "(x, w)" us "None :: goerror option" "(x', w')" arbitrary: x w rule: walked.induct)
    case (walked_visit u s1 us)
    obtain x1 w1 where s1: "s1 = (x1, w1)" by fastforce
    note marks = callback_marks [OF walked_visit(2) [unfolded s1] assms(2)]
    note IH = walked_visit(4) [OF s1]
    show ?case
    proof (cases "validate u = []")
      case True
      with marks(1) IH show ?thesis by auto
    next
      case False
      with marks(2) IH walked_visit(1) show ?thesis by (fastforce split: if_splits)
    qed
  qed simp_all
  then show "wk_earliestMalformed x \<noteq> 0 \<Longrightarrow>
      wk_earliestMalformed x' \<noteq> 0 \<and> wk_earliestMalformed x' \<le> wk_earliestMalformed x"
    and "\<forall>u \<in> set us. validate u \<noteq> [] \<longrightarrow> LastModified u \<noteq> 0 \<longrightarrow>
      wk_earliestMalformed x' \<noteq> 0 \<and> wk_earliestMalformed x' \<le> LastModified u"
    and "wk_earliestMalformed x' = wk_earliestMalformed x
      \<or> (\<exists>u \<in> set us. served u \<and> validate u \<noteq> [] \<and> wk_earliestMalformed x' = LastModified u)"
    by blast+
qed

lemma walked_seen:
  assumes "walked rstep served (walk_callback s (Some observe_drift)) (x, w) us None (x', w')"
  shows "wk_seen x' = wk_seen x \<union> u_ID ` set us"
  using assms
proof (induction "(x, w)" us "None :: goerror option" "(x', w')" arbitrary: x w rule: walked.induct)
  case (walked_visit u s1 us)
  obtain x1 w1 where s1: "s1 = (x1, w1)" by fastforce
  from callback_seen [OF walked_visit(2) [unfolded s1]] walked_visit(4) [OF s1] show ?case by auto
qed simp_all

text \<open>The watermark a finished walk returns never passes an unusable record.\<close>

lemma walked_watermark:
  assumes "walked rstep served (walk_callback s observe) (start_walk m, w) us None (x', w')"
    and "benign observe"
  shows "\<forall>u \<in> set us. validate u \<noteq> [] \<longrightarrow> LastModified u \<noteq> 0 \<longrightarrow> watermark x' \<le> LastModified u"
    and "watermark x' \<noteq> 0 \<Longrightarrow> \<exists>u \<in> set us. served u \<and> watermark x' = LastModified u"
    and "(\<forall>u \<in> set us. validate u = []) \<Longrightarrow> \<forall>u \<in> set us. LastModified u \<le> watermark x'"
proof -
  note high = walked_high [OF assms] and early = walked_earliest [OF assms]
  show "\<forall>u \<in> set us. validate u \<noteq> [] \<longrightarrow> LastModified u \<noteq> 0 \<longrightarrow> watermark x' \<le> LastModified u"
    using early(2) by (fastforce simp: watermark_def time_defs)
  show "watermark x' \<noteq> 0 \<Longrightarrow> \<exists>u \<in> set us. served u \<and> watermark x' = LastModified u"
    using high(3) early(3) by (auto simp: watermark_def time_defs start_walk_def split: if_splits)
  assume "\<forall>u \<in> set us. validate u = []"
  with high(2) early(3) show "\<forall>u \<in> set us. LastModified u \<le> watermark x'"
    by (auto simp: watermark_def time_defs start_walk_def)
qed

end
