(* ===== verification/Reconciler_Safety.thy ===== *)
theory Reconciler_Safety
  imports Reconciler_Cycle
begin

text \<open>
  The safety of the two cycles under the contracts: what they may do to the table of
  helppers, when the checkpoint moves and where to, how every record is accounted for, and
  that a dry run only reads.
\<close>

section \<open>The shape of a cycle\<close>

lemma walkWith_elim:
  assumes "walkWith s filt observe m w = ((res, x), w')"
  obtains (failed) e where
      "ListUsers (dir s) filt (pageSize s) (walk_callback s observe) (start_walk m, w) = (Some e, x, w')"
      "res = Inl e"
  | (completed) "ListUsers (dir s) filt (pageSize s) (walk_callback s observe) (start_walk m, w) = (None, x, w')"
      "res = Inr (watermark x)"
  using assms by (auto simp: walkWith_def split: prod.splits option.splits)

text \<open>The world a cycle's walk starts in, and the filter of an incremental one.\<close>

definition cycle_start :: "'w syncer \<Rightarrow> 'w \<Rightarrow> 'w" where
  "cycle_start s w = snd (Checkpoint (st s) (snd (now s w)))"

definition cycle_filter :: "'w syncer \<Rightarrow> 'w \<Rightarrow> string" where
  "cycle_filter s w =
     (case fst (Checkpoint (st s) (snd (now s w))) of Inl _ \<Rightarrow> [] | Inr cp \<Rightarrow> incremental_filter s cp)"

text \<open>\<open>us\<close> is what a walk from there hands to the callback.\<close>

definition walks_over :: "('w \<Rightarrow> 'w \<Rightarrow> bool) \<Rightarrow> (user \<Rightarrow> bool) \<Rightarrow> 'w syncer \<Rightarrow> string \<Rightarrow> observer option \<Rightarrow>
    alert_state \<Rightarrow> 'w \<Rightarrow> user list \<Rightarrow> bool" where
  "walks_over rstep served s filt observe m w us \<longleftrightarrow>
     (\<forall>e s'. ListUsers (dir s) filt (pageSize s) (walk_callback s observe) (start_walk m, w) = (e, s') \<longrightarrow>
        walked rstep served (walk_callback s observe) (start_walk m, w) us e s')"

lemma walks_over_finished:
  assumes "walkWith s filt observe m w = ((Inr mark, x), w')" and "walks_over rstep served s filt observe m w us"
  shows "walked rstep served (walk_callback s observe) (start_walk m, w) us None (x, w')" and "mark = watermark x"
  using assms by (auto elim!: walkWith_elim simp: walks_over_def)

lemma Incremental_elim:
  assumes "Incremental s m w0 = ((sts, err), m', w')"
  obtains (unread) started w1 e where "now s w0 = (started, w1)" "Checkpoint (st s) w1 = (Inl e, w')"
      "sts = zero_stats" "err = Some (Wrapped ''read checkpoint'' e)" "m' = m"
  | (aborted) started w1 cp w2 e x w3 fin where "now s w0 = (started, w1)"
      "Checkpoint (st s) w1 = (Inr cp, w2)"
      "walkWith s (incremental_filter s cp) None m w2 = ((Inl e, x), w3)" "now s w3 = (fin, w')"
      "sts = (wk_stats x)\<lparr>Duration := time_sub fin started\<rparr>" "err = Some e" "m' = wk_alerts x"
  | (finished) started w1 cp w2 mark x w3 fin w4 cp' where "now s w0 = (started, w1)"
      "Checkpoint (st s) w1 = (Inr cp, w2)"
      "walkWith s (incremental_filter s cp) None m w2 = ((Inr mark, x), w3)" "now s w3 = (fin, w4)"
      "advance s cp mark (wk_alerts x) w4 = ((cp', err), m', w')"
      "sts = (wk_stats x)\<lparr>Duration := time_sub fin started, stats_Checkpoint := cp'\<rparr>"
  using assms
  by (auto simp: Incremental_def Let_def split: prod.splits sum.splits)

lemma Full_elim:
  assumes "Full s m w0 = ((sts, d, err), m', w')"
  obtains (unread) started w1 e where "now s w0 = (started, w1)" "Checkpoint (st s) w1 = (Inl e, w')"
      "sts = zero_stats" "d = zero_drift" "err = Some (Wrapped ''read checkpoint'' e)" "m' = m"
  | (aborted) started w1 cp w2 e x w3 fin where "now s w0 = (started, w1)"
      "Checkpoint (st s) w1 = (Inr cp, w2)"
      "walkWith s [] (Some observe_drift) m w2 = ((Inl e, x), w3)" "now s w3 = (fin, w')"
      "sts = (wk_stats x)\<lparr>Duration := time_sub fin started\<rparr>" "d = wk_drift x" "err = Some e"
      "m' = wk_alerts x"
  | (unlisted) started w1 cp w2 mark x w3 fin w4 e where "now s w0 = (started, w1)"
      "Checkpoint (st s) w1 = (Inr cp, w2)"
      "walkWith s [] (Some observe_drift) m w2 = ((Inr mark, x), w3)" "now s w3 = (fin, w4)"
      "EnabledHelppers (st s) w4 = (Inl e, w')"
      "sts = (wk_stats x)\<lparr>Duration := time_sub fin started\<rparr>" "d = wk_drift x"
      "err = Some (Wrapped ''list enabled helppers'' e)" "m' = wk_alerts x"
  | (finished) started w1 cp w2 mark x w3 fin w4 local w5 m1 cp' where "now s w0 = (started, w1)"
      "Checkpoint (st s) w1 = (Inr cp, w2)"
      "walkWith s [] (Some observe_drift) m w2 = ((Inr mark, x), w3)" "now s w3 = (fin, w4)"
      "EnabledHelppers (st s) w4 = (Inr local, w5)"
      "d = (wk_drift x)\<lparr>AbsentFromDirectory := absent_from (wk_seen x) local\<rparr>"
      "m1 = (if drift_Empty d then wk_alerts x
             else raise_alert drift_format
               [AInt (int (length (AbsentFromDirectory d))), AInt (int (length (ShouldBeDisabled d))),
                AInt (int (length (MissingExternalID d)))] (wk_alerts x))"
      "advance s cp mark m1 w5 = ((cp', err), m', w')"
      "sts = (wk_stats x)\<lparr>Duration := time_sub fin started, stats_Checkpoint := cp'\<rparr>"
  using assms by (auto simp: Full_def Let_def split: prod.splits sum.splits)

lemma advance_elim:
  assumes "advance s current mark m w = ((cp, err), m', w')"
  obtains (held) "cp = current" "err = None" "m' = m" "w' = w" "mark = 0 \<or> mark \<le> current"
  | (future) t where "cp = current" "err = None" "now s w = (t, w')" "t + futureSkew s < mark"
      "\<exists>f a. m' = alertOnce ''future-watermark'' f a m"
  | (dry) t where "cp = current" "err = None" "m' = m" "now s w = (t, w')" "dryRun s"
  | (unset) t w1 e where "cp = current" "err = Some (Wrapped ''advance checkpoint'' e)" "m' = m"
      "now s w = (t, w1)" "SetCheckpoint (st s) mark w1 = (Some e, w')" "\<not> dryRun s"
  | (moved) t w1 where "cp = mark" "err = None" "m' = m" "now s w = (t, w1)"
      "SetCheckpoint (st s) mark w1 = (None, w')" "\<not> dryRun s" "mark \<noteq> 0" "current < mark"
      "mark \<le> t + futureSkew s"
proof -
  obtain t w1 where now: "now s w = (t, w1)" by fastforce
  consider "mark = 0 \<or> mark \<le> current" | "mark \<noteq> 0" "current < mark" "t + futureSkew s < mark"
    | "mark \<noteq> 0" "current < mark" "mark \<le> t + futureSkew s" "dryRun s"
    | "mark \<noteq> 0" "current < mark" "mark \<le> t + futureSkew s" "\<not> dryRun s" by linarith
  then show thesis
  proof cases
    case 1
    with assms show ?thesis by (intro held) (auto simp: advance_def time_defs)
  next
    case 2
    with assms now show ?thesis by (intro future [of t]) (auto simp: advance_def time_defs)
  next
    case 3
    with assms now show ?thesis by (intro dry [of t]) (auto simp: advance_def time_defs)
  next
    case 4
    obtain oe w2 where set: "SetCheckpoint (st s) mark w1 = (oe, w2)" by fastforce
    show ?thesis
    proof (cases oe)
      case None
      with 4 assms now set show ?thesis by (intro moved [of t w1]) (auto simp: advance_def time_defs)
    next
      case (Some e)
      with 4 assms now set show ?thesis by (intro unset [of e t w1]) (auto simp: advance_def time_defs)
    qed
  qed
qed

lemma advance_alerts: "advance s current mark m w = (res, m', w') \<Longrightarrow> alert_growth m m'"
  by (cases res) (auto elim!: advance_elim)

context reconciler begin

section \<open>What a walk does to the store\<close>

lemma walked_store:
  assumes "walked rstep served (walk_callback s observe) (x, w) us e (x', w')" and "benign observe"
    and "ok w"
  shows "ok w'" and "saved w' = saved w" and "evolves served (accounts w) (accounts w')"
    and "\<forall>d. d \<notin> u_ID ` set us \<longrightarrow> accounts w' d = accounts w d"
proof -
  have "ok w' \<and> saved w' = saved w \<and> evolves served (accounts w) (accounts w')
    \<and> (\<forall>d. d \<notin> u_ID ` set us \<longrightarrow> accounts w' d = accounts w d)"
    using assms(1,3)
  proof (induction "(x, w)" us e "(x', w')" arbitrary: x w rule: walked.induct)
    case (walked_stop e)
    then show ?case by (simp add: evolves_refl)
  next
    case (walked_fetch w w1 x us e)
    with rstep_frame [of w w1] show ?case by simp
  next
    case (walked_visit u s1 us e)
    obtain x1 w1 where s1: "s1 = (x1, w1)" by fastforce
    from callback_run [OF walked_visit(2) [unfolded s1] assms(2)] obtain res where
      run: "apply_record s u (run_of x w) = (res, run_of x1 w1)" by blast
    from apply_upsert [OF run] walked_visit.prems have one: "ok w1" "saved w1 = saved w"
      "accounts w1 = accounts w \<or> upsert u (accounts w) (accounts w1)" by auto
    then have "evolves served (accounts w) (accounts w1)"
      using walked_visit(1) by (auto intro: evolves_one evolves_refl)
    moreover have "accounts w1 d = accounts w d" if "d \<noteq> u_ID u" for d
      using one(3) upsert_frame that by metis
    ultimately show ?case
      using walked_visit(4) [OF s1 one(1)] one(2) by (auto intro: evolves_trans)
  next
    case (walked_abort u err)
    from callback_run [OF walked_abort(2) assms(2)] obtain res where
      run: "apply_record s u (run_of x w) = (res, run_of x' w')" by blast
    from apply_upsert [OF run] walked_abort.prems have one: "ok w'" "saved w' = saved w"
      "accounts w' = accounts w \<or> upsert u (accounts w) (accounts w')" by auto
    then show ?case
      using walked_abort(1) upsert_frame by (auto intro: evolves_one evolves_refl)
  qed
  then show "ok w'" and "saved w' = saved w" and "evolves served (accounts w) (accounts w')"
    and "\<forall>d. d \<notin> u_ID ` set us \<longrightarrow> accounts w' d = accounts w d" by blast+
qed

lemma walked_outcomes:
  assumes "walked rstep served (walk_callback s observe) (x, w) us None (x', w')" and "benign observe"
    and "ok w" and "Scanned (wk_stats x) = outcomes (wk_stats x)"
  shows "Scanned (wk_stats x') = outcomes (wk_stats x')"
  using assms(1,3,4)
proof (induction "(x, w)" us "None :: goerror option" "(x', w')" arbitrary: x w rule: walked.induct)
  case (walked_fetch w w1 x us)
  with rstep_frame [of w w1] show ?case by simp
next
  case (walked_visit u s1 us)
  obtain x1 w1 where s1: "s1 = (x1, w1)" by fastforce
  from callback_run [OF walked_visit(2) [unfolded s1] assms(2)] obtain res where
    run: "apply_record s u (run_of x w) = (res, run_of x1 w1)" and "\<not> isl res" by blast
  then obtain rec where res: "res = Inr rec" by (cases res) auto
  have "ok w1" using apply_upsert(1) [OF run] walked_visit.prems by simp
  moreover have "Scanned (wk_stats x1) = outcomes (wk_stats x1)"
    using apply_outcome [OF run [unfolded res]] apply_counts(1) [OF run] walked_visit.prems by simp
  ultimately show ?case using walked_visit(4) [OF s1] by blast
qed simp_all

lemma walkWith_walked:
  assumes "walkWith s filt observe m w = ((res, x), w')"
  obtains us e where "walked rstep served (walk_callback s observe) (start_walk m, w) us e (x, w')"
    and "res = (case e of Some err \<Rightarrow> Inl err | None \<Rightarrow> Inr (watermark x))"
  using assms
proof (cases rule: walkWith_elim)
  case (failed e)
  with list_walks [OF failed(1)] that show thesis by fastforce
next
  case completed
  with list_walks [OF completed(1)] that show thesis by fastforce
qed

lemma advance_store:
  assumes "advance s current mark m w = ((cp, err), m', w')" and "ok w"
  shows "ok w'" and "accounts w' = accounts w"
    and "saved w' = saved w \<or>
      err = None \<and> saved w' = rnd mark \<and> cp = mark \<and> mark \<noteq> 0 \<and> current < mark
      \<and> (\<exists>t w1. now s w = (t, w1) \<and> mark \<le> t + futureSkew s)"
proof -
  have "ok w' \<and> accounts w' = accounts w \<and> (saved w' = saved w \<or>
      err = None \<and> saved w' = rnd mark \<and> cp = mark \<and> mark \<noteq> 0 \<and> current < mark
      \<and> (\<exists>t w1. now s w = (t, w1) \<and> mark \<le> t + futureSkew s))"
    using assms(1)
  proof (cases rule: advance_elim)
    case held
    with assms(2) show ?thesis by simp
  next
    case (future t)
    with now_frame [OF future(3) assms(2)] show ?thesis by simp
  next
    case (dry t)
    with now_frame [OF dry(4) assms(2)] show ?thesis by simp
  next
    case (unset t w1 e)
    have "ok w1" using now_frame [OF unset(4) assms(2)] by simp
    with now_frame [OF unset(4) assms(2)] set_frame [OF _ unset(5)] set_failed [OF _ unset(5)]
    show ?thesis by simp
  next
    case (moved t w1)
    have "ok w1" using now_frame [OF moved(4) assms(2)] by simp
    with now_frame [OF moved(4) assms(2)] set_frame [OF _ moved(5)] set_done [OF _ moved(5)] moved
    show ?thesis by auto
  qed
  then show "ok w'" and "accounts w' = accounts w" and "saved w' = saved w \<or>
      err = None \<and> saved w' = rnd mark \<and> cp = mark \<and> mark \<noteq> 0 \<and> current < mark
      \<and> (\<exists>t w1. now s w = (t, w1) \<and> mark \<le> t + futureSkew s)" by blast+
qed

end

end
