(* ===== verification/Reconciler_Results.thy ===== *)
theory Reconciler_Results
  imports Reconciler_Safety
begin

text \<open>
  The results about whole cycles, inside the locales: \<open>Incremental\<close> and \<open>Full\<close> share
  them through \<open>walk_summary\<close>. The dry run is at the end, in \<open>quiet_reads\<close>.
\<close>

section \<open>The counters, whatever the store\<close>

definition within_limit :: "'w syncer \<Rightarrow> stats \<Rightarrow> bool" where
  "within_limit s t = (0 \<le> maxMalformed s \<longrightarrow> int (Malformed t) \<le> maxMalformed s)"

definition tallied :: "'w syncer \<Rightarrow> stats \<Rightarrow> goerror option \<Rightarrow> bool" where
  "tallied s sts err \<longleftrightarrow> outcomes sts \<le> Scanned sts \<and> (err = None \<longrightarrow> within_limit s sts)"

context directory_contract begin

lemma walk_counted:
  assumes "walkWith s filt observe m w = ((res, x), w')" and "dir s = d" and "benign observe"
  shows "outcomes (wk_stats x) \<le> Scanned (wk_stats x)" and "res = Inr mark \<Longrightarrow> within_limit s (wk_stats x)"
proof -
  obtain us e where walk: "walked rstep served (walk_callback s observe) (start_walk m, w) us e (x, w')"
    and res: "res = (case e of Some err \<Rightarrow> Inl err | None \<Rightarrow> Inr (watermark x))"
    using assms(1)
  proof (cases rule: walkWith_elim)
    case (failed e)
    with list_walks [OF failed(1) [unfolded assms(2)]] that show ?thesis by fastforce
  next
    case completed
    with list_walks [OF completed(1) [unfolded assms(2)]] that show ?thesis by fastforce
  qed
  show "outcomes (wk_stats x) \<le> Scanned (wk_stats x)"
    using walked_counts(3) [OF walk assms(3)] by (simp add: start_walk_def zero_stats_def outcomes_def)
  assume "res = Inr mark"
  with res have e: "e = None" by (auto split: option.splits)
  show "within_limit s (wk_stats x)"
    using walked_malformed_limit [OF walk [unfolded e] assms(3)]
    by (simp add: within_limit_def start_walk_def zero_stats_def)
qed

lemma incremental_counted: "Incremental s m w = ((sts, err), m', w') \<Longrightarrow> dir s = d \<Longrightarrow> tallied s sts err"
  by (erule Incremental_elim)
    (auto simp: tallied_def zero_stats_def outcomes_def within_limit_def dest: walk_counted [OF _ _ benign_None])

lemma full_counted: "Full s m w = ((sts, dr, err), m', w') \<Longrightarrow> dir s = d \<Longrightarrow> tallied s sts err"
  by (erule Full_elim)
    (auto simp: tallied_def zero_stats_def outcomes_def within_limit_def dest: walk_counted [OF _ _ benign_observe_drift])

end

text \<open>Where a checkpoint may move to: a timestamp the directory issued, not ahead of the
  local clock by more than the allowed skew.\<close>

definition may_advance :: "'w syncer \<Rightarrow> (user \<Rightarrow> bool) \<Rightarrow> time \<Rightarrow> time \<Rightarrow> bool" where
  "may_advance s served old mark =
     (old < mark \<and> mark \<noteq> 0 \<and> (\<exists>u. served u \<and> LastModified u = mark)
      \<and> (\<exists>w t w1. now s w = (t, w1) \<and> mark \<le> t + futureSkew s))"

context reconciler begin

lemma walk_summary:
  assumes "walkWith s filt observe m w = ((res, x), w')" and "benign observe" and "ok w"
  shows "ok w'" and "saved w' = saved w" and "evolves served (accounts w) (accounts w')"
    and "alert_growth m (wk_alerts x)"
    and "res = Inr mark \<Longrightarrow> Scanned (wk_stats x) = outcomes (wk_stats x)"
    and "res = Inr mark \<Longrightarrow> mark \<noteq> 0 \<Longrightarrow> \<exists>u. served u \<and> LastModified u = mark"
proof -
  obtain us e where walk: "walked rstep served (walk_callback s observe) (start_walk m, w) us e (x, w')"
    and res: "res = (case e of Some err \<Rightarrow> Inl err | None \<Rightarrow> Inr (watermark x))"
    using assms(1) by (rule walkWith_walked)
  note store = walked_store [OF walk assms(2,3)]
  show "ok w'" "saved w' = saved w" "evolves served (accounts w) (accounts w')"
    by (fact store(1) store(2) store(3))+
  note counts = walked_counts [OF walk assms(2)]
  show "alert_growth m (wk_alerts x)" using counts(1) by (simp add: start_walk_def)
  assume "res = Inr mark"
  with res have e: "e = None" and mark: "mark = watermark x" by (auto split: option.splits)
  note walk = walk [unfolded e]
  show "Scanned (wk_stats x) = outcomes (wk_stats x)"
    using walked_outcomes [OF walk assms(2,3)] by (simp add: start_walk_def zero_stats_def outcomes_def)
  show "mark \<noteq> 0 \<Longrightarrow> \<exists>u. served u \<and> LastModified u = mark"
    using walked_watermark(2) [OF walk assms(2)] mark by metis
qed

lemma advance_summary:
  assumes "advance s current mark m w = ((cp, err), m', w')" and "ok w" and "saved w = current"
    and "mark \<noteq> 0 \<Longrightarrow> \<exists>u. served u \<and> LastModified u = mark"
  shows "ok w'" and "accounts w' = accounts w"
    and "err \<noteq> None \<Longrightarrow> saved w' = current"
    and "saved w' = current \<or> err = None \<and> saved w' = rnd cp \<and> may_advance s served current cp"
  using advance_store [OF assms(1,2)] assms(3,4) by (auto simp: may_advance_def)

section \<open>The incremental cycle\<close>

theorem incremental_store:
  assumes "Incremental s m w = ((sts, err), m', w')" and "ok w"
  shows "ok w'" and "evolves served (accounts w) (accounts w')"
    and "err \<noteq> None \<Longrightarrow> saved w' = saved w"
    and "saved w' = saved w \<or>
      err = None \<and> saved w' = rnd (stats_Checkpoint sts) \<and> may_advance s served (saved w) (stats_Checkpoint sts)"
proof -
  have "ok w' \<and> evolves served (accounts w) (accounts w') \<and> (err \<noteq> None \<longrightarrow> saved w' = saved w)
    \<and> (saved w' = saved w \<or>
      err = None \<and> saved w' = rnd (stats_Checkpoint sts) \<and> may_advance s served (saved w) (stats_Checkpoint sts))"
    using assms(1)
  proof (cases rule: Incremental_elim)
    case (unread started w1 e)
    have "ok w1" using now_frame [OF unread(1) assms(2)] by simp
    with checkpoint_frame [OF _ unread(2)] now_frame [OF unread(1) assms(2)]
    show ?thesis by (simp add: evolves_refl)
  next
    case (aborted started w1 cp w2 e x w3 fin)
    note w1 = now_frame [OF aborted(1) assms(2)]
    then have "ok w1" by simp
    note w2 = checkpoint_frame [OF this aborted(2)]
    then have "ok w2" by simp
    note w3 = walk_summary(1-3) [OF aborted(3) benign_None this]
    from now_frame [OF aborted(4) w3(1)] w1 w2 w3 aborted show ?thesis by simp
  next
    case (finished started w1 cp w2 mark x w3 fin w4 cp')
    note w1 = now_frame [OF finished(1) assms(2)]
    then have "ok w1" by simp
    note w2 = checkpoint_frame [OF this finished(2)]
    then have "ok w2" by simp
    note w3 = walk_summary [OF finished(3) benign_None this]
    note w4 = now_frame [OF finished(4) w3(1)]
    have cp: "saved w4 = cp" using checkpoint_read [OF \<open>ok w1\<close> finished(2)] w2 w3(2) w4 by simp
    have "ok w4" using w4 by simp
    note adv = advance_summary [OF finished(5) this cp w3(6) [OF refl]]
    have "saved w = cp" using cp w1 w2 w3(2) w4 by simp
    with adv w1 w2 w3(3) w4 finished(6) show ?thesis by auto
  qed
  then show "ok w'" and "evolves served (accounts w) (accounts w')"
    and "err \<noteq> None \<Longrightarrow> saved w' = saved w"
    and "saved w' = saved w \<or>
      err = None \<and> saved w' = rnd (stats_Checkpoint sts) \<and> may_advance s served (saved w) (stats_Checkpoint sts)"
    by blast+
qed

theorem incremental_accounting:
  assumes "Incremental s m w = ((sts, err), m', w')" and "ok w"
  shows "alert_growth m m'" and "err = None \<Longrightarrow> Scanned sts = outcomes sts"
proof -
  have "alert_growth m m' \<and> (err = None \<longrightarrow> Scanned sts = outcomes sts)"
    using assms(1)
  proof (cases rule: Incremental_elim)
    case (unread started w1 e)
    then show ?thesis by simp
  next
    case (aborted started w1 cp w2 e x w3 fin)
    have "ok w1" using now_frame [OF aborted(1) assms(2)] by simp
    then have "ok w2" using checkpoint_frame [OF _ aborted(2)] by simp
    from walk_summary(4) [OF aborted(3) benign_None this] aborted show ?thesis by simp
  next
    case (finished started w1 cp w2 mark x w3 fin w4 cp')
    have "ok w1" using now_frame [OF finished(1) assms(2)] by simp
    then have "ok w2" using checkpoint_frame [OF _ finished(2)] by simp
    note sum = walk_summary [OF finished(3) benign_None this]
    from sum(4) advance_alerts [OF finished(5)] have "alert_growth m m'" by (rule alert_growth_trans)
    with sum(5) [OF refl] finished(6) show ?thesis by (simp add: outcomes_def)
  qed
  then show "alert_growth m m'" and "err = None \<Longrightarrow> Scanned sts = outcomes sts" by blast+
qed

section \<open>The full cycle\<close>

theorem full_store:
  assumes "Full s m w = ((sts, d, err), m', w')" and "ok w"
  shows "ok w'" and "evolves served (accounts w) (accounts w')"
    and "err \<noteq> None \<Longrightarrow> saved w' = saved w"
    and "saved w' = saved w \<or>
      err = None \<and> saved w' = rnd (stats_Checkpoint sts) \<and> may_advance s served (saved w) (stats_Checkpoint sts)"
proof -
  have "ok w' \<and> evolves served (accounts w) (accounts w') \<and> (err \<noteq> None \<longrightarrow> saved w' = saved w)
    \<and> (saved w' = saved w \<or>
      err = None \<and> saved w' = rnd (stats_Checkpoint sts) \<and> may_advance s served (saved w) (stats_Checkpoint sts))"
    using assms(1)
  proof (cases rule: Full_elim)
    case (unread started w1 e)
    have "ok w1" using now_frame [OF unread(1) assms(2)] by simp
    with checkpoint_frame [OF _ unread(2)] now_frame [OF unread(1) assms(2)]
    show ?thesis by (simp add: evolves_refl)
  next
    case (aborted started w1 cp w2 e x w3 fin)
    note w1 = now_frame [OF aborted(1) assms(2)]
    then have "ok w1" by simp
    note w2 = checkpoint_frame [OF this aborted(2)]
    then have "ok w2" by simp
    note w3 = walk_summary(1-3) [OF aborted(3) benign_observe_drift this]
    from now_frame [OF aborted(4) w3(1)] w1 w2 w3 aborted show ?thesis by simp
  next
    case (unlisted started w1 cp w2 mark x w3 fin w4 e)
    note w1 = now_frame [OF unlisted(1) assms(2)]
    then have "ok w1" by simp
    note w2 = checkpoint_frame [OF this unlisted(2)]
    then have "ok w2" by simp
    note w3 = walk_summary(1-3) [OF unlisted(3) benign_observe_drift this]
    note w4 = now_frame [OF unlisted(4) w3(1)]
    then have "ok w4" by simp
    from enabled_frame [OF this unlisted(5)] w1 w2 w3 w4 unlisted show ?thesis by simp
  next
    case (finished started w1 cp w2 mark x w3 fin w4 local w5 m1 cp')
    note w1 = now_frame [OF finished(1) assms(2)]
    then have "ok w1" by simp
    note w2 = checkpoint_frame [OF this finished(2)]
    then have "ok w2" by simp
    note w3 = walk_summary [OF finished(3) benign_observe_drift this]
    note w4 = now_frame [OF finished(4) w3(1)]
    then have "ok w4" by simp
    note w5 = enabled_frame [OF this finished(5)]
    have cp: "saved w5 = cp" using checkpoint_read [OF \<open>ok w1\<close> finished(2)] w2 w3(2) w4 w5 by simp
    have "ok w5" using w5 by simp
    note adv = advance_summary [OF finished(8) this cp w3(6) [OF refl]]
    have "saved w = cp" using cp w1 w2 w3(2) w4 w5 by simp
    with adv w1 w2 w3(3) w4 w5 finished(9) show ?thesis by auto
  qed
  then show "ok w'" and "evolves served (accounts w) (accounts w')"
    and "err \<noteq> None \<Longrightarrow> saved w' = saved w"
    and "saved w' = saved w \<or>
      err = None \<and> saved w' = rnd (stats_Checkpoint sts) \<and> may_advance s served (saved w) (stats_Checkpoint sts)"
    by blast+
qed

theorem full_accounting:
  assumes "Full s m w = ((sts, d, None), m', w')" and "ok w"
  shows "Scanned sts = outcomes sts"
  using assms(1)
proof (cases rule: Full_elim)
  case (finished started w1 cp w2 mark x w3 fin w4 local w5 m1 cp')
  have "ok w1" using now_frame [OF finished(1) assms(2)] by simp
  then have "ok w2" using checkpoint_frame [OF _ finished(2)] by simp
  from walk_summary(5) [OF finished(3) benign_observe_drift this refl] finished(9) show ?thesis
    by (simp add: outcomes_def)
qed simp_all

text \<open>
  The drift report of a full walk that succeeded: the absent ones are exactly the accounts
  still enabled that no record handed over spoke about, and the walk has not touched them.
\<close>

theorem full_absent:
  assumes "Full s m w = ((sts, d, None), m', w')" and "ok w"
    and over: "walks_over rstep served s [] (Some observe_drift) m (cycle_start s w) us"
  shows "set (AbsentFromDirectory d) = {i. i \<notin> u_ID ` set us \<and> (\<exists>h. accounts w' i = Some h \<and> h_Enabled h)}"
    and "distinct (AbsentFromDirectory d)"
    and "i \<in> set (AbsentFromDirectory d) \<Longrightarrow> accounts w' i = accounts w i"
proof -
  from assms(1) obtain started w1 cp w2 mark x w3 fin w4 local w5 m1 cp' where
    run: "now s w = (started, w1)" "Checkpoint (st s) w1 = (Inr cp, w2)"
      "walkWith s [] (Some observe_drift) m w2 = ((Inr mark, x), w3)" "now s w3 = (fin, w4)"
      "EnabledHelppers (st s) w4 = (Inr local, w5)"
      "advance s cp mark m1 w5 = ((cp', None), m', w')"
    and d: "d = (wk_drift x)\<lparr>AbsentFromDirectory := absent_from (wk_seen x) local\<rparr>"
    by (cases rule: Full_elim) auto
  note w1 = now_frame [OF run(1) assms(2)]
  then have "ok w1" by simp
  note w2 = checkpoint_frame [OF this run(2)]
  then have "ok w2" by simp
  have "cycle_start s w = w2" by (simp add: cycle_start_def run(1,2))
  note walk = walks_over_finished(1) [OF run(3) over [unfolded this]]
  note w3 = walked_store [OF walk benign_observe_drift \<open>ok w2\<close>]
  note w4 = now_frame [OF run(4) w3(1)]
  then have "ok w4" by simp
  note w5 = enabled_frame [OF this run(5)] and list = enabled_list [OF this run(5)]
  then have "ok w5" by simp
  note w' = advance_store [OF run(6) this]
  have seen: "wk_seen x = u_ID ` set us" using walked_seen [OF walk] by (simp add: start_walk_def)
  have T: "accounts w' = accounts w3" using w4 w5 w' by simp
  show absent: "set (AbsentFromDirectory d) =
      {i. i \<notin> u_ID ` set us \<and> (\<exists>h. accounts w' i = Some h \<and> h_Enabled h)}"
  proof -
    have "h_DirectoryID h = j" if "accounts w' j = Some h" for j h
      using account_key [OF w'(1) that] by simp
    then show ?thesis
      using list w5 w'(2) by (force simp: d absent_from_def seen image_iff)
  qed
  show "distinct (AbsentFromDirectory d)"
    using list by (auto simp: d absent_from_def distinct_map intro: inj_on_subset)
  show "accounts w' i = accounts w i" if "i \<in> set (AbsentFromDirectory d)"
    using that w1 w2 w3(4) T unfolding absent by auto
qed

end

section \<open>The dry run\<close>

context quiet_reads begin

lemma dry_apply:
  assumes "dryRun s" and "apply_record s u r = (res, r')"
  shows "quiet (r_world r) (r_world r')"
  using assms
  by (auto simp: apply_record_def ensureHelpper_def syncState_def writeBack_def Let_def quiet_refl
      split: if_splits sum.splits prod.splits option.splits dest: quiet_lookup)

lemma dry_walked:
  assumes "walked rstep served (walk_callback s observe) (x, w) us e (x', w')" and "benign observe"
    and "dryRun s"
  shows "quiet w w'"
  using assms(1)
proof (induction "(x, w)" us e "(x', w')" arbitrary: x w rule: walked.induct)
  case (walked_stop e)
  show ?case by (rule quiet_refl)
next
  case (walked_fetch w w1 x us e)
  then show ?case by (blast intro: quiet_rstep quiet_trans)
next
  case (walked_visit u s1 us e)
  obtain x1 w1 where s1: "s1 = (x1, w1)" by fastforce
  from callback_run [OF walked_visit(2) [unfolded s1] assms(2)] obtain res where
    run: "apply_record s u (run_of x w) = (res, run_of x1 w1)" by blast
  from dry_apply [OF assms(3) run] walked_visit(4) [OF s1] show ?case
    by simp (rule quiet_trans)
next
  case (walked_abort u err)
  from callback_run [OF walked_abort(2) assms(2)] obtain res where
    run: "apply_record s u (run_of x w) = (res, run_of x' w')" by blast
  from dry_apply [OF assms(3) run] show ?case by simp
qed

lemma dry_walkWith:
  assumes "walkWith s filt observe m w = ((res, x), w')" and "benign observe" and "dryRun s"
  shows "quiet w w'"
  using assms(1)
proof (cases rule: walkWith_elim)
  case (failed e)
  with list_walks [OF failed(1)] dry_walked [OF _ assms(2,3)] show ?thesis by blast
next
  case completed
  with list_walks [OF completed(1)] dry_walked [OF _ assms(2,3)] show ?thesis by blast
qed

lemma dry_advance:
  "advance s current mark m w = ((cp, err), m', w') \<Longrightarrow> dryRun s \<Longrightarrow>
     quiet w w' \<and> cp = current \<and> err = None"
  by (erule advance_elim) (auto intro: quiet_refl quiet_now)

text \<open>A dry-run cycle, whatever its outcome, is a sequence of reads.\<close>

lemma quiet_start:
  "now s w0 = (started, w1) \<Longrightarrow> Checkpoint (st s) w1 = (rt, w2) \<Longrightarrow> quiet w2 w' \<Longrightarrow> quiet w0 w'"
  by (erule quiet_trans [OF quiet_now]) (erule quiet_trans [OF quiet_checkpoint])

lemma quiet_then_now: "quiet w w1 \<Longrightarrow> now s w1 = (t, w2) \<Longrightarrow> quiet w w2"
  by (erule quiet_trans) (rule quiet_now)

theorem dry_incremental:
  assumes "Incremental s m w = ((sts, err), m', w')" and "dryRun s"
  shows "quiet w w'"
  using assms(1)
proof (cases rule: Incremental_elim)
  case (unread started w1 e)
  show ?thesis by (rule quiet_start [OF unread(1,2) quiet_refl])
next
  case (aborted started w1 cp w2 e x w3 fin)
  show ?thesis
    by (rule quiet_start [OF aborted(1,2) quiet_then_now [OF dry_walkWith aborted(4)]])
      (fact aborted benign_None assms)+
next
  case (finished started w1 cp w2 mark x w3 fin w4 cp')
  have "quiet w4 w'" using dry_advance [OF finished(5) assms(2)] by simp
  moreover have "quiet w2 w4"
    by (rule quiet_then_now [OF dry_walkWith finished(4)]) (fact finished benign_None assms)+
  ultimately have "quiet w2 w'" by (rule quiet_trans [rotated])
  then show ?thesis by (rule quiet_start [OF finished(1,2)])
qed

theorem dry_full:
  assumes "Full s m w = ((sts, d, err), m', w')" and "dryRun s"
  shows "quiet w w'"
  using assms(1)
proof (cases rule: Full_elim)
  case (unread started w1 e)
  show ?thesis by (rule quiet_start [OF unread(1,2) quiet_refl])
next
  case (aborted started w1 cp w2 e x w3 fin)
  show ?thesis
    by (rule quiet_start [OF aborted(1,2) quiet_then_now [OF dry_walkWith aborted(4)]])
      (fact aborted benign_observe_drift assms)+
next
  case (unlisted started w1 cp w2 mark x w3 fin w4 e)
  have "quiet w2 w4"
    by (rule quiet_then_now [OF dry_walkWith unlisted(4)]) (fact unlisted benign_observe_drift assms)+
  then have "quiet w2 w'" by (rule quiet_trans) (rule quiet_enabled [OF unlisted(5)])
  then show ?thesis by (rule quiet_start [OF unlisted(1,2)])
next
  case (finished started w1 cp w2 mark x w3 fin w4 local w5 m1 cp')
  have "quiet w2 w4"
    by (rule quiet_then_now [OF dry_walkWith finished(4)]) (fact finished benign_observe_drift assms)+
  then have "quiet w2 w5" by (rule quiet_trans) (rule quiet_enabled [OF finished(5)])
  moreover have "quiet w5 w'" using dry_advance [OF finished(8) assms(2)] by simp
  ultimately have "quiet w2 w'" by (rule quiet_trans)
  then show ?thesis by (rule quiet_start [OF finished(1,2)])
qed

end

end
