(* ===== verification/Client_Contract.thy ===== *)
theory Client_Contract
  imports Client_Steps Reconciler_Results
begin

text \<open>
  The client as the reconciler's directory. The reconciler's world is the client's beside
  the store's, and \<open>client_dir_contract\<close> discharges the contract of \<open>Reconciler_Spec\<close> for
  the client of any transport: it touches its own half only, the records it passes on are
  records of a page some response carried, and it stops at the callback's first error.
\<close>

definition client_dir :: "'n client \<Rightarrow> ('n net \<times> 's) dir_ops" where
  "client_dir c =
     \<lparr>ListUsers = client_ListUsers c,
      PatchExternalID = (\<lambda>ident x w.
        case client_PatchExternalID c ident x (fst w) of (r, n) \<Rightarrow> (r, (n, snd w)))\<rparr>"

text \<open>A step of the client whose requests satisfy \<open>P\<close>; the store's half stays.\<close>

definition net_step :: "'n client \<Rightarrow> (request \<Rightarrow> bool) \<Rightarrow> 'n net \<times> 's \<Rightarrow> 'n net \<times> 's \<Rightarrow> bool" where
  "net_step c P w w' = (env_steps c P (env (fst w)) (env (fst w')) \<and> snd w' = snd w)"

definition page_served :: "'n client \<Rightarrow> user \<Rightarrow> bool" where
  "page_served c u =
     (\<exists>filt i n w lr w' raw. Page c filt i n w = (Inr lr, w') \<and> raw \<in> set (lr_Resources lr)
        \<and> dec_user raw zero_user = Some u)"

section \<open>What a walk hands to its callback\<close>

text \<open>
  The exact account of a walk. One page: its records are decoded and handed to the callback in
  the order of the page, up to the first the callback refuses, whose error is the result as it
  is, or the first that does not decode.
\<close>

inductive visits :: "(user \<Rightarrow> 'x \<times> 'w \<Rightarrow> goerror option \<times> 'x \<times> 'w) \<Rightarrow> json list \<Rightarrow> 'x \<times> 'w \<Rightarrow>
    user list \<Rightarrow> goerror option \<Rightarrow> 'x \<times> 'w \<Rightarrow> bool" for fn where
  visits_all: "visits fn [] s [] None s"
| visits_next: "dec_user raw zero_user = Some u \<Longrightarrow> fn u s = (None, s1) \<Longrightarrow> visits fn raws s1 us e s2 \<Longrightarrow>
    visits fn (raw # raws) s (u # us) e s2"
| visits_refused: "dec_user raw zero_user = Some u \<Longrightarrow> fn u s = (Some err, s1) \<Longrightarrow>
    visits fn (raw # raws) s [u] (Some err) s1"
| visits_garbled: "dec_user raw zero_user = None \<Longrightarrow> visits fn (raw # raws) s [] (Some err) s"

text \<open>
  The pages: the next index is the last one plus the records of its page, and the walk ends with
  a page that cannot be read, is empty, was not visited to its end, repeats the first id of the
  page before, exhausts the limit on pages, or is the last: short, or reaching the total.
\<close>

definition page_limit :: "int \<Rightarrow> int \<Rightarrow> list_response \<Rightarrow> int" where
  "page_limit psize limit lr =
     (if limit = 0 \<and> 0 < lr_TotalResults lr then wrap64 (lr_TotalResults lr div psize + 8) else limit)"

definition page_refused :: "int \<Rightarrow> int \<Rightarrow> int \<Rightarrow> string \<Rightarrow> list_response \<Rightarrow> string \<Rightarrow> bool" where
  "page_refused psize pages limit prev lr first \<longleftrightarrow>
     first \<noteq> [] \<and> first = prev \<or> 0 < page_limit psize limit lr \<and> page_limit psize limit lr \<le> pages + 1"

definition last_page :: "int \<Rightarrow> int \<Rightarrow> list_response \<Rightarrow> bool" where
  "last_page psize i lr \<longleftrightarrow>
     int (length (lr_Resources lr)) < psize \<or> lr_TotalResults lr < i + int (length (lr_Resources lr))"

inductive paged :: "'n client \<Rightarrow> string \<Rightarrow> int \<Rightarrow>
    (user \<Rightarrow> 'x \<times> 'n net \<times> 's \<Rightarrow> goerror option \<times> 'x \<times> 'n net \<times> 's) \<Rightarrow>
    int \<Rightarrow> int \<Rightarrow> int \<Rightarrow> string \<Rightarrow> 'x \<times> 'n net \<times> 's \<Rightarrow> user list \<Rightarrow> goerror option \<Rightarrow> 'x \<times> 'n net \<times> 's \<Rightarrow> bool"
  for c filt psize fn where
  page_failed: "at_net (Page c filt i psize) s = (Inl err, s1) \<Longrightarrow>
    paged c filt psize fn i pages limit prev s [] (Some err) s1"
| page_empty: "at_net (Page c filt i psize) s = (Inr lr, s1) \<Longrightarrow> lr_Resources lr = [] \<Longrightarrow>
    paged c filt psize fn i pages limit prev s [] None s1"
| page_aborted: "at_net (Page c filt i psize) s = (Inr lr, s1) \<Longrightarrow> visits fn (lr_Resources lr) s1 us (Some err) s2 \<Longrightarrow>
    paged c filt psize fn i pages limit prev s us (Some err) s2"
| page_guarded: "at_net (Page c filt i psize) s = (Inr lr, s1) \<Longrightarrow> lr_Resources lr \<noteq> [] \<Longrightarrow>
    visits fn (lr_Resources lr) s1 us None s2 \<Longrightarrow> page_refused psize pages limit prev lr (u_ID (hd us)) \<Longrightarrow>
    paged c filt psize fn i pages limit prev s us (Some err) s2"
| page_last: "at_net (Page c filt i psize) s = (Inr lr, s1) \<Longrightarrow> lr_Resources lr \<noteq> [] \<Longrightarrow>
    visits fn (lr_Resources lr) s1 us None s2 \<Longrightarrow> \<not> page_refused psize pages limit prev lr (u_ID (hd us)) \<Longrightarrow>
    last_page psize i lr \<Longrightarrow> paged c filt psize fn i pages limit prev s us None s2"
| page_more: "at_net (Page c filt i psize) s = (Inr lr, s1) \<Longrightarrow> lr_Resources lr \<noteq> [] \<Longrightarrow>
    visits fn (lr_Resources lr) s1 us None s2 \<Longrightarrow> \<not> page_refused psize pages limit prev lr (u_ID (hd us)) \<Longrightarrow>
    \<not> last_page psize i lr \<Longrightarrow>
    paged c filt psize fn (i + int (length (lr_Resources lr))) (pages + 1) (page_limit psize limit lr)
      (u_ID (hd us)) s2 us' e s3 \<Longrightarrow>
    paged c filt psize fn i pages limit prev s (us @ us') e s3"

text \<open>
  The records handed over, computed: the walk with a callback that also notes what it is given.
\<close>

definition noting :: "(user \<Rightarrow> 'x \<times> 'w \<Rightarrow> goerror option \<times> 'x \<times> 'w) \<Rightarrow>
    user \<Rightarrow> ('x \<times> user list) \<times> 'w \<Rightarrow> goerror option \<times> ('x \<times> user list) \<times> 'w" where
  "noting fn u s = (case fn u (fst (fst s), snd s) of (e, x, w) \<Rightarrow> (e, (x, snd (fst s) @ [u]), w))"

definition handed :: "'n client \<Rightarrow> string \<Rightarrow> int \<Rightarrow>
    (user \<Rightarrow> 'x \<times> 'n net \<times> 's \<Rightarrow> goerror option \<times> 'x \<times> 'n net \<times> 's) \<Rightarrow> 'x \<times> 'n net \<times> 's \<Rightarrow> user list" where
  "handed c filt psize fn s = snd (fst (snd (client_ListUsers c filt psize (noting fn) ((fst s, []), snd s))))"

abbreviation noted :: "user list \<Rightarrow> 'x \<times> 'w \<Rightarrow> ('x \<times> user list) \<times> 'w" where
  "noted us s \<equiv> ((fst s, us), snd s)"

lemma noting_noted: "fn u s = (e, s1) \<Longrightarrow> noting fn u (noted seen s) = (e, noted (seen @ [u]) s1)"
  by (cases s1) (simp add: noting_def)

lemma visit_records_visits:
  assumes "visit_records fn i k first raws s = (res, s1)"
  shows "\<exists>us. visits fn raws s us (case res of Inl e \<Rightarrow> Some e | Inr _ \<Rightarrow> None) s1
    \<and> visit_records (noting fn) i k first raws (noted seen s) = (res, noted (seen @ us) s1)
    \<and> (\<forall>f. res = Inr f \<longrightarrow> f = (if k = 0 \<and> raws \<noteq> [] then u_ID (hd us) else first))"
  using assms
proof (induction raws arbitrary: k first s seen)
  case Nil
  then show ?case by (auto intro: visits_all)
next
  case (Cons raw raws)
  show ?case
  proof (cases "dec_user raw zero_user")
    case None
    with Cons.prems show ?thesis by (auto simp: unmarshal_def intro: visits_garbled)
  next
    case (Some u)
    obtain r sm where r: "fn u s = (r, sm)" by (cases "fn u s")
    note note_u = noting_noted [where seen = seen and fn = fn, OF r]
    show ?thesis
    proof (cases r)
      case None
      with r have fn: "fn u s = (None, sm)" by simp
      from Cons.prems have "visit_records fn i (Suc k) (if k = 0 then u_ID u else first) raws sm = (res, s1)"
        by (simp add: unmarshal_def Some fn)
      from Cons.IH [OF this, of "seen @ [u]"] obtain us where
        us: "visits fn raws sm us (case res of Inl e \<Rightarrow> Some e | Inr _ \<Rightarrow> None) s1"
          "visit_records (noting fn) i (Suc k) (if k = 0 then u_ID u else first) raws (noted (seen @ [u]) sm)
             = (res, noted (seen @ u # us) s1)"
          "\<forall>f. res = Inr f \<longrightarrow> f = (if k = 0 then u_ID u else first)" by auto
      show ?thesis
        using visits_next [OF Some fn us(1)] us(2,3) note_u
        by (intro exI [of _ "u # us"], cases "k = 0") (simp_all add: unmarshal_def Some None)
    next
      case e: (Some e)
      with r have fn: "fn u s = (Some e, sm)" by simp
      with Cons.prems have "res = Inl e" "s1 = sm" by (simp_all add: unmarshal_def Some)
      with visits_refused [where fn = fn and s = s, OF Some fn] note_u e show ?thesis
        by (intro exI [of _ "[u]"]) (simp add: unmarshal_def Some)
    qed
  qed
qed

text \<open>The ways a round of the pager ends.\<close>

lemma list_from_cases [consumes 1, case_names failed empty aborted stopped more]:
  assumes "list_from c filt psize fn i pages maxPages prev scanned s = (e, s')"
  obtains err where "at_net (Page c filt i psize) s = (Inl err, s')" "e = Some err"
  | lr where "at_net (Page c filt i psize) s = (Inr lr, s')" "lr_Resources lr = []" "e = None"
  | lr s1 err where "at_net (Page c filt i psize) s = (Inr lr, s1)" "lr_Resources lr \<noteq> []"
      "visit_records fn i 0 [] (lr_Resources lr) s1 = (Inl err, s')" "e = Some err"
  | lr s1 first where "at_net (Page c filt i psize) s = (Inr lr, s1)" "lr_Resources lr \<noteq> []"
      "visit_records fn i 0 [] (lr_Resources lr) s1 = (Inr first, s')"
      "e = None \<Longrightarrow> int (length (lr_Resources lr)) < psize
         \<or> lr_TotalResults lr < i + int (length (lr_Resources lr))"
      "e \<noteq> None \<Longrightarrow> first \<noteq> [] \<and> first = prev \<or>
         (let m = (if maxPages = 0 \<and> 0 < lr_TotalResults lr
                   then wrap64 (lr_TotalResults lr div psize + 8) else maxPages)
          in 0 < m \<and> m \<le> pages + 1)"
  | lr s1 first s2 where "at_net (Page c filt i psize) s = (Inr lr, s1)" "lr_Resources lr \<noteq> []"
      "visit_records fn i 0 [] (lr_Resources lr) s1 = (Inr first, s2)"
      "\<not> (first \<noteq> [] \<and> first = prev)"
      "psize \<le> int (length (lr_Resources lr))"
      "i + int (length (lr_Resources lr)) \<le> lr_TotalResults lr"
      "\<not> (let m = (if maxPages = 0 \<and> 0 < lr_TotalResults lr
                   then wrap64 (lr_TotalResults lr div psize + 8) else maxPages)
          in 0 < m \<and> m \<le> pages + 1)"
      "list_from c filt psize fn (i + int (length (lr_Resources lr))) (pages + 1)
         (if maxPages = 0 \<and> 0 < lr_TotalResults lr
          then wrap64 (lr_TotalResults lr div psize + 8) else maxPages) first
         (scanned + int (length (lr_Resources lr))) s2 = (e, s')"
proof -
  obtain res s1 where page: "at_net (Page c filt i psize) s = (res, s1)"
    by (cases "at_net (Page c filt i psize) s")
  note unfold = assms [unfolded list_from.simps [of c filt psize fn i pages maxPages prev scanned s] page]
  show ?thesis
  proof (cases res)
    case (Inl err)
    with unfold page that(1) show ?thesis by simp
  next
    case (Inr lr)
    note page = page [unfolded Inr]
    show ?thesis
    proof (cases "lr_Resources lr = []")
      case True
      with unfold page Inr that(2) show ?thesis by simp
    next
      case False
      obtain out s2 where out: "visit_records fn i 0 [] (lr_Resources lr) s1 = (out, s2)"
        by (cases "visit_records fn i 0 [] (lr_Resources lr) s1")
      show ?thesis
      proof (cases out)
        case (Inl err)
        with unfold page \<open>res = Inr lr\<close> False out that(3) show ?thesis by (simp add: Let_def)
      next
        case (Inr first)
        define m where "m = (if maxPages = 0 \<and> 0 < lr_TotalResults lr
                   then wrap64 (lr_TotalResults lr div psize + 8) else maxPages)"
        note out = out [unfolded Inr]
        note stop = that(4) [OF page False _ _ _, folded m_def, unfolded Let_def]
          and more = that(5) [OF page False out, folded m_def, unfolded Let_def]
        have body: "(if first \<noteq> [] \<and> first = prev then (e, s') = (e, s2) \<and> e \<noteq> None
            else if 0 < m \<and> m \<le> pages + 1 then (e, s') = (e, s2) \<and> e \<noteq> None
            else if int (length (lr_Resources lr)) < psize \<or> lr_TotalResults lr < i + int (length (lr_Resources lr))
              then (None, s2) = (e, s')
            else list_from c filt psize fn (i + int (length (lr_Resources lr))) (pages + 1) m first
              (scanned + int (length (lr_Resources lr))) s2 = (e, s'))"
          using unfold by (auto simp: \<open>res = Inr lr\<close> False out Let_def m_def split: if_splits)
        show ?thesis
        proof (cases "first \<noteq> [] \<and> first = prev \<or> 0 < m \<and> m \<le> pages + 1")
          case True
          with body have "s' = s2" "e \<noteq> None" by (auto split: if_splits)
          with True stop [of first] out show ?thesis by simp
        next
          case False
          note go = False
          show ?thesis
          proof (cases "int (length (lr_Resources lr)) < psize \<or> lr_TotalResults lr < i + int (length (lr_Resources lr))")
            case True
            with body go have "s' = s2" "e = None" by (auto split: if_splits)
            with True stop [of first] out show ?thesis by simp
          next
            case False
            with body go have "list_from c filt psize fn (i + int (length (lr_Resources lr))) (pages + 1) m first
              (scanned + int (length (lr_Resources lr))) s2 = (e, s')" by (auto split: if_splits)
            with False go more show ?thesis by auto
          qed
        qed
      qed
    qed
  qed
qed

lemma at_net_iff: "at_net f s = (a, s') \<longleftrightarrow>
    f (fst (snd s)) = (a, fst (snd s')) \<and> fst s' = fst s \<and> snd (snd s') = snd (snd s)"
  by (cases s; cases s') (auto simp: at_net_def split: prod.splits)

lemma at_net_noted: "at_net f s = (a, s1) \<Longrightarrow> at_net f (noted seen s) = (a, noted seen s1)"
  by (simp add: at_net_iff)

lemma list_from_paged:
  "list_from c filt psize fn i pages limit prev scanned s = (e, s') \<Longrightarrow>
     \<exists>us. paged c filt psize fn i pages limit prev s us e s'
       \<and> list_from c filt psize (noting fn) i pages limit prev scanned (noted seen s) = (e, noted (seen @ us) s')"
proof (induction c filt psize fn i pages limit prev scanned s arbitrary: seen rule: list_from.induct)
  case (1 c filt psize fn i pages limit prev scanned s)
  obtain res s1 where page: "at_net (Page c filt i psize) s = (res, s1)"
    by (cases "at_net (Page c filt i psize) s")
  note run = 1(2) [unfolded list_from.simps [of c filt psize fn i pages limit prev scanned s] page]
    and noted_run = list_from.simps [of c filt psize "noting fn" i pages limit prev scanned "noted seen s",
      unfolded at_net_noted [OF page]]
  show ?case
  proof (cases res)
    case (Inl err)
    with run noted_run page show ?thesis by (auto intro: page_failed)
  next
    case (Inr lr)
    note page = page [unfolded Inr]
    show ?thesis
    proof (cases "lr_Resources lr = []")
      case True
      with run noted_run page Inr show ?thesis by (auto intro: page_empty)
    next
      case False
      obtain out s2 where out: "visit_records fn i 0 [] (lr_Resources lr) s1 = (out, s2)"
        by (cases "visit_records fn i 0 [] (lr_Resources lr) s1")
      from visit_records_visits [OF this, of seen] False obtain us where
        us: "visits fn (lr_Resources lr) s1 us (case out of Inl e \<Rightarrow> Some e | Inr _ \<Rightarrow> None) s2"
          "visit_records (noting fn) i 0 [] (lr_Resources lr) (noted seen s1) = (out, noted (seen @ us) s2)"
          "\<forall>f. out = Inr f \<longrightarrow> f = u_ID (hd us)" by auto
      show ?thesis
      proof (cases out)
        case (Inl err)
        with run noted_run Inr False out us(2) have "e = Some err" "s' = s2"
          "list_from c filt psize (noting fn) i pages limit prev scanned (noted seen s) = (e, noted (seen @ us) s')"
          by (simp_all add: Let_def)
        with page_aborted [OF page us(1) [unfolded Inl, simplified]] show ?thesis by blast
      next
        case first: (Inr first)
        have visit: "visits fn (lr_Resources lr) s1 us None s2" and hd: "u_ID (hd us) = first"
          using us(1,3) first by auto
        note eqs = Inr out first us(2) False Let_def page_refused_def page_limit_def last_page_def
        consider (guarded) "page_refused psize pages limit prev lr first"
          | (last) "\<not> page_refused psize pages limit prev lr first" "last_page psize i lr"
          | (more) "\<not> page_refused psize pages limit prev lr first" "\<not> last_page psize i lr" by blast
        then show ?thesis
        proof cases
          case guarded
          with run have "e \<noteq> None" "s' = s2" by (auto simp: eqs split: if_splits)
          moreover have "list_from c filt psize (noting fn) i pages limit prev scanned (noted seen s) = (e, noted (seen @ us) s')"
            using run guarded unfolding noted_run by (auto simp: eqs split: if_splits)
          ultimately show ?thesis using page_guarded [OF page False visit] guarded by (auto simp: hd)
        next
          case last
          then have "e = None" "s' = s2"
            "list_from c filt psize (noting fn) i pages limit prev scanned (noted seen s) = (e, noted (seen @ us) s')"
            using run noted_run by (auto simp: eqs)
          with page_last [OF page False visit] last show ?thesis by (auto simp: hd)
        next
          case more
          let ?n = "int (length (lr_Resources lr))"
          have rest: "list_from c filt psize fn (i + ?n) (pages + 1) (page_limit psize limit lr) first (scanned + ?n) s2 = (e, s')"
            using run more by (auto simp: eqs)
          have "\<exists>us'. paged c filt psize fn (i + ?n) (pages + 1) (page_limit psize limit lr) first s2 us' e s'
            \<and> list_from c filt psize (noting fn) (i + ?n) (pages + 1) (page_limit psize limit lr) first (scanned + ?n)
                (noted (seen @ us) s2) = (e, noted ((seen @ us) @ us') s')"
            unfolding page_limit_def
            by (rule 1(1) [OF page [symmetric] refl False refl refl out [unfolded first, symmetric] refl refl refl])
              (use more rest in \<open>auto simp: page_refused_def page_limit_def last_page_def\<close>)
          then obtain us' where us': "paged c filt psize fn (i + ?n) (pages + 1) (page_limit psize limit lr) first s2 us' e s'"
            "list_from c filt psize (noting fn) (i + ?n) (pages + 1) (page_limit psize limit lr) first (scanned + ?n)
                (noted (seen @ us) s2) = (e, noted (seen @ us @ us') s')" by auto
          have "list_from c filt psize (noting fn) i pages limit prev scanned (noted seen s) = (e, noted (seen @ us @ us') s')"
            using noted_run more us'(2) by (auto simp: eqs)
          with page_more [OF page False visit _ more(2) us'(1) [folded hd]] more(1) show ?thesis by (auto simp: hd)
        qed
      qed
    qed
  qed
qed

lemma at_net_fetch:
  assumes "at_net (Page c filt i psize) s = (a, s1)" and "walked (net_step c is_get) served fn s1 us e s2"
  shows "walked (net_step c is_get) served fn s us e s2"
proof -
  obtain x w r where s: "s = (x, w, r)" by (cases s) auto
  from assms(1) obtain w1 where s1: "s1 = (x, w1, r)" and "env_steps c is_get (env w) (env w1)"
    by (auto dest: Page_steps simp: at_net_def s split: prod.splits)
  show ?thesis unfolding s
    by (rule walked_fetch [where ?w1.0 = "(w1, r)"]) (use assms(2) \<open>env_steps c is_get (env w) (env w1)\<close> in \<open>simp_all add: net_step_def s1\<close>)
qed

lemma page_records: "at_net (Page c filt i psize) s = (Inr lr, s1) \<Longrightarrow>
    \<forall>raw \<in> set (lr_Resources lr). \<forall>u. dec_user raw zero_user = Some u \<longrightarrow> page_served c u"
  unfolding page_served_def at_net_iff by blast

lemma visits_walked:
  "visits fn raws s us e s1 \<Longrightarrow> \<forall>raw \<in> set raws. \<forall>u. dec_user raw zero_user = Some u \<longrightarrow> served u \<Longrightarrow>
     walked rstep served fn s us e s1"
  by (induction rule: visits.induct) (simp_all add: walked.intros)

lemma visits_then_walked:
  "visits fn raws s us e s1 \<Longrightarrow> e = None \<Longrightarrow> \<forall>raw \<in> set raws. \<forall>u. dec_user raw zero_user = Some u \<longrightarrow> served u \<Longrightarrow>
     walked rstep served fn s1 us' e' s2 \<Longrightarrow> walked rstep served fn s (us @ us') e' s2"
  by (induction rule: visits.induct) (simp_all add: walked.intros)

lemma paged_walked:
  "paged c filt psize fn i pages limit prev s us e s' \<Longrightarrow>
     walked (net_step c is_get) (page_served c) fn s us e s'"
proof (induction rule: paged.induct)
  case (page_failed i s err s1)
  from at_net_fetch [OF page_failed walked_stop] show ?case .
next
  case (page_empty i s lr s1)
  from at_net_fetch [OF page_empty(1) walked_stop] show ?case .
next
  case (page_aborted i s lr s1 us err s2)
  from at_net_fetch [OF page_aborted(1) visits_walked [OF page_aborted(2) page_records [OF page_aborted(1)]]] show ?case .
next
  case (page_guarded i s lr s1 us s2)
  from at_net_fetch [OF page_guarded(1) visits_then_walked [OF page_guarded(3) refl page_records [OF page_guarded(1)] walked_stop]]
  show ?case by simp
next
  case (page_last i s lr s1 us s2)
  from at_net_fetch [OF page_last(1) visits_walked [OF page_last(3) page_records [OF page_last(1)]]] show ?case .
next
  case (page_more i s lr s1 us s2)
  from at_net_fetch [OF page_more(1) visits_then_walked [OF page_more(3) refl page_records [OF page_more(1)] page_more.IH]]
  show ?case .
qed

lemma list_from_handed:
  assumes "client_ListUsers c filt psize fn s = (e, s')"
  shows "paged c filt (if psize \<le> 0 then client_DefaultPageSize else psize) fn 1 0 0 [] s (handed c filt psize fn s) e s'"
    and "walked (net_step c is_get) (page_served c) fn s (handed c filt psize fn s) e s'"
proof -
  from list_from_paged [OF assms [unfolded client_ListUsers_def], of "[]"] obtain us where
    us: "paged c filt (if psize \<le> 0 then client_DefaultPageSize else psize) fn 1 0 0 [] s us e s'"
    "client_ListUsers c filt psize (noting fn) (noted [] s) = (e, noted us s')"
    by (auto simp: client_ListUsers_def)
  have "handed c filt psize fn s = us" by (simp add: handed_def us(2))
  with us(1) paged_walked [OF us(1)]
  show "paged c filt (if psize \<le> 0 then client_DefaultPageSize else psize) fn 1 0 0 [] s (handed c filt psize fn s) e s'"
    and "walked (net_step c is_get) (page_served c) fn s (handed c filt psize fn s) e s'" by simp_all
qed

theorem client_dir_contract:
  "directory_contract (client_dir c) (net_step c is_get) (net_step c (is_write_back c)) (page_served c)"
proof (unfold_locales, goal_cases)
  case (1 f n fn s e s')
  then show ?case using list_from_handed(2) by (fastforce simp: client_dir_def)
next
  case (2 i x w r w')
  then show ?case by (auto simp: client_dir_def net_step_def split: prod.splits dest: PatchExternalID_steps)
qed

interpretation net: directory_contract "client_dir c" "net_step c is_get" "net_step c (is_write_back c)" "page_served c"
  for c
  by (rule client_dir_contract)

section \<open>The worker\<close>

text \<open>
  The process the source's \<open>main\<close> puts together: a client, a store and the machine's clock
  behind one reconciler. The clock is the transport's.
\<close>

definition worker_now :: "'n transport \<Rightarrow> 'n net \<times> 's \<Rightarrow> time \<times> ('n net \<times> 's)" where
  "worker_now t w = (case in_env (t_Now t) (fst w) of (tm, n) \<Rightarrow> (tm, (n, snd w)))"

definition worker :: "'n client \<Rightarrow> 's store_ops \<Rightarrow> options \<Rightarrow> ('n net \<times> 's) syncer" where
  "worker c store opts = syncer_New (client_dir c) (beside store) (worker_now (cl_t c)) opts"

lemma worker_simps [simp]:
  "dir (worker c store opts) = client_dir c"
  "st (worker c store opts) = beside store"
  "now (worker c store opts) = worker_now (cl_t c)"
  "dryRun (worker c store opts) = o_DryRun opts"
  by (simp_all add: worker_def syncer_New_def)

lemma worker_now_iff: "worker_now t w = (tm, w') \<Longrightarrow> snd w' = snd w"
  by (auto simp: worker_now_def split: prod.splits)

text \<open>Whatever the store, if it keeps the contract the worker's reconciler has all it relies on.\<close>

theorem worker_reconciler:
  assumes "store_contract store ok accounts saved rnd"
  shows "reconciler (worker c store opts) (\<lambda>w. ok (snd w)) (\<lambda>w. accounts (snd w)) (\<lambda>w. saved (snd w))
     rnd (net_step c is_get) (net_step c (is_write_back c)) (page_served c)"
proof (intro reconciler.intro reconciler_axioms.intro)
  show "store_contract (st (worker c store opts)) (\<lambda>w. ok (snd w)) (\<lambda>w. accounts (snd w)) (\<lambda>w. saved (snd w)) rnd"
    using store_contract_beside [OF assms] by simp
  show "directory_contract (dir (worker c store opts)) (net_step c is_get) (net_step c (is_write_back c)) (page_served c)"
    using client_dir_contract by simp
qed (auto simp: net_step_def dest: worker_now_iff)

text \<open>
  The records a cycle's walk hands to its callback, and that they are all the walk had to hand
  over: every page up to the last was fetched, and every record of every page.
\<close>

definition full_handed :: "'n client \<Rightarrow> 's store_ops \<Rightarrow> options \<Rightarrow> alert_state \<Rightarrow> 'n net \<times> 's \<Rightarrow> user list" where
  "full_handed c store opts m w =
     (let s = worker c store opts in
      handed c [] (pageSize s) (walk_callback s (Some observe_drift)) (start_walk m, cycle_start s w))"

definition incremental_handed :: "'n client \<Rightarrow> 's store_ops \<Rightarrow> options \<Rightarrow> alert_state \<Rightarrow> 'n net \<times> 's \<Rightarrow> user list" where
  "incremental_handed c store opts m w =
     (let s = worker c store opts in
      handed c (cycle_filter s w) (pageSize s) (walk_callback s None) (start_walk m, cycle_start s w))"

definition walk_complete :: "'n client \<Rightarrow> ('n net \<times> 's) syncer \<Rightarrow> string \<Rightarrow> observer option \<Rightarrow> alert_state \<Rightarrow>
    'n net \<times> 's \<Rightarrow> user list \<Rightarrow> bool" where
  "walk_complete c s filt observe m w us \<longleftrightarrow>
     (\<exists>s'. paged c filt (pageSize s) (walk_callback s observe) 1 0 0 [] (start_walk m, w) us None s')"

lemma worker_pageSize: "0 < pageSize (worker c store opts)"
  by (simp add: worker_def syncer_New_def DefaultPageSize_def)

lemma handed_walks_over:
  "walks_over (net_step c is_get) (page_served c) (worker c store opts) filt observe m w
     (handed c filt (pageSize (worker c store opts)) (walk_callback (worker c store opts) observe) (start_walk m, w))"
  using list_from_handed(2) by (fastforce simp: walks_over_def client_dir_def)

lemma full_walks_over:
  "walks_over (net_step c is_get) (page_served c) (worker c store opts) [] (Some observe_drift) m
     (cycle_start (worker c store opts) w) (full_handed c store opts m w)"
  unfolding full_handed_def Let_def by (rule handed_walks_over)

lemma incremental_walks_over:
  "walks_over (net_step c is_get) (page_served c) (worker c store opts) (cycle_filter (worker c store opts) w) None m
     (cycle_start (worker c store opts) w) (incremental_handed c store opts m w)"
  unfolding incremental_handed_def Let_def by (rule handed_walks_over)

lemma finished_walk_complete:
  assumes "walkWith (worker c store opts) filt observe m w = ((Inr mark, x), w')"
  shows "walk_complete c (worker c store opts) filt observe m w
    (handed c filt (pageSize (worker c store opts)) (walk_callback (worker c store opts) observe) (start_walk m, w))"
  using assms
proof (cases rule: walkWith_elim)
  case completed
  have "\<not> pageSize (worker c store opts) \<le> 0" using worker_pageSize [of c store opts] by linarith
  with list_from_handed(1) [OF completed(1) [simplified client_dir_def dir_ops.simps worker_simps(1)]]
  show ?thesis unfolding walk_complete_def by (simp only: if_False) blast
qed simp

lemma full_walk_complete:
  "Full (worker c store opts) m w = ((sts, d, None), m', w') \<Longrightarrow>
     walk_complete c (worker c store opts) [] (Some observe_drift) m (cycle_start (worker c store opts) w)
       (full_handed c store opts m w)"
  by (erule Full_elim)
    (auto simp del: worker_simps simp: full_handed_def Let_def cycle_start_def intro: finished_walk_complete)

lemma incremental_walk_complete:
  "Incremental (worker c store opts) m w = ((sts, None), m', w') \<Longrightarrow>
     walk_complete c (worker c store opts) (cycle_filter (worker c store opts) w) None m
       (cycle_start (worker c store opts) w) (incremental_handed c store opts m w)"
  by (erule Incremental_elim)
    (auto simp del: worker_simps simp: incremental_handed_def Let_def cycle_start_def cycle_filter_def intro: finished_walk_complete)

text \<open>
  A dry run reads only: GET requests, and calls of a store whose reads leave it as it was.
\<close>

definition reads_silently :: "'s store_ops \<Rightarrow> bool" where
  "reads_silently store =
     ((\<forall>d s r s'. HelpperByDirectoryID store d s = (r, s') \<longrightarrow> s' = s)
      \<and> (\<forall>s r s'. EnabledHelppers store s = (r, s') \<longrightarrow> s' = s)
      \<and> (\<forall>s r s'. Checkpoint store s = (r, s') \<longrightarrow> s' = s))"

lemma worker_now_steps: "worker_now (cl_t c) w = (tm, w') \<Longrightarrow> net_step c P w w'"
  by (auto simp: worker_now_def net_step_def in_env_iff intro: env_one split: prod.splits)

theorem worker_quiet:
  assumes "reads_silently store"
  shows "quiet_reads (worker c store opts) (net_step c is_get) (net_step c (is_write_back c)) (page_served c)
    (net_step c is_get)"
proof (intro quiet_reads.intro quiet_reads_axioms.intro)
  show "directory_contract (dir (worker c store opts)) (net_step c is_get) (net_step c (is_write_back c)) (page_served c)"
    using client_dir_contract by simp
qed (use assms in \<open>auto simp: net_step_def reads_silently_def beside_def on_snd_iff intro: env_done env_steps_trans
      dest: worker_now_steps [where P = is_get, unfolded net_step_def]\<close>)

end
