(* ===== verification/Client_Results.thy ===== *)
theory Client_Results
  imports Client_Contract
begin

text \<open>
  The client's own guarantees, whatever the transport: how many requests a call can cost,
  which answers are retried, which are refused, how errors are reported, and what the paths
  and waits it computes look like.
\<close>

section \<open>Counting requests\<close>

text \<open>A counter of the environment that only a request can raise, by one.\<close>

definition request_counter :: "'n client \<Rightarrow> ('n \<Rightarrow> nat) \<Rightarrow> bool" where
  "request_counter c cnt =
     ((\<forall>rq n r n'. cl_hc c rq n = (r, n') \<longrightarrow> cnt n' \<le> cnt n + 1)
      \<and> (\<forall>n r n'. t_Err (cl_t c) n = (r, n') \<longrightarrow> cnt n' = cnt n)
      \<and> (\<forall>n r n'. t_Now (cl_t c) n = (r, n') \<longrightarrow> cnt n' = cnt n)
      \<and> (\<forall>d n r n'. cl_sleep c d n = (r, n') \<longrightarrow> cnt n' = cnt n)
      \<and> (\<forall>k n r n'. cl_backoff c k n = (r, n') \<longrightarrow> cnt n' = cnt n))"

text \<open>The most requests one call may cost.\<close>

definition tries :: "'n client \<Rightarrow> nat" where
  "tries c = nat (cl_maxRetries c) + 1"

lemma limiter_wait_cnt:
  "request_counter c cnt \<Longrightarrow> limiter_wait (cl_t c) i (cl_sleep c) w = (oe, w') \<Longrightarrow> cnt (env w') = cnt (env w)"
  by (fastforce simp: request_counter_def limiter_wait_def in_env_iff Let_def split: prod.splits if_splits)

lemma attempt_once_cnt:
  assumes "request_counter c cnt" and "in_env (attempt_once c meth target body dec z) w = (r, w')"
  shows "cnt (env w') \<le> cnt (env w) + 1"
proof -
  have "retryAfter (cl_t c) resp n1 = (r, n2) \<Longrightarrow> cnt n2 = cnt n1" for resp n1 r n2
    using assms(1) by (auto simp: request_counter_def retryAfter_def Let_def split: if_splits option.splits prod.splits)
  with assms show ?thesis
    by (fastforce simp: request_counter_def attempt_once_def in_env_iff split: prod.splits sum.splits if_splits)
qed

lemma pause_cnt:
  assumes "request_counter c cnt" and "in_env (t_Err (cl_t c)) w2 = (ended, w3)"
    and "(if wait \<le> 0 then in_env (cl_backoff c k) w3 else (Inr wait, w3)) = (out, w4)"
  shows "cnt (env w3) = cnt (env w2)" and "cnt (env w4) = cnt (env w2)"
    and "in_env (cl_sleep c pause) w4 = (oe, w5) \<Longrightarrow> cnt (env w5) = cnt (env w2)"
proof -
  show w3: "cnt (env w3) = cnt (env w2)"
    using assms(1,2) by (auto simp: request_counter_def in_env_iff)
  show w4: "cnt (env w4) = cnt (env w2)"
    using assms(1,3) w3 by (auto simp: request_counter_def in_env_iff split: if_splits)
  show "in_env (cl_sleep c pause) w4 = (oe, w5) \<Longrightarrow> cnt (env w5) = cnt (env w2)"
    using assms(1) w4 by (auto simp: request_counter_def in_env_iff)
qed

lemma do_from_cnt:
  assumes "request_counter c cnt" and "do_from c meth target body dec z k w = (res, w')"
  shows "cnt (env w') \<le> cnt (env w) + nat (cl_maxRetries c - k) + 1"
  using assms(2)
proof (induction "nat (cl_maxRetries c - k)" arbitrary: k w rule: less_induct)
  case less
  note wait = limiter_wait_cnt [OF assms(1)] and once = attempt_once_cnt [OF assms(1)]
  from less.prems show ?case
  proof (cases rule: do_from_cases)
    case throttled
    with wait [OF throttled(1)] show ?thesis by simp
  next
    case final
    with wait [OF final(1)] once [OF final(2)] show ?thesis by simp
  next
    case (given_up w1 wt w2 ended)
    have "cnt (env w') = cnt (env w2)"
      using assms(1) given_up(3) by (auto simp: request_counter_def in_env_iff)
    with wait [OF given_up(1)] once [OF given_up(2)] show ?thesis by simp
  next
    case (panicked w1 wt r w2 w3 p)
    have "(if wt \<le> 0 then in_env (cl_backoff c k) w3 else (Inr wt, w3)) = (Inl p, w')"
      using panicked(5,6) by simp
    from pause_cnt(2) [OF assms(1) panicked(3) this] wait [OF panicked(1)] once [OF panicked(2)]
    show ?thesis by simp
  next
    case (interrupted w1 wt r w2 w3 pause w4 e)
    from pause_cnt(3) [OF assms(1) interrupted(3,5,6)] wait [OF interrupted(1)] once [OF interrupted(2)]
    show ?thesis by simp
  next
    case (again w1 wt r w2 w3 pause w4 w5)
    have "cnt (env w') \<le> cnt (env w5) + nat (cl_maxRetries c - (k + 1)) + 1"
      using less.hyps [OF _ again(7)] again(4) by simp
    with pause_cnt(3) [OF assms(1) again(3,5,6)] wait [OF again(1)] once [OF again(2)] again(4)
    show ?thesis by simp
  qed
qed

lemma do_request_cnt:
  "request_counter c cnt \<Longrightarrow> do_request c meth ref body dec z w = (res, w') \<Longrightarrow>
     cnt (env w') \<le> cnt (env w) + tries c"
  using do_from_cnt [of c cnt meth "resolve (cl_base c) ref" body dec z 0 w res w']
  by (simp add: do_request_def tries_def)

lemma Page_cnt:
  assumes "request_counter c cnt" and "at_net (Page c filt i psize) s = (res, s')"
  shows "cnt (env (fst (snd s'))) \<le> cnt (env (fst (snd s))) + tries c"
  using assms by (auto simp: at_net_iff Page_def Let_def split: prod.splits sum.splits if_splits
      dest!: do_request_cnt)

text \<open>A callback that sends no requests of its own.\<close>

definition keeps_count :: "('n \<Rightarrow> nat) \<Rightarrow> (user \<Rightarrow> 'x \<times> 'n net \<times> 's \<Rightarrow> goerror option \<times> 'x \<times> 'n net \<times> 's) \<Rightarrow> bool" where
  "keeps_count cnt fn =
     (\<forall>u s e s'. fn u s = (e, s') \<longrightarrow> cnt (env (fst (snd s'))) = cnt (env (fst (snd s))))"

lemma visit_records_cnt:
  assumes "keeps_count cnt fn"
    and "visit_records fn i k first raws s = (res, s')"
  shows "cnt (env (fst (snd s'))) = cnt (env (fst (snd s)))"
  using assms(2)
proof (induction raws arbitrary: k first s)
  case (Cons raw raws)
  show ?case
  proof (cases "dec_user raw zero_user")
    case None
    with Cons.prems show ?thesis by (auto simp: unmarshal_def)
  next
    case (Some u)
    obtain r sm where r: "fn u s = (r, sm)" by (cases "fn u s")
    have sm: "cnt (env (fst (snd sm))) = cnt (env (fst (snd s)))"
      using assms(1) r unfolding keeps_count_def by blast
    show ?thesis
    proof (cases r)
      case None
      with Cons.prems r Some have "visit_records fn i (Suc k) (if k = 0 then u_ID u else first) raws sm = (res, s')"
        by (simp add: unmarshal_def)
      with Cons.IH sm show ?thesis by simp
    next
      case (Some e)
      with Cons.prems r \<open>dec_user raw zero_user = Some u\<close> have "s' = sm" by (simp add: unmarshal_def)
      with sm show ?thesis by simp
    qed
  qed
qed simp

text \<open>Once the number of pages is capped, no more than the rest of them is asked for.\<close>

lemma list_from_cnt:
  assumes "request_counter c cnt" and "keeps_count cnt fn"
  shows "list_from c filt psize fn i pages maxPages prev scanned s = (e, s') \<Longrightarrow> pages < maxPages \<Longrightarrow> 0 < maxPages \<Longrightarrow>
    cnt (env (fst (snd s'))) \<le> cnt (env (fst (snd s))) + nat (maxPages - pages) * tries c"
proof (induction "nat (maxPages - pages)" arbitrary: i pages prev scanned s rule: less_induct)
  case less
  obtain m where m: "nat (maxPages - pages) = Suc m" using less.prems(2) by (cases "nat (maxPages - pages)") auto
  note page = Page_cnt [OF assms(1)] and visit = visit_records_cnt [OF assms(2)]
  have one: "a \<le> b + tries c \<Longrightarrow> a \<le> b + nat (maxPages - pages) * tries c" for a b :: nat
    by (simp add: m)
  from less.prems(1) show ?case
  proof (cases rule: list_from_cases)
    case (failed err)
    show ?thesis by (rule one [OF page [OF failed(1)]])
  next
    case (empty lr)
    show ?thesis by (rule one [OF page [OF empty(1)]])
  next
    case (aborted lr s1 err)
    from page [OF aborted(1)] visit [OF aborted(3)] show ?thesis by (intro one) simp
  next
    case (stopped lr s1 first)
    from page [OF stopped(1)] visit [OF stopped(3)] show ?thesis by (intro one) simp
  next
    case (more lr s1 first s2)
    have next_pages: "pages + 1 < maxPages" using more(7) less.prems(3) by (simp add: Let_def)
    have "cnt (env (fst (snd s'))) \<le> cnt (env (fst (snd s2))) + nat (maxPages - (pages + 1)) * tries c"
      using less.hyps [of "pages + 1"] more(8) next_pages less.prems(2,3) by simp
    moreover have "nat (maxPages - (pages + 1)) = m" using m by simp
    ultimately show ?thesis using page [OF more(1)] visit [OF more(3)] by (simp add: m)
  qed
qed

end
