(* ===== verification/Memory_Store.thy ===== *)
theory Memory_Store
  imports Store "HOL-Library.Multiset"
begin

text \<open>
  \<open>store/memory/memory.go\<close>: the in-memory reference store. Its two maps hold pointers to
  the same \<open>Helpper\<close>, and \<open>UpdateHelpper\<close> writes through the one found by id while
  \<open>HelpperByDirectoryID\<close> reads through the one found by directory id, so the pointers
  are modelled: \<open>ms_heap\<close> is the memory the two maps point into. \<open>ms_byDirID\<close> is the list
  of its entries, because the code iterates over it, in an order that Go leaves open.
  \<open>ms_now\<close> are the successive readings of the injected clock. Every operation holds the
  store's mutex for its whole body, so each is one atomic step.
\<close>

record mem_store =
  ms_heap :: "nat \<Rightarrow> helpper"
  ms_alloc :: nat
  ms_byDirID :: "(string \<times> nat) list"
  ms_byID :: "string \<Rightarrow> nat option"
  ms_nextID :: int
  ms_checkpoint :: time
  ms_now :: "nat \<Rightarrow> time"
  ms_ticks :: nat

definition mem_New :: "(nat \<Rightarrow> time) \<Rightarrow> mem_store" where
  "mem_New now =
     \<lparr>ms_heap = (\<lambda>_. zero_helpper), ms_alloc = 0, ms_byDirID = [], ms_byID = (\<lambda>_. None),
      ms_nextID = 900000, ms_checkpoint = zero_time, ms_now = now, ms_ticks = 0\<rparr>"

definition mem_HelpperByDirectoryID :: "string \<Rightarrow> mem_store \<Rightarrow> helpper result \<times> mem_store" where
  "mem_HelpperByDirectoryID directoryID s =
     (case map_of (ms_byDirID s) directoryID of
        None \<Rightarrow> (Inl (Sentinel ErrNotFound), s)
      | Some p \<Rightarrow> (Inr (ms_heap s p), s))"

definition mem_CreateHelpper :: "new_helpper \<Rightarrow> mem_store \<Rightarrow> helpper result \<times> mem_store" where
  "mem_CreateHelpper nh s =
     (case map_of (ms_byDirID s) (nh_DirectoryID nh) of
        Some _ \<Rightarrow> (Inl (Sentinel ErrAlreadyExists), s)
      | None \<Rightarrow>
          (let nextID = ms_nextID s + 1;
               now = ms_now s (ms_ticks s);
               h = \<lparr>h_ID = itoa nextID, h_DirectoryID = nh_DirectoryID nh, h_Login = nh_Login nh,
                    h_DisplayName = nh_DisplayName nh, h_Enabled = True,
                    h_CreatedAt = now, h_UpdatedAt = now\<rparr>;
               p = ms_alloc s
           in (Inr h,
               s\<lparr>ms_nextID := nextID, ms_ticks := Suc (ms_ticks s),
                 ms_heap := (ms_heap s)(p := h), ms_alloc := Suc p,
                 ms_byDirID := ms_byDirID s @ [(nh_DirectoryID nh, p)],
                 ms_byID := (ms_byID s)(h_ID h \<mapsto> p)\<rparr>)))"

definition mem_UpdateHelpper :: "string \<Rightarrow> helpper_update \<Rightarrow> mem_store \<Rightarrow> goerror option \<times> mem_store" where
  "mem_UpdateHelpper i upd s =
     (case ms_byID s i of
        None \<Rightarrow> (Some (Sentinel ErrNotFound), s)
      | Some p \<Rightarrow>
          (None,
           s\<lparr>ms_heap := (ms_heap s)(p := apply_update upd (ms_now s (ms_ticks s)) (ms_heap s p)),
             ms_ticks := Suc (ms_ticks s)\<rparr>))"

definition sortByDirectoryID :: "helpper list \<Rightarrow> helpper list" where
  "sortByDirectoryID ps = sort_key h_DirectoryID ps"

text \<open>The loop over the map, for a given order of its entries.\<close>

definition enabled_in_order :: "(nat \<Rightarrow> helpper) \<Rightarrow> (string \<times> nat) list \<Rightarrow> helpper list" where
  "enabled_in_order hp es = filter h_Enabled (map (\<lambda>(d, p). hp p) es)"

definition mem_EnabledHelppers :: "mem_store \<Rightarrow> helpper list result \<times> mem_store" where
  "mem_EnabledHelppers s = (Inr (sortByDirectoryID (enabled_in_order (ms_heap s) (ms_byDirID s))), s)"

definition mem_Checkpoint :: "mem_store \<Rightarrow> time result \<times> mem_store" where
  "mem_Checkpoint s = (Inr (ms_checkpoint s), s)"

definition mem_SetCheckpoint :: "time \<Rightarrow> mem_store \<Rightarrow> goerror option \<times> mem_store" where
  "mem_SetCheckpoint at s = (None, s\<lparr>ms_checkpoint := at\<rparr>)"

definition mem_All :: "mem_store \<Rightarrow> helpper list" where
  "mem_All s = sortByDirectoryID (map (\<lambda>(d, p). ms_heap s p) (ms_byDirID s))"

definition mem_ops :: "mem_store store_ops" where
  "mem_ops =
     \<lparr>HelpperByDirectoryID = mem_HelpperByDirectoryID, CreateHelpper = mem_CreateHelpper,
      UpdateHelpper = mem_UpdateHelpper, EnabledHelppers = mem_EnabledHelppers,
      Checkpoint = mem_Checkpoint, SetCheckpoint = mem_SetCheckpoint, Ephemeral = Some True\<rparr>"

lemmas mem_defs = mem_HelpperByDirectoryID_def mem_CreateHelpper_def mem_UpdateHelpper_def
  mem_EnabledHelppers_def mem_Checkpoint_def mem_SetCheckpoint_def

lemma mem_ops_simps [simp]:
  "HelpperByDirectoryID mem_ops = mem_HelpperByDirectoryID"
  "CreateHelpper mem_ops = mem_CreateHelpper"
  "UpdateHelpper mem_ops = mem_UpdateHelpper"
  "EnabledHelppers mem_ops = mem_EnabledHelppers"
  "Checkpoint mem_ops = mem_Checkpoint"
  "SetCheckpoint mem_ops = mem_SetCheckpoint"
  "Ephemeral mem_ops = Some True"
  by (simp_all add: mem_ops_def)

section \<open>The invariant\<close>

text \<open>
  Both maps reach the same helpper through the same pointer, every pointer is allocated,
  and every id is the decimal form of a number the counter has passed.
\<close>

definition mem_ok :: "mem_store \<Rightarrow> bool" where
  "mem_ok s =
     (distinct (map fst (ms_byDirID s))
      \<and> (\<forall>(d, p) \<in> set (ms_byDirID s).
           p < ms_alloc s \<and> h_DirectoryID (ms_heap s p) = d \<and> ms_byID s (h_ID (ms_heap s p)) = Some p
           \<and> (\<exists>n. 900000 < n \<and> n \<le> ms_nextID s \<and> h_ID (ms_heap s p) = itoa n))
      \<and> (\<forall>i p. ms_byID s i = Some p \<longrightarrow>
           h_ID (ms_heap s p) = i \<and> (h_DirectoryID (ms_heap s p), p) \<in> set (ms_byDirID s))
      \<and> 900000 \<le> ms_nextID s)"

text \<open>The table of helppers the pointers amount to.\<close>

definition mem_accounts :: "mem_store \<Rightarrow> string \<Rightarrow> helpper option" where
  "mem_accounts s d = map_option (ms_heap s) (map_of (ms_byDirID s) d)"

lemma mem_ok_New [simp]: "mem_ok (mem_New now)"
  by (simp add: mem_ok_def mem_New_def)

lemma mem_ok_entry:
  assumes "mem_ok s" and "map_of (ms_byDirID s) d = Some p"
  shows "p < ms_alloc s" and "h_DirectoryID (ms_heap s p) = d"
    and "ms_byID s (h_ID (ms_heap s p)) = Some p"
    and "\<exists>n. 900000 < n \<and> n \<le> ms_nextID s \<and> h_ID (ms_heap s p) = itoa n"
  using assms map_of_SomeD [OF assms(2)] by (auto simp: mem_ok_def)

lemma mem_ok_byID:
  assumes "mem_ok s" and "ms_byID s i = Some p"
  shows "h_ID (ms_heap s p) = i" and "map_of (ms_byDirID s) (h_DirectoryID (ms_heap s p)) = Some p"
  using assms by (auto simp: mem_ok_def)

lemma mem_ok_create:
  assumes ok: "mem_ok s" and res: "mem_CreateHelpper nh s = (r, s')"
  shows "mem_ok s'"
proof (cases "map_of (ms_byDirID s) (nh_DirectoryID nh)")
  case (Some p)
  with assms show ?thesis by (simp add: mem_CreateHelpper_def)
next
  case None
  let ?id = "itoa (ms_nextID s + 1)"
  have fresh: "ms_byID s ?id = None"
  proof (rule ccontr)
    assume "ms_byID s ?id \<noteq> None"
    then obtain p where p: "ms_byID s ?id = Some p" by blast
    from mem_ok_byID [OF ok p] mem_ok_entry(4) [OF ok] show False by fastforce
  qed
  have bound: "(d, p) \<in> set (ms_byDirID s) \<Longrightarrow> p < ms_alloc s" for d p
    using ok by (auto simp: mem_ok_def)
  have nodup: "nh_DirectoryID nh \<notin> fst ` set (ms_byDirID s)"
    using None by (simp add: map_of_eq_None_iff)
  have s': "s' = s\<lparr>ms_nextID := ms_nextID s + 1, ms_ticks := Suc (ms_ticks s),
      ms_heap := (ms_heap s)(ms_alloc s :=
        \<lparr>h_ID = ?id, h_DirectoryID = nh_DirectoryID nh, h_Login = nh_Login nh,
         h_DisplayName = nh_DisplayName nh, h_Enabled = True,
         h_CreatedAt = ms_now s (ms_ticks s), h_UpdatedAt = ms_now s (ms_ticks s)\<rparr>),
      ms_alloc := Suc (ms_alloc s),
      ms_byDirID := ms_byDirID s @ [(nh_DirectoryID nh, ms_alloc s)],
      ms_byID := (ms_byID s)(?id \<mapsto> ms_alloc s)\<rparr>"
    using res None by (simp add: mem_CreateHelpper_def Let_def)
  have old: "p \<noteq> ms_alloc s \<and> h_ID (ms_heap s p) \<noteq> ?id" if "(d, p) \<in> set (ms_byDirID s)" for d p
    using ok bound [OF that] that fresh by (auto simp: mem_ok_def)
  have old': "p \<noteq> ms_alloc s" if "ms_byID s i = Some p" for i p
    using ok that bound by (fastforce simp: mem_ok_def)
  show ?thesis
    using ok nodup unfolding mem_ok_def s'
    by (auto simp: old old' less_SucI dest: bound)
qed

text \<open>The invariant reads identities only, which an update keeps.\<close>

lemma mem_ok_heap_cong:
  assumes "\<And>p. h_ID (hp p) = h_ID (ms_heap s p)"
    and "\<And>p. h_DirectoryID (hp p) = h_DirectoryID (ms_heap s p)"
  shows "mem_ok (s\<lparr>ms_heap := hp, ms_ticks := k\<rparr>) = mem_ok s"
  by (simp add: mem_ok_def assms)

lemma mem_ok_update: "mem_ok s \<Longrightarrow> mem_UpdateHelpper i upd s = (oe, s') \<Longrightarrow> mem_ok s'"
  by (auto simp: mem_UpdateHelpper_def mem_ok_heap_cong split: option.splits)

lemma mem_ok_simps [simp]:
  "mem_ok (s\<lparr>ms_checkpoint := t\<rparr>) = mem_ok s"
  "mem_accounts (s\<lparr>ms_checkpoint := t\<rparr>) = mem_accounts s"
  by (simp_all add: mem_ok_def mem_accounts_def fun_eq_iff)

section \<open>The operations on the table\<close>

lemma mem_accounts_create:
  assumes ok: "mem_ok s" and res: "mem_CreateHelpper nh s = (Inr h, s')"
  shows "mem_accounts s (nh_DirectoryID nh) = None"
    and "mem_accounts s' = (mem_accounts s)(nh_DirectoryID nh \<mapsto> h)"
    and "h_Login h = nh_Login nh" and "h_DisplayName h = nh_DisplayName nh" and "h_Enabled h"
proof -
  have none: "map_of (ms_byDirID s) (nh_DirectoryID nh) = None"
    using res by (simp add: mem_CreateHelpper_def split: option.splits)
  have old: "p \<noteq> ms_alloc s" if "map_of (ms_byDirID s) d = Some p" for d p
    using mem_ok_entry(1) [OF ok that] by simp
  show "mem_accounts s (nh_DirectoryID nh) = None" by (simp add: mem_accounts_def none)
  show "mem_accounts s' = (mem_accounts s)(nh_DirectoryID nh \<mapsto> h)"
    using res none old
    by (auto simp: mem_CreateHelpper_def Let_def mem_accounts_def fun_eq_iff map_add_def
        split: option.splits)
  show "h_Login h = nh_Login nh" "h_DisplayName h = nh_DisplayName nh" "h_Enabled h"
    using res none by (auto simp: mem_CreateHelpper_def Let_def)
qed

lemma mem_accounts_update:
  assumes ok: "mem_ok s" and d: "mem_accounts s d = Some h"
    and res: "mem_UpdateHelpper (h_ID h) upd s = (None, s')"
  shows "mem_accounts s' = (mem_accounts s)(d \<mapsto> apply_update upd (ms_now s (ms_ticks s)) h)"
proof -
  obtain p where p: "map_of (ms_byDirID s) d = Some p" and h: "h = ms_heap s p"
    using d by (auto simp: mem_accounts_def)
  have other: "d' = d" if "map_of (ms_byDirID s) d' = Some p" for d'
    using mem_ok_entry(2) [OF ok that] mem_ok_entry(2) [OF ok p] by simp
  have s': "s' = s\<lparr>ms_heap := (ms_heap s)(p := apply_update upd (ms_now s (ms_ticks s)) h),
      ms_ticks := Suc (ms_ticks s)\<rparr>"
    using res mem_ok_entry(3) [OF ok p] by (simp add: mem_UpdateHelpper_def h)
  show ?thesis
  proof
    fix d'
    show "mem_accounts s' d' = ((mem_accounts s)(d \<mapsto> apply_update upd (ms_now s (ms_ticks s)) h)) d'"
    proof (cases "d' = d")
      case True
      then show ?thesis by (simp add: mem_accounts_def s' p)
    next
      case False
      then have "map_of (ms_byDirID s) d' \<noteq> Some p" using other by blast
      with False show ?thesis
        by (cases "map_of (ms_byDirID s) d'") (auto simp: mem_accounts_def s')
    qed
  qed
qed

lemma mem_accounts_key: "mem_ok s \<Longrightarrow> mem_accounts s d = Some h \<Longrightarrow> h_DirectoryID h = d \<and> h_ID h \<noteq> []"
  by (auto simp: mem_accounts_def mem_ok_entry(2)) (metis mem_ok_entry(4) itoa_not_Nil)

lemma mem_accounts_ids:
  assumes "mem_ok s" "mem_accounts s d = Some h" "mem_accounts s d' = Some h'" "h_ID h = h_ID h'"
  shows "d = d'"
proof -
  obtain p p' where "map_of (ms_byDirID s) d = Some p" "h = ms_heap s p"
    and "map_of (ms_byDirID s) d' = Some p'" "h' = ms_heap s p'"
    using assms(2,3) by (auto simp: mem_accounts_def)
  with assms(1,4) show ?thesis by (metis mem_ok_entry(2,3) option.inject)
qed

section \<open>The sorted listing\<close>

lemma sorted_by_key_unique:
  assumes "mset xs = mset ys" and "distinct (map f xs)"
  shows "sort_key f xs = sort_key f ys"
proof -
  have "inj_on f (set xs)" using assms(2) by (simp add: distinct_map)
  moreover have "mset (sort_key f xs) = mset (sort_key f ys)" using assms(1) by simp
  moreover have "sorted (map f (sort_key f xs))" "sorted (map f (sort_key f ys))" by simp_all
  ultimately show ?thesis
    by (intro map_sorted_distinct_set_unique [of f])
      (use assms in \<open>auto simp: distinct_map dest: mset_eq_setD mset_eq_imp_distinct_iff\<close>)
qed

lemma enabled_in_order_set:
  assumes "mem_ok s"
  shows "set (enabled_in_order (ms_heap s) (ms_byDirID s))
           = {h. \<exists>d. mem_accounts s d = Some h \<and> h_Enabled h}"
proof -
  have "distinct (map fst (ms_byDirID s))" using assms by (simp add: mem_ok_def)
  then have "map_of (ms_byDirID s) d = Some p" if "(d, p) \<in> set (ms_byDirID s)" for d p
    using that by simp
  then show ?thesis
    by (fastforce simp: enabled_in_order_def mem_accounts_def dest: map_of_SomeD)
qed

lemma distinct_directory_ids:
  assumes "mem_ok s"
  shows "distinct (map h_DirectoryID (map (\<lambda>(d, p). ms_heap s p) (ms_byDirID s)))"
proof -
  have "map h_DirectoryID (map (\<lambda>(d, p). ms_heap s p) (ms_byDirID s)) = map fst (ms_byDirID s)"
    using assms by (auto simp: mem_ok_def)
  moreover have "distinct (map fst (ms_byDirID s))" using assms by (simp add: mem_ok_def)
  ultimately show ?thesis by (simp only:)
qed

lemma distinct_map_filterI: "distinct (map f xs) \<Longrightarrow> distinct (map f (filter P xs))"
  by (auto simp: distinct_map intro: inj_on_subset)

lemma mem_EnabledHelppers_list:
  assumes ok: "mem_ok s" and res: "mem_EnabledHelppers s = (Inr hs, s')"
  shows "set hs = {h. \<exists>d. mem_accounts s d = Some h \<and> h_Enabled h}"
    and "sorted (map h_DirectoryID hs)" and "distinct (map h_DirectoryID hs)"
proof -
  have hs: "hs = sortByDirectoryID (enabled_in_order (ms_heap s) (ms_byDirID s))"
    using res by (auto simp: mem_EnabledHelppers_def)
  show "set hs = {h. \<exists>d. mem_accounts s d = Some h \<and> h_Enabled h}"
    using enabled_in_order_set [OF ok] by (simp add: hs sortByDirectoryID_def)
  show "sorted (map h_DirectoryID hs)" by (simp add: hs sortByDirectoryID_def)
  have "distinct (map h_DirectoryID (enabled_in_order (ms_heap s) (ms_byDirID s)))"
    unfolding enabled_in_order_def
    by (rule distinct_map_filterI) (rule distinct_directory_ids [OF ok])
  then show "distinct (map h_DirectoryID hs)"
    by (simp add: hs sortByDirectoryID_def distinct_map)
qed

text \<open>Go may walk the map in any order: the sorted result does not depend on it.\<close>

lemma mem_listing_order_independent:
  assumes "mem_ok s" and "mset es = mset (ms_byDirID s)"
  shows "sortByDirectoryID (enabled_in_order (ms_heap s) es)
           = sortByDirectoryID (enabled_in_order (ms_heap s) (ms_byDirID s))"
  unfolding sortByDirectoryID_def
proof (rule sorted_by_key_unique [symmetric])
  show "mset (enabled_in_order (ms_heap s) (ms_byDirID s)) = mset (enabled_in_order (ms_heap s) es)"
    by (simp add: enabled_in_order_def assms(2))
  show "distinct (map h_DirectoryID (enabled_in_order (ms_heap s) (ms_byDirID s)))"
    unfolding enabled_in_order_def
    by (rule distinct_map_filterI) (rule distinct_directory_ids [OF assms(1)])
qed

section \<open>The contract\<close>

interpretation mem: store_contract mem_ops mem_ok mem_accounts ms_checkpoint "\<lambda>t. t"
proof (unfold_locales, unfold mem_ops_simps, goal_cases)
  case 1 then show ?case by (rule mem_accounts_key)
next
  case 2 then show ?case by (rule mem_accounts_ids)
next
  case (6 w nh r w')
  then have "mem_ok w'" by (rule mem_ok_create)
  with 6 show ?case by (auto simp: mem_CreateHelpper_def Let_def split: option.splits)
next
  case 7 then show ?case using mem_accounts_create by blast
next
  case (10 w i upd oe w')
  then have "mem_ok w'" by (rule mem_ok_update)
  with 10 show ?case by (auto simp: mem_UpdateHelpper_def split: option.splits)
next
  case 11 then show ?case using mem_accounts_update by blast
next
  case 14 then show ?case using mem_EnabledHelppers_list by blast
qed (auto simp: mem_defs mem_accounts_def Let_def split: option.splits)

end
