(* ===== verification/Reconciler_Success.thy ===== *)
theory Reconciler_Success
  imports Reconciler_Results
begin

text \<open>
  What a cycle that returned no error has achieved, in terms of the list of records the
  directory handed to the callback: every identity with a usable record among them has the
  account the last of these asks for, no other account moved, and the checkpoint has not passed
  an unusable record that carries a timestamp.
\<close>

fun last_usable :: "user list \<Rightarrow> string \<Rightarrow> user option" where
  "last_usable [] i = None"
| "last_usable (u # us) i =
     (case last_usable us i of
        Some v \<Rightarrow> Some v
      | None \<Rightarrow> if u_ID u = i \<and> validate u = [] then Some u else None)"

definition applied :: "user list \<Rightarrow> table \<Rightarrow> table \<Rightarrow> bool" where
  "applied us T T' =
     (\<forall>i. case last_usable us i of None \<Rightarrow> T' i = T i | Some u \<Rightarrow> desired u (T' i))"

definition holds_back :: "user list \<Rightarrow> time \<Rightarrow> bool" where
  "holds_back us t = (\<forall>u \<in> set us. validate u \<noteq> [] \<longrightarrow> LastModified u \<noteq> 0 \<longrightarrow> t \<le> LastModified u)"

lemma last_usable_Some: "last_usable us i = Some u \<Longrightarrow> u \<in> set us \<and> u_ID u = i \<and> validate u = []"
  by (induction us) (auto split: option.splits if_splits)

lemma last_usable_None: "last_usable us i = None \<longleftrightarrow> (\<forall>u \<in> set us. u_ID u = i \<longrightarrow> validate u \<noteq> [])"
  by (induction us) (auto split: option.splits)

text \<open>Of records with distinct ids each usable one is the last of its identity.\<close>

lemma last_usable_distinct:
  "distinct (map u_ID us) \<Longrightarrow> u \<in> set us \<Longrightarrow> validate u = [] \<Longrightarrow> last_usable us (u_ID u) = Some u"
proof (induction us)
  case (Cons v us)
  show ?case
  proof (cases "u = v")
    case True
    have "last_usable us (u_ID u) = None"
      unfolding last_usable_None using True Cons.prems(1) by (metis distinct.simps(2) imageI list.simps(9) set_map)
    with True Cons.prems show ?thesis by simp
  next
    case False
    with Cons show ?thesis by simp
  qed
qed simp

lemma applied_step:
  assumes "upsert u T T1" and "applied us T1 T'"
  shows "applied (u # us) T T'"
  unfolding applied_def
proof
  fix i
  from assms(2) have rest: "case last_usable us i of None \<Rightarrow> T' i = T1 i | Some v \<Rightarrow> desired v (T' i)"
    unfolding applied_def by blast
  show "case last_usable (u # us) i of None \<Rightarrow> T' i = T i | Some v \<Rightarrow> desired v (T' i)"
    using rest upsert_frame [OF assms(1), of i] upsert_malformed [of u T T1] upsert_desired [OF assms(1)] assms(1)
    by (auto split: option.splits)
qed

context reconciler begin

lemma walked_applied:
  assumes "walked rstep served (walk_callback s observe) (x, w) us None (x', w')" and "benign observe"
    and "ok w" and "\<not> dryRun s"
  shows "applied us (accounts w) (accounts w')"
  using assms(1,3)
proof (induction "(x, w)" us "None :: goerror option" "(x', w')" arbitrary: x w rule: walked.induct)
  case walked_stop
  show ?case by (simp add: applied_def)
next
  case (walked_fetch w w1 x us)
  with rstep_frame [of w w1] show ?case by simp
next
  case (walked_visit u s1 us)
  obtain x1 w1 where s1: "s1 = (x1, w1)" by fastforce
  from callback_run [OF walked_visit(2) [unfolded s1] assms(2)] obtain res where
    run: "apply_record s u (run_of x w) = (res, run_of x1 w1)" and "\<not> isl res" by blast
  with apply_upsert [OF run] walked_visit.prems assms(4) have "ok w1" "upsert u (accounts w) (accounts w1)" by auto
  then show ?case using walked_visit(4) [OF s1] applied_step by blast
qed

lemma walk_success:
  assumes "walkWith s filt observe m w = ((Inr mark, x), w')" and "benign observe" and "ok w"
    and "\<not> dryRun s" and "walks_over rstep served s filt observe m w us"
  shows "(\<forall>u \<in> set us. served u) \<and> Scanned (wk_stats x) = length us
    \<and> applied us (accounts w) (accounts w') \<and> holds_back us mark"
proof -
  note walk = walks_over_finished [OF assms(1,5)]
  have "holds_back us mark"
    using walked_watermark(1) [OF walk(1) assms(2)] by (simp add: holds_back_def walk(2))
  moreover have "Scanned (wk_stats x) = length us"
    using walked_counts(2) [OF walk(1) assms(2)] by (simp add: start_walk_def zero_stats_def)
  ultimately show ?thesis
    using walked_served [OF walk(1)] walked_applied [OF walk(1) assms(2-4)] by blast
qed

lemma advance_mark:
  "advance s current mark m w = ((cp, err), m', w') \<Longrightarrow> cp = current \<or> cp = mark"
  by (erule advance_elim) auto

theorem incremental_success:
  assumes "Incremental s m w = ((sts, None), m', w')" and "ok w" and "\<not> dryRun s"
    and over: "walks_over rstep served s (cycle_filter s w) None m (cycle_start s w) us"
  shows "(\<forall>u \<in> set us. served u) \<and> Scanned sts = length us
    \<and> applied us (accounts w) (accounts w')
    \<and> (stats_Checkpoint sts = saved w \<or> holds_back us (stats_Checkpoint sts))"
  using assms(1)
proof (cases rule: Incremental_elim)
  case (finished started w1 cp w2 mark x w3 fin w4 cp')
  note w1 = now_frame [OF finished(1) assms(2)]
  then have "ok w1" by simp
  note w2 = checkpoint_frame [OF this finished(2)] and cp = checkpoint_read [OF this finished(2)]
  then have "ok w2" by simp
  note w3 = walk_summary(1-3) [OF finished(3) benign_None this]
  note w4 = now_frame [OF finished(4) w3(1)]
  then have "ok w4" by simp
  note w5 = advance_store(1,2) [OF finished(5) this]
  have "cycle_start s w = w2" "cycle_filter s w = incremental_filter s cp"
    by (simp_all add: cycle_start_def cycle_filter_def finished(1,2))
  with over have "walks_over rstep served s (incremental_filter s cp) None m w2 us" by simp
  from walk_success [OF finished(3) benign_None \<open>ok w2\<close> assms(3) this] advance_mark [OF finished(5)]
  show ?thesis using w1 w2 w4 w5 cp finished(6) by auto
qed simp_all

theorem full_success:
  assumes "Full s m w = ((sts, d, None), m', w')" and "ok w" and "\<not> dryRun s"
    and over: "walks_over rstep served s [] (Some observe_drift) m (cycle_start s w) us"
  shows "(\<forall>u \<in> set us. served u) \<and> Scanned sts = length us
    \<and> applied us (accounts w) (accounts w')
    \<and> (stats_Checkpoint sts = saved w \<or> holds_back us (stats_Checkpoint sts))"
  using assms(1)
proof (cases rule: Full_elim)
  case (finished started w1 cp w2 mark x w3 fin w4 local w5 m1 cp')
  note w1 = now_frame [OF finished(1) assms(2)]
  then have "ok w1" by simp
  note w2 = checkpoint_frame [OF this finished(2)] and cp = checkpoint_read [OF this finished(2)]
  then have "ok w2" by simp
  note w3 = walk_summary(1-3) [OF finished(3) benign_observe_drift this]
  note w4 = now_frame [OF finished(4) w3(1)]
  then have "ok w4" by simp
  note w5 = enabled_frame [OF this finished(5)]
  then have "ok w5" by simp
  note w6 = advance_store(1,2) [OF finished(8) this]
  have "cycle_start s w = w2" by (simp add: cycle_start_def finished(1,2))
  from walk_success [OF finished(3) benign_observe_drift \<open>ok w2\<close> assms(3) over [unfolded this]] advance_mark [OF finished(8)]
  show ?thesis using w1 w2 w4 w5 w6 cp finished(9) by auto
qed simp_all

end

end
