(* ===== verification/Worker.thy ===== *)
theory Worker
  imports Client_Contract Memory_Store Reconciler_Success
begin

text \<open>
  \<open>cmd/directorysyncd\<close>: the process around the reconciler. Its start (the guard against an
  ephemeral store, the preflight), one cycle of either kind with the metrics it records, the
  loop over the two tickers, and the metrics' text form. Flags arrive as arguments; logging,
  signal handling and the HTTP server of the metrics are not modelled.
\<close>

section \<open>Metrics: metrics.go\<close>

record metrics =
  mt_cycles :: nat
  mt_failures :: nat
  mt_created :: nat
  mt_enabled :: nat
  mt_disabled :: nat
  mt_wroteBack :: nat
  mt_conflicts :: nat
  mt_malformed :: nat
  mt_alerts :: nat
  mt_lastMs :: int

definition zero_metrics :: metrics where
  "zero_metrics = \<lparr>mt_cycles = 0, mt_failures = 0, mt_created = 0, mt_enabled = 0, mt_disabled = 0,
     mt_wroteBack = 0, mt_conflicts = 0, mt_malformed = 0, mt_alerts = 0, mt_lastMs = 0\<rparr>"

text \<open>\<open>Duration.Milliseconds\<close> truncates toward zero.\<close>

definition milliseconds :: "duration \<Rightarrow> int" where
  "milliseconds d = (if d < 0 then - (- d div millisecond) else d div millisecond)"

definition record_cycle :: "stats \<Rightarrow> goerror option \<Rightarrow> metrics \<Rightarrow> metrics" where
  "record_cycle s err m =
     m\<lparr>mt_cycles := mt_cycles m + 1,
       mt_failures := mt_failures m + (if err = None then 0 else 1),
       mt_created := mt_created m + Created s,
       mt_enabled := mt_enabled m + Enabled s,
       mt_disabled := mt_disabled m + Disabled s,
       mt_wroteBack := mt_wroteBack m + WroteBack s,
       mt_conflicts := mt_conflicts m + Conflicts s,
       mt_malformed := mt_malformed m + Malformed s,
       mt_lastMs := milliseconds (Duration s)\<rparr>"

text \<open>\<open>%.0f\<close> of a number of seconds given in nanoseconds: round half to even.\<close>

definition round_seconds :: "duration \<Rightarrow> int" where
  "round_seconds d =
     (let q = d div second; r = d mod second in
      if 2 * r < second \<or> 2 * r = second \<and> even q then q else q + 1)"

definition metric_text :: "string \<Rightarrow> string \<Rightarrow> string \<Rightarrow> string \<Rightarrow> string" where
  "metric_text kind name help val =
     ''# HELP '' @ name @ '' '' @ help @ [CHR 0x0A] @ ''# TYPE '' @ name @ '' '' @ kind @ [CHR 0x0A]
     @ name @ '' '' @ val @ [CHR 0x0A]"

definition gauge :: "string \<Rightarrow> string \<Rightarrow> string \<Rightarrow> string" where
  "gauge name help val = metric_text ''gauge'' name help val"

definition counter :: "string \<Rightarrow> string \<Rightarrow> nat \<Rightarrow> string" where
  "counter name help val = metric_text ''counter'' name help (itoa (int val))"

definition sync_lag :: "time \<Rightarrow> time \<Rightarrow> duration" where
  "sync_lag checkpoint t = (if is_zero checkpoint then 0 else time_sub t checkpoint)"

definition write_metrics :: "metrics \<Rightarrow> time \<Rightarrow> time \<Rightarrow> string" where
  "write_metrics m checkpoint t =
     gauge ''directory_sync_lag_seconds''
       (''Age of the sync checkpoint. The SLI behind '' @ quote ''an account closure reaches the partner within N minutes'' @ ''.'')
       (itoa (round_seconds (sync_lag checkpoint t)))
     @ gauge ''directory_last_cycle_duration_ms'' ''Duration of the most recent cycle.'' (itoa (mt_lastMs m))
     @ counter ''directory_sync_cycles_total'' ''Cycles attempted.'' (mt_cycles m)
     @ counter ''directory_sync_failures_total'' ''Cycles that failed.'' (mt_failures m)
     @ counter ''directory_helppers_created_total'' ''Helppers created locally.'' (mt_created m)
     @ counter ''directory_helppers_enabled_total'' ''Helppers re-enabled.'' (mt_enabled m)
     @ counter ''directory_helppers_disabled_total'' ''Helppers disabled.'' (mt_disabled m)
     @ counter ''directory_write_backs_total'' ''Identifiers written back to the directory as externalId.'' (mt_wroteBack m)
     @ counter ''directory_write_back_conflicts_total'' ''Write-backs refused with 409.'' (mt_conflicts m)
     @ counter ''directory_malformed_records_total'' ''Records the directory served that could not be used.'' (mt_malformed m)
     @ counter ''directory_alerts_total'' ''Conditions no retry can fix.'' (mt_alerts m)"

text \<open>\<open>/readyz\<close>: the status, and the body.\<close>

definition readyz :: "metrics \<Rightarrow> int \<times> string" where
  "readyz m =
     (if mt_cycles m = 0 then (503, ''no cycle completed yet'' @ [CHR 0x0A])
      else (200, ''ready'' @ [CHR 0x0A]))"

section \<open>The process\<close>

text \<open>What the process mutates: the keys alerted on, the metrics, and the world outside.\<close>

record ('n, 's) process =
  p_alerts :: alert_state
  p_metrics :: metrics
  p_world :: "'n net \<times> 's"

text \<open>The \<open>Alert\<close> function counts: every alert a cycle raised is one more on the counter.\<close>

definition count_alerts :: "alert_state \<Rightarrow> alert_state \<Rightarrow> metrics \<Rightarrow> metrics" where
  "count_alerts before_cycle after_cycle m =
     m\<lparr>mt_alerts := mt_alerts m + (length (raised after_cycle) - length (raised before_cycle))\<rparr>"

definition runFull :: "('n net \<times> 's) syncer \<Rightarrow> ('n, 's) process \<Rightarrow> ('n, 's) process" where
  "runFull s p =
     (case Full s (p_alerts p) (p_world p) of
        ((sts, d, err), m', w') \<Rightarrow>
          \<lparr>p_alerts = m',
           p_metrics = record_cycle sts err (count_alerts (p_alerts p) m' (p_metrics p)),
           p_world = w'\<rparr>)"

definition runIncremental :: "('n net \<times> 's) syncer \<Rightarrow> ('n, 's) process \<Rightarrow> ('n, 's) process" where
  "runIncremental s p =
     (case Incremental s (p_alerts p) (p_world p) of
        ((sts, err), m', w') \<Rightarrow>
          \<lparr>p_alerts = m',
           p_metrics = record_cycle sts err (count_alerts (p_alerts p) m' (p_metrics p)),
           p_world = w'\<rparr>)"

definition preflight :: "'n client \<Rightarrow> 'n net \<Rightarrow> goerror option \<times> 'n net" where
  "preflight c w =
     (case ServiceProviderConfig c w of
        (Inl e, w') \<Rightarrow>
          ((case err_as_scim e of
              Some se \<Rightarrow> if Credential se then Some (Wrapped ''preflight: the credential was rejected'' e) else None
            | None \<Rightarrow> None), w')
      | (Inr cfg, w') \<Rightarrow>
          (if \<not> pc_FilterSupported cfg then
             Some (Plain (''preflight: the directory reports no filter support, ''
               @ ''so incremental synchronization is impossible''))
           else if \<not> pc_PatchSupported cfg then
             Some (Plain (''preflight: the directory reports no PATCH support, ''
               @ ''so our identifier cannot be written back''))
           else None, w'))"

text \<open>The flags the start of \<open>run\<close> depends on.\<close>

record flags =
  f_baseURL :: string
  f_token :: string
  f_pageSize :: int
  f_rps :: rat
  f_dryRun :: bool
  f_allowMemory :: bool
  f_once :: bool

definition worker_options :: "flags \<Rightarrow> options" where
  "worker_options f = \<lparr>o_PageSize = f_pageSize f, o_Overlap = 0, o_MaxMalformed = 0, o_FutureSkew = 0,
     o_DryRun = f_dryRun f\<rparr>"

definition ephemeral_refused :: "'s store_ops \<Rightarrow> flags \<Rightarrow> bool" where
  "ephemeral_refused store f = (IsEphemeral store \<and> \<not> f_dryRun f \<and> \<not> f_allowMemory f)"

definition startup :: "'n transport \<Rightarrow> 's store_ops \<Rightarrow> flags \<Rightarrow> 'n net \<times> 's \<Rightarrow>
    ('n net \<times> 's) syncer result \<times> ('n net \<times> 's)" where
  "startup t store f w =
     (if f_baseURL f = [] \<or> f_token f = [] then
        (Inl (Plain ''DIRECTORY_BASE_URL and DIRECTORY_TOKEN are required''), w)
      else
        case client_New t \<lparr>co_BaseURL = f_baseURL f, co_Token = f_token f, co_HTTPClient = None,
               co_MaxRetries = 0, co_RequestsPerSecond = f_rps f,
               co_UserAgent = ''helppi-scim-go/1.0 (+sync worker)'', co_Sleep = None, co_Backoff = None\<rparr> of
          Inl e \<Rightarrow> (Inl (Wrapped ''build client'' e), w)
        | Inr c \<Rightarrow>
            if ephemeral_refused store f then
              (Inl (Plain ''refusing to run against a real directory with an in-memory store''), w)
            else
              case preflight c (fst w) of
                (Some e, n) \<Rightarrow> (Inl e, (n, snd w))
              | (None, n) \<Rightarrow> (Inr (worker c store (worker_options f)), (n, snd w)))"

text \<open>
  The loop of \<open>run\<close>: what its \<open>select\<close> can receive, and between two receipts the world
  outside going on by itself.
\<close>

datatype 'n event = FullTick | IncTick | Done | Outside "'n net \<Rightarrow> 'n net"

fun main_loop :: "('n net \<times> 's) syncer \<Rightarrow> 'n event list \<Rightarrow> ('n, 's) process \<Rightarrow> ('n, 's) process" where
  "main_loop s [] p = p"
| "main_loop s (FullTick # es) p = main_loop s es (runFull s p)"
| "main_loop s (IncTick # es) p = main_loop s es (runIncremental s p)"
| "main_loop s (Done # es) p = p"
| "main_loop s (Outside f # es) p = main_loop s es (p\<lparr>p_world := map_prod f id (p_world p)\<rparr>)"

definition run_process :: "'n transport \<Rightarrow> 's store_ops \<Rightarrow> flags \<Rightarrow> 'n event list \<Rightarrow> 'n net \<times> 's \<Rightarrow>
    (goerror + ('n, 's) process) \<times> ('n net \<times> 's)" where
  "run_process t store f es w =
     (case startup t store f w of
        (Inl e, w') \<Rightarrow> (Inl e, w')
      | (Inr s, w') \<Rightarrow>
          (let p = runFull s \<lparr>p_alerts = no_alerts, p_metrics = zero_metrics, p_world = w'\<rparr>;
               p' = (if f_once f then p else main_loop s es p)
           in (Inr p', p_world p')))"

end
