(* ===== verification/Worker_Life.thy ===== *)
theory Worker_Life
  imports Worker
begin

text \<open>
  The life of a worker as a state machine: cycles of either kind, and the outside world
  moving on between them. What the theorems about single cycles say is carried along every
  run; the properties of the development about the account base and the checkpoint are at
  the end.
\<close>

section \<open>The contracts on the worker's own parts\<close>

text \<open>
  The worker over the HTTP client and the memory store has everything the reconciler's proofs
  ask for, and its reads are silent.
\<close>

interpretation sys: reconciler "worker c mem_ops opts" "\<lambda>w. mem_ok (snd w)" "\<lambda>w. mem_accounts (snd w)"
  "\<lambda>w. ms_checkpoint (snd w)" "\<lambda>t. t" "net_step c is_get" "net_step c (is_write_back c)" "page_served c"
  for c opts
  by (rule worker_reconciler [OF mem.store_contract_axioms])

lemma mem_reads_silently: "reads_silently mem_ops"
  by (auto simp: reads_silently_def mem_defs split: option.splits)

interpretation sysq: quiet_reads "worker c mem_ops opts" "net_step c is_get" "net_step c (is_write_back c)"
  "page_served c" "net_step c is_get"
  for c opts
  by (rule worker_quiet [OF mem_reads_silently])

section \<open>The life of a worker\<close>

inductive life_step :: "('n net \<times> 's) syncer \<Rightarrow> ('n, 's) process \<Rightarrow> ('n, 's) process \<Rightarrow> bool" for s where
  step_full: "life_step s p (runFull s p)"
| step_incremental: "life_step s p (runIncremental s p)"
| step_outside: "life_step s p (p\<lparr>p_world := map_prod f id (p_world p)\<rparr>)"

inductive life :: "('n net \<times> 's) syncer \<Rightarrow> ('n, 's) process \<Rightarrow> ('n, 's) process \<Rightarrow> bool" for s where
  life_refl: "life s p p"
| life_step: "life_step s p q \<Longrightarrow> life s q r \<Longrightarrow> life s p r"

abbreviation p_store :: "('n, 's) process \<Rightarrow> 's" where
  "p_store p \<equiv> snd (p_world p)"

lemma main_loop_life: "life s p (main_loop s es p)"
  by (induction s es p rule: main_loop.induct)
    (auto intro: life.intros step_full step_incremental step_outside)

section \<open>One step\<close>

lemma worker_cycle_summary:
  assumes "store_contract store ok accounts saved rnd" and "ok (snd w)"
  shows "case Incremental (worker c store opts) m w of ((sts, err), m', w') \<Rightarrow>
      ok (snd w') \<and> evolves (page_served c) (accounts (snd w)) (accounts (snd w'))
      \<and> alert_growth m m'
      \<and> (saved (snd w') = saved (snd w) \<or> (err = None \<and> saved (snd w') = rnd (stats_Checkpoint sts)
           \<and> may_advance (worker c store opts) (page_served c) (saved (snd w)) (stats_Checkpoint sts)))"
    and "case Full (worker c store opts) m w of ((sts, d, err), m', w') \<Rightarrow>
      ok (snd w') \<and> evolves (page_served c) (accounts (snd w)) (accounts (snd w'))
      \<and> (saved (snd w') = saved (snd w) \<or> (err = None \<and> saved (snd w') = rnd (stats_Checkpoint sts)
           \<and> may_advance (worker c store opts) (page_served c) (saved (snd w)) (stats_Checkpoint sts)))"
proof -
  note r = worker_reconciler [OF assms(1), of c opts]
  show "case Incremental (worker c store opts) m w of ((sts, err), m', w') \<Rightarrow>
      ok (snd w') \<and> evolves (page_served c) (accounts (snd w)) (accounts (snd w'))
      \<and> alert_growth m m'
      \<and> (saved (snd w') = saved (snd w) \<or> (err = None \<and> saved (snd w') = rnd (stats_Checkpoint sts)
           \<and> may_advance (worker c store opts) (page_served c) (saved (snd w)) (stats_Checkpoint sts)))"
  proof (cases "Incremental (worker c store opts) m w" rule: prod_cases4)
    case (fields x m' w1 w2)
    obtain sts err where x: "x = (sts, err)" by fastforce
    note run = fields [unfolded x]
    show ?thesis
      using reconciler.incremental_store [OF r run] reconciler.incremental_accounting(1) [OF r run] assms(2)
      by (auto simp: fields x)
  qed
  show "case Full (worker c store opts) m w of ((sts, d, err), m', w') \<Rightarrow>
      ok (snd w') \<and> evolves (page_served c) (accounts (snd w)) (accounts (snd w'))
      \<and> (saved (snd w') = saved (snd w) \<or> (err = None \<and> saved (snd w') = rnd (stats_Checkpoint sts)
           \<and> may_advance (worker c store opts) (page_served c) (saved (snd w)) (stats_Checkpoint sts)))"
  proof (cases "Full (worker c store opts) m w" rule: prod_cases4)
    case (fields x m' w1 w2)
    obtain sts d err where x: "x = (sts, d, err)" by (cases x) auto
    note run = fields [unfolded x]
    show ?thesis
      using reconciler.full_store [OF r run] assms(2) by (auto simp: fields x)
  qed
qed

lemma net_untouched: "snd (map_prod f id w) = snd w"
  by (cases w) simp

text \<open>What a step does to the store, stated once for both kinds of cycle.\<close>

lemma life_step_store:
  assumes "store_contract store ok accounts saved rnd" and "life_step (worker c store opts) p q"
    and "ok (p_store p)"
  shows "ok (p_store q) \<and> evolves (page_served c) (accounts (p_store p)) (accounts (p_store q))
    \<and> (saved (p_store q) = saved (p_store p)
       \<or> (\<exists>u. page_served c u \<and> saved (p_store p) < LastModified u \<and> saved (p_store q) = rnd (LastModified u)))"
  using assms(2)
proof (cases rule: life_step.cases)
  case step_full
  with worker_cycle_summary(2) [OF assms(1,3), where c = c and opts = opts and m = "p_alerts p"] show ?thesis
    by (auto simp: runFull_def may_advance_def split: prod.splits)
next
  case step_incremental
  with worker_cycle_summary(1) [OF assms(1,3), where c = c and opts = opts and m = "p_alerts p"] show ?thesis
    by (auto simp: runIncremental_def may_advance_def split: prod.splits)
next
  case (step_outside f)
  with assms(3) show ?thesis by (simp add: net_untouched evolves_refl)
qed

lemma life_store:
  assumes "store_contract store ok accounts saved rnd" and "life (worker c store opts) p q"
    and "ok (p_store p)"
  shows "ok (p_store q)" and "evolves (page_served c) (accounts (p_store p)) (accounts (p_store q))"
    and "saved (p_store q) = saved (p_store p) \<or> (\<exists>u. page_served c u \<and> saved (p_store q) = rnd (LastModified u))"
proof -
  have "ok (p_store q) \<and> evolves (page_served c) (accounts (p_store p)) (accounts (p_store q))
    \<and> (saved (p_store q) = saved (p_store p) \<or> (\<exists>u. page_served c u \<and> saved (p_store q) = rnd (LastModified u)))"
    using assms(2,3)
  proof (induction rule: life.induct)
    case (life_step p q r)
    note one = life_step_store [OF assms(1) life_step.hyps(1) life_step.prems]
    then have "evolves (page_served c) (accounts (p_store p)) (accounts (p_store r))"
      using life_step.IH evolves_trans by blast
    then show ?case using one life_step.IH by auto
  qed (simp add: evolves_refl)
  then show "ok (p_store q)" and "evolves (page_served c) (accounts (p_store p)) (accounts (p_store q))"
    and "saved (p_store q) = saved (p_store p) \<or> (\<exists>u. page_served c u \<and> saved (p_store q) = rnd (LastModified u))"
    by blast+
qed

text \<open>
  A store whose precision keeps the order of the timestamps it is given never sees its
  checkpoint move back.
\<close>

lemma life_checkpoint:
  assumes "store_contract store ok accounts saved rnd" and "rounds_in_order rnd T"
    and served: "\<And>u. page_served c u \<Longrightarrow> LastModified u \<in> T"
    and "life (worker c store opts) p q" and "ok (p_store p)" and "saved (p_store p) \<in> T"
  shows "saved (p_store p) \<le> saved (p_store q)"
  using assms(4-6)
proof (induction rule: life.induct)
  case (life_step p q r)
  note one = life_step_store [OF assms(1) life_step.hyps(1) life_step.prems(1)]
  have "saved (p_store p) \<le> saved (p_store q) \<and> saved (p_store q) \<in> T"
  proof (cases "saved (p_store q) = saved (p_store p)")
    case False
    with one obtain u where u: "page_served c u" "saved (p_store p) < LastModified u" "saved (p_store q) = rnd (LastModified u)"
      by blast
    have "rnd (saved (p_store p)) \<le> rnd (LastModified u)" "rnd (LastModified u) \<in> T"
      using assms(2) served [OF u(1)] life_step.prems(2) u(2) by (auto simp: rounds_in_order_def)
    with store_contract.rnd_saved [OF assms(1) life_step.prems(1)] u(3) show ?thesis by simp
  qed (use life_step.prems in simp)
  with one life_step.IH show ?case by auto
qed simp

end
