(* ===== verification/Scenario.thy ===== *)
theory Scenario
  imports Worker_Life
begin

text \<open>
  A worked run, evaluated by the kernel from the bytes of the HTTP response: a store that
  knows \<open>d1\<close> and \<open>d9\<close>, and a directory that answers every request with a page on which
  \<open>d1\<close> is inactive, \<open>d2\<close> is new and \<open>d3\<close> has no active flag, counting the requests. The witnesses of the
  properties about the worker are instances at this run.
\<close>

definition record_json :: "string \<Rightarrow> (string \<times> json) list \<Rightarrow> string \<Rightarrow> json" where
  "record_json i act lm =
     JObj ([(''id'', JStr i), (''userName'', JStr (''login-'' @ i))] @ act
       @ [(''meta'', JObj [(''lastModified'', JStr lm)])])"

definition demo_json :: json where
  "demo_json = (JObj [(''schemas'', JArr [JStr SchemaList]), (''totalResults'', JNum 3),
     (''Resources'', JArr
       [record_json ''d1'' [(''active'', JBool False)] ''2026-01-02T03:04:05Z'',
        record_json ''d2'' [(''active'', JBool True)] ''2026-01-02T03:04:07Z'',
        record_json ''d3'' [] ''2026-01-02T03:04:06Z''])])"

definition demo_page :: string where
  "demo_page = print_json demo_json"

definition demo_transport :: "nat transport" where
  "demo_transport =
     \<lparr>t_Do = (\<lambda>rq n. (Inr \<lparr>rs_StatusCode = 200, rs_Header = [(''Content-Type'', ContentType)],
        rs_Body = demo_page, rs_Broken = False\<rparr>, Suc n)),
      t_Err = (\<lambda>n. (None, n)), t_Timer = (\<lambda>d n. (True, n)),
      t_Now = (\<lambda>n. (63902920000000000000, n)), t_Rand = (\<lambda>b n. (0, n))\<rparr>"

definition demo_client :: "nat client" where
  "demo_client =
     \<lparr>cl_t = demo_transport, cl_base = ''https://directory.example/scim/v2/'', cl_token = ''secret'',
      cl_hc = t_Do demo_transport, cl_maxRetries = 4, cl_userAgent = ''worker'', cl_interval = 0,
      cl_sleep = sleepCtx demo_transport, cl_backoff = defaultBackoff demo_transport\<rparr>"

lemma demo_page_read: "json_first demo_page = Some demo_json"
  unfolding demo_page_def by (rule parse_print(2)) (simp add: demo_json_def record_json_def)

lemma demo_do: "do_from demo_client meth target body dec z k w =
    (case dec demo_json z of
       None \<Rightarrow> Inl (Wrapped (''scim: decode '' @ call_name meth target) decode_error)
     | Some a \<Rightarrow> Inr a, w\<lparr>env := Suc (env w)\<rparr>)"
proof -
  have "contains (to_lower ContentType) ''json''" by code_simp
  then show ?thesis
    by (subst do_from.simps)
      (simp add: limiter_wait_def in_env_def attempt_once_def demo_client_def demo_transport_def
        read_success_def demo_page_read unmarshal_def Let_def split: option.splits)
qed

lemma demo_records:
  assumes "page_served demo_client u"
  shows "u_ID u \<in> {''d1'', ''d2'', ''d3''}"
proof -
  obtain lr where lr: "dec_list_response demo_json zero_list_response = Some lr"
    and raws: "map (\<lambda>raw. map_option u_ID (dec_user raw zero_user)) (lr_Resources lr)
      = [Some ''d1'', Some ''d2'', Some ''d3'']"
  proof -
    have "map_option (\<lambda>lr. map (\<lambda>raw. map_option u_ID (dec_user raw zero_user)) (lr_Resources lr))
        (dec_list_response demo_json zero_list_response) = Some [Some ''d1'', Some ''d2'', Some ''d3'']"
      by code_simp
    with that show ?thesis by auto
  qed
  from assms obtain raw where "raw \<in> set (lr_Resources lr)" "dec_user raw zero_user = Some u"
    by (auto simp: page_served_def Page_def do_request_def demo_do lr Let_def split: if_splits)
  then have "Some (u_ID u) \<in> set (map (\<lambda>raw. map_option u_ID (dec_user raw zero_user)) (lr_Resources lr))"
    by force
  then show ?thesis unfolding raws by auto
qed

definition demo_new :: "string \<Rightarrow> new_helpper" where
  "demo_new i = \<lparr>nh_DirectoryID = i, nh_Login = ''login-'' @ i, nh_DisplayName = []\<rparr>"

definition demo_store :: mem_store where
  "demo_store = snd (mem_CreateHelpper (demo_new ''d9'') (snd (mem_CreateHelpper (demo_new ''d1'')
     (mem_New int))))"

definition demo_options :: "bool \<Rightarrow> options" where
  "demo_options dry = \<lparr>o_PageSize = 0, o_Overlap = 0, o_MaxMalformed = 0, o_FutureSkew = 0, o_DryRun = dry\<rparr>"

definition demo_worker :: "(nat net \<times> mem_store) syncer" where
  "demo_worker = worker demo_client mem_ops (demo_options False)"

definition demo_net :: "nat net" where
  "demo_net = \<lparr>lim_next = 0, env = 0\<rparr>"

definition demo_process :: "(nat, mem_store) process" where
  "demo_process = \<lparr>p_alerts = no_alerts, p_metrics = zero_metrics, p_world = (demo_net, demo_store)\<rparr>"

definition enabled_at :: "string \<Rightarrow> (nat, mem_store) process \<Rightarrow> bool option" where
  "enabled_at d p = map_option h_Enabled (mem_accounts (p_store p) d)"

lemma demo_ok: "mem_ok demo_store"
  unfolding demo_store_def by (rule mem_ok_create [OF mem_ok_create [OF mem_ok_New prod.collapse [symmetric]]
      prod.collapse [symmetric]])

lemma demo_before:
  "enabled_at ''d1'' demo_process = Some True" "enabled_at ''d2'' demo_process = None"
  "enabled_at ''d9'' demo_process = Some True"
  by code_simp+

lemma demo_life: "life demo_worker demo_process (runFull demo_worker demo_process)"
  by (rule life_step [OF step_full life_refl])

lemma demo_run:
  "case Full demo_worker no_alerts (demo_net, demo_store) of ((sts, d, err), m, w) \<Rightarrow>
     map (\<lambda>d. map_option h_Enabled (mem_accounts (snd w) d)) [''d1'', ''d2'', ''d3'', ''d9'']
       = [Some False, Some True, None, Some True] \<and>
     err = None \<and> Scanned sts = 3 \<and> Created sts = 1 \<and> Disabled sts = 1 \<and> Malformed sts = 1
     \<and> AbsentFromDirectory d = [''d9''] \<and> ShouldBeDisabled d = [''d1'']
     \<and> ms_checkpoint (snd w) = 63902919846000000000 \<and> length (raised m) = 2"
  by code_simp

lemma demo_result:
  "case Full demo_worker no_alerts (demo_net, demo_store) of ((sts, d, err), m, w) \<Rightarrow>
     err = None \<and> Scanned sts = 3 \<and> Created sts = 1 \<and> Disabled sts = 1 \<and> Malformed sts = 1
     \<and> AbsentFromDirectory d = [''d9''] \<and> ShouldBeDisabled d = [''d1'']
     \<and> ms_checkpoint (snd w) = 63902919846000000000 \<and> length (raised m) = 2"
  using demo_run by (auto split: prod.splits)

lemma demo_after:
  "map (\<lambda>d. enabled_at d (runFull demo_worker demo_process)) [''d1'', ''d2'', ''d3'', ''d9'']
     = [Some False, Some True, None, Some True]"
  using demo_run by (auto simp: runFull_def demo_process_def enabled_at_def split: prod.splits)

end
