(* ===== verification/Url_Lemmas.thy ===== *)
theory Url_Lemmas
  imports Transport
begin

text \<open>
  Escaping in URLs: what was escaped is read back, an escaped path segment has no separator
  in it, and so a reference built from one resolves to one place only.
\<close>

lemma upper_hex_digit: "k < 16 \<Longrightarrow> upper_hex (upper_digits ! k) = Some k"
proof -
  have "\<forall>k \<in> set [0..<16]. upper_hex (upper_digits ! k) = Some k" by code_simp
  then show "k < 16 \<Longrightarrow> upper_hex (upper_digits ! k) = Some k" by simp
qed

lemma nibbles: "(of_char c :: nat) div 16 < 16" "(of_char c :: nat) mod 16 < 16"
proof -
  have "(of_char c :: nat) < 256" by simp
  then show "(of_char c :: nat) div 16 < 16" by linarith
qed simp

lemma unescape_percent: "unescape q (percent c @ s) = c # unescape q s"
  by (simp add: percent_def upper_hex_digit nibbles)

lemma unescape_keep: "c \<noteq> CHR ''%'' \<Longrightarrow> \<not> (q \<and> c = CHR ''+'') \<Longrightarrow> unescape q (c # s) = c # unescape q s"
  by (cases s; cases "tl s") (auto split: list.splits)

lemma unescape_Nil: "unescape q [] = []"
  by simp

lemma unescape_plus: "unescape True (CHR ''+'' # s) = CHR '' '' # unescape True s"
  by (cases s; cases "tl s") (auto split: list.splits)

declare unescape.simps [simp del]

lemma unreserved_plain: "unreserved c \<Longrightarrow> c \<noteq> CHR ''%'' \<and> c \<noteq> CHR ''+'' \<and> c \<noteq> CHR ''/'' \<and> c \<noteq> CHR ''?''
    \<and> c \<noteq> CHR ''&'' \<and> c \<noteq> CHR ''=''"
  by (auto simp: unreserved_def)

theorem unescape_PathEscape: "unescape False (PathEscape s) = s"
proof (induction s)
  case (Cons c s)
  have step: "PathEscape (c # s) = (if unreserved c \<or> c \<in> set ''$&+=:@'' then [c] else percent c) @ PathEscape s"
    by (simp add: PathEscape_def)
  show ?case
  proof (cases "unreserved c \<or> c \<in> set ''$&+=:@''")
    case True
    then have "c \<noteq> CHR ''%''" using unreserved_plain [of c] by auto
    with True Cons show ?thesis by (simp add: step unescape_keep)
  next
    case False
    with Cons show ?thesis by (simp add: step unescape_percent)
  qed
qed (simp add: PathEscape_def unescape_Nil)

theorem unescape_QueryEscape: "unescape True (QueryEscape s) = s"
proof (induction s)
  case (Cons c s)
  have step: "QueryEscape (c # s) = (if unreserved c then [c] else if c = CHR '' '' then ''+'' else percent c)
      @ QueryEscape s"
    by (simp add: QueryEscape_def)
  show ?case
  proof (cases "unreserved c")
    case True
    with unreserved_plain [of c] Cons show ?thesis by (simp add: step unescape_keep)
  next
    case False
    with Cons show ?thesis by (simp add: step unescape_percent unescape_plus)
  qed
qed (simp add: QueryEscape_def unescape_Nil)

lemma percent_chars: "x \<in> set (percent c) \<Longrightarrow> x = CHR ''%'' \<or> x \<in> set upper_digits"
proof -
  have "length upper_digits = 16" by (simp add: upper_digits_def)
  then have "upper_digits ! (of_char c div 16) \<in> set upper_digits" "upper_digits ! (of_char c mod 16) \<in> set upper_digits"
    using nibbles [of c] by (auto intro: nth_mem)
  then show "x \<in> set (percent c) \<Longrightarrow> ?thesis" by (auto simp: percent_def)
qed

lemma escaped_chars:
  assumes "x \<in> set (concat (map f s))"
  obtains c where "x \<in> set (f c)"
  using assms by auto

lemma PathEscape_chars:
  assumes "x \<in> set (PathEscape s)"
  shows "x \<noteq> CHR ''/''" and "x \<noteq> CHR ''?''"
proof -
  from assms obtain c where "x \<in> set (if unreserved c \<or> c \<in> set ''$&+=:@'' then [c] else percent c)"
    unfolding PathEscape_def by (rule escaped_chars)
  then consider "unreserved x" | "x \<in> set ''$&+=:@''" | "x = CHR ''%''" | "x \<in> set upper_digits"
    using percent_chars [of x c] by (cases "unreserved c \<or> c \<in> set ''$&+=:@''") auto
  then have "x \<noteq> CHR ''/'' \<and> x \<noteq> CHR ''?''"
    using unreserved_plain [of x] by cases (auto simp: upper_digits_def)
  then show "x \<noteq> CHR ''/''" and "x \<noteq> CHR ''?''" by simp_all
qed

lemma QueryEscape_chars:
  assumes "x \<in> set (QueryEscape s)"
  shows "x \<noteq> CHR ''&''" and "x \<noteq> CHR ''=''" and "x \<noteq> CHR ''?''" and "x \<noteq> CHR ''/''"
proof -
  from assms obtain c where "x \<in> set (if unreserved c then [c] else if c = CHR '' '' then ''+'' else percent c)"
    unfolding QueryEscape_def by (rule escaped_chars)
  then consider "unreserved x" | "x = CHR ''+''" | "x = CHR ''%''" | "x \<in> set upper_digits"
    using percent_chars [of x c] by (auto split: if_splits)
  then have "x \<noteq> CHR ''&'' \<and> x \<noteq> CHR ''='' \<and> x \<noteq> CHR ''?'' \<and> x \<noteq> CHR ''/''"
    using unreserved_plain [of x] by cases (auto simp: upper_digits_def)
  then show "x \<noteq> CHR ''&''" and "x \<noteq> CHR ''=''" and "x \<noteq> CHR ''?''" and "x \<noteq> CHR ''/''" by simp_all
qed

lemma split_at_none: "sep \<notin> set s \<Longrightarrow> split_at sep s = [s]"
  by (induction s) auto

lemma split_at_append: "sep \<notin> set s \<Longrightarrow> split_at sep (s @ sep # t) = s # split_at sep t"
  by (induction s) auto

lemma takeWhile_none: "c \<notin> set s \<Longrightarrow> takeWhile (\<lambda>x. x \<noteq> c) s = s"
  by (simp add: takeWhile_eq_all_conv) metis

lemma dropWhile_none: "c \<notin> set s \<Longrightarrow> dropWhile (\<lambda>x. x \<noteq> c) s = []"
  by (simp add: dropWhile_eq_Nil_conv) metis

lemma PathEscape_dots: "PathEscape s = ''.'' \<Longrightarrow> s = ''.''" "PathEscape s = ''..'' \<Longrightarrow> s = ''..''"
  using unescape_PathEscape [of s] by (auto simp: unescape_keep unescape_Nil)

text \<open>A record's reference stays below the base, unless its id is \<open>.\<close> or \<open>..\<close>.\<close>

lemma resolve_record:
  assumes "ident \<noteq> ''.''" and "ident \<noteq> ''..''"
  shows "resolve base (''Users/'' @ PathEscape ident) = base_dir base @ ''Users/'' @ PathEscape ident"
proof -
  have chars: "CHR ''/'' \<notin> set (PathEscape ident)" "CHR ''?'' \<notin> set (PathEscape ident)"
    using PathEscape_chars by blast+
  have "CHR ''?'' \<notin> set (''Users/'' @ PathEscape ident)" using chars by simp
  note whole = takeWhile_none [OF this] dropWhile_none [OF this]
  have "split_at CHR ''/'' (''Users/'' @ PathEscape ident) = [''Users'', PathEscape ident]"
    using split_at_append [of "CHR ''/''" "''Users''" "PathEscape ident"] split_at_none [OF chars(1)] by simp
  moreover have "resolve_dots [] [''Users'', PathEscape ident] = [''Users'', PathEscape ident]"
    using assms PathEscape_dots [of ident] by auto
  ultimately show ?thesis unfolding resolve_def whole by simp
qed

text \<open>Where the reference to a record leads, whatever its id.\<close>

definition record_url :: "string \<Rightarrow> string \<Rightarrow> string" where
  "record_url base ident =
     (if ident = ''..'' then base
      else if ident = ''.'' then base @ ''Users/''
      else base @ ''Users/'' @ PathEscape ident)"

lemma resolve_any_record: "resolve base (''Users/'' @ PathEscape ident) = record_url (base_dir base) ident"
proof (cases "ident = ''.'' \<or> ident = ''..''")
  case True
  have "PathEscape ''.'' = ''.''" "PathEscape ''..'' = ''..''" by code_simp+
  with True show ?thesis by (auto simp: resolve_def record_url_def)
next
  case False
  then show ?thesis by (simp add: resolve_record [simplified] record_url_def)
qed

text \<open>A list query and the capabilities are where they should be.\<close>

lemma resolve_query:
  assumes "CHR ''?'' \<notin> set q" shows "resolve base (''Users?'' @ q) = base_dir base @ ''Users?'' @ q"
  using assms by (simp add: resolve_def)

lemma base_dir_slash: "\<forall>c \<in> set b. c \<notin> set ''?#'' \<Longrightarrow> base_dir (b @ ''/'') = b @ ''/''"
  by (simp add: base_dir_def takeWhile_append takeWhile_eq_all_conv)

end
