(* ===== verification/Client_Properties.thy ===== *)
theory Client_Properties
  imports Client_Results Scenario Url_Lemmas
begin

text \<open>
  The properties of the SCIM client.
\<close>

text \<open>A counting environment, for the witnesses: every request is refused with a 503.\<close>

definition busy_transport :: "nat transport" where
  "busy_transport =
     \<lparr>t_Do = (\<lambda>rq n. (Inr \<lparr>rs_StatusCode = 503, rs_Header = [], rs_Body = [], rs_Broken = False\<rparr>, Suc n)),
      t_Err = (\<lambda>n. (None, n)), t_Timer = (\<lambda>d n. (True, n)), t_Now = (\<lambda>n. (0, n)), t_Rand = (\<lambda>b n. (0, n))\<rparr>"

definition busy_client :: "nat client" where
  "busy_client =
     \<lparr>cl_t = busy_transport, cl_base = ''https://directory.example/'', cl_token = ''secret'',
      cl_hc = t_Do busy_transport, cl_maxRetries = 4, cl_userAgent = ''worker'', cl_interval = 0,
      cl_sleep = sleepCtx busy_transport, cl_backoff = defaultBackoff busy_transport\<rparr>"

definition busy_net :: "nat net" where "busy_net = \<lparr>lim_next = 0, env = 0\<rparr>"

lemma busy_counter: "request_counter busy_client (\<lambda>n. n)"
  by (auto simp: request_counter_def busy_client_def busy_transport_def sleepCtx_def defaultBackoff_def
      Let_def split: if_splits)

text \<open>C17: A call to the directory sends at most \<open>maxRetries + 1\<close> requests, however the
  directory answers.\<close>

theorem retries_bounded:
  assumes "request_counter c cnt" and "do_request c meth ref body dec z w = (res, w')"
  shows "cnt (env w') \<le> cnt (env w) + (nat (cl_maxRetries c) + 1)"
  using do_request_cnt [OF assms] by (simp add: tries_def)

lemma retries_bounded_witness:
  "\<exists>res w'. do_request busy_client ''GET'' ''ServiceProviderConfig'' None dec_provider_config
       zero_provider_config busy_net = (res, w') \<and> env w' \<le> 5"
proof -
  obtain res w' where run: "do_request busy_client ''GET'' ''ServiceProviderConfig'' None dec_provider_config
       zero_provider_config busy_net = (res, w')" by fastforce
  have "cl_maxRetries busy_client = 4" "env busy_net = 0" by (simp_all add: busy_client_def busy_net_def)
  with retries_bounded [OF busy_counter run] run show ?thesis by simp
qed

text \<open>C18: \<open>ListUsers\<close> always returns, and the requests of one walk are bounded by the total the
  first page announced: at most \<open>totalResults / pageSize + 8\<close> pages, each at the cost of a call,
  as long as that number fits an \<open>int\<close>.\<close>

theorem pagination_bounded:
  assumes "request_counter c cnt" and "keeps_count cnt fn" and "0 < psize"
    and "at_net (Page c filt 1 psize) s = (Inr lr, s1)"
    and "lr_TotalResults lr div psize + 8 \<le> int64_max"
    and "client_ListUsers c filt psize fn s = (e, s')"
  shows "cnt (env (fst (snd s'))) \<le> cnt (env (fst (snd s)))
    + nat (max 1 (lr_TotalResults lr div psize + 8)) * tries c"
proof -
  define pages where "pages = lr_TotalResults lr div psize + 8"
  have run: "list_from c filt psize fn 1 0 0 [] 0 s = (e, s')"
    using assms(3,6) by (simp add: client_ListUsers_def)
  note page = Page_cnt [OF assms(1)] and visit = visit_records_cnt [OF assms(2)]
  have one: "a \<le> b + nat (max 1 pages) * tries c" if "a \<le> b + tries c" for a b
    using that by (cases "nat (max 1 pages)") auto
  from run have "cnt (env (fst (snd s'))) \<le> cnt (env (fst (snd s))) + nat (max 1 pages) * tries c"
  proof (cases rule: list_from_cases)
    case (failed err)
    with assms(4) show ?thesis by simp
  next
    case (empty lr)
    show ?thesis by (rule one [OF page [OF empty(1)]])
  next
    case (aborted lr s1 err)
    from page [OF aborted(1)] visit [OF aborted(3)] show ?thesis by (intro one) simp
  next
    case (stopped lr s1 first)
    from page [OF stopped(1)] visit [OF stopped(3)] show ?thesis by (intro one) simp
  next
    case (more lr' s1' first s2)
    have lr: "lr' = lr" using more(1) assms(4) by simp
    have T: "0 < lr_TotalResults lr" using more(2,6) lr by (cases "lr_Resources lr") auto
    have "0 \<le> lr_TotalResults lr div psize" using T assms(3) by (simp add: pos_imp_zdiv_nonneg_iff)
    then have pages: "wrap64 (lr_TotalResults lr div psize + 8) = pages" "8 \<le> pages"
      using assms(5) by (auto simp: pages_def in_int64_def int64_min_def)
    have next_page: "list_from c filt psize fn (1 + int (length (lr_Resources lr))) 1 pages first
        (int (length (lr_Resources lr))) s2 = (e, s')"
      using more(8) T by (simp add: lr pages)
    have "cnt (env (fst (snd s'))) \<le> cnt (env (fst (snd s2))) + nat (pages - 1) * tries c"
      using list_from_cnt [OF assms(1,2) next_page] pages(2) by simp
    moreover have "nat (max 1 pages) = Suc (nat (pages - 1))" using pages(2) by simp
    ultimately show ?thesis using page [OF more(1)] visit [OF more(3)] by simp
  qed
  then show ?thesis by (simp add: pages_def)
qed


definition demo_visit :: "user \<Rightarrow> unit \<times> nat net \<times> unit \<Rightarrow> goerror option \<times> unit \<times> nat net \<times> unit" where
  "demo_visit u s = (None, s)"

lemma demo_counter: "request_counter demo_client (\<lambda>n. n)"
  by (auto simp: request_counter_def demo_client_def demo_transport_def sleepCtx_def defaultBackoff_def
      Let_def split: if_splits)

lemma demo_first_page:
  "\<exists>lr s1. at_net (Page demo_client [] 1 2) ((), demo_net, ()) = (Inr lr, s1) \<and> lr_TotalResults lr = 3"
proof -
  have "map_option (\<lambda>lr. (SchemaList \<in> set (lr_Schemas lr), lr_TotalResults lr))
      (dec_list_response demo_json zero_list_response) = Some (True, 3)"
    by code_simp
  then obtain lr where "dec_list_response demo_json zero_list_response = Some lr"
    "SchemaList \<in> set (lr_Schemas lr)" "lr_TotalResults lr = 3" by auto
  then show ?thesis by (simp add: at_net_def Page_def do_request_def demo_do Let_def)
qed

lemma pagination_bounded_witness:
  "\<exists>e s'. client_ListUsers demo_client [] 2 demo_visit ((), demo_net, ()) = (e, s')
     \<and> env (fst (snd s')) \<le> 9 * tries demo_client"
proof -
  obtain lr s1 where page: "at_net (Page demo_client [] 1 2) ((), demo_net, ()) = (Inr lr, s1)"
    and T: "lr_TotalResults lr = 3" using demo_first_page by blast
  obtain e s' where run: "client_ListUsers demo_client [] 2 demo_visit ((), demo_net, ()) = (e, s')"
    by (cases "client_ListUsers demo_client [] 2 demo_visit ((), demo_net, ())")
  have "keeps_count (\<lambda>n. n) demo_visit" by (simp add: keeps_count_def demo_visit_def)
  from pagination_bounded [OF demo_counter this _ page _ run] run show ?thesis
    by (simp add: T int64_max_def demo_net_def)
qed

text \<open>C16: An answer in the 400s other than 429 ends the call after that one request: the
  error is the decoded payload, its code the transport status, and nothing is retried.\<close>

theorem refusal_not_retried:
  assumes "limiter_wait (cl_t c) (cl_interval c) (cl_sleep c) w = (None, w1)"
    and "cl_hc c (build_request c meth (resolve (cl_base c) ref) body) (env w1) = (Inr resp, n)"
    and "400 \<le> rs_StatusCode resp" and "rs_StatusCode resp < 500" and "rs_StatusCode resp \<noteq> 429"
  shows "do_request c meth ref body dec z w = (Inl (Scim (decodeError resp)), w1\<lparr>env := n\<rparr>)
    \<and> Code (decodeError resp) = rs_StatusCode resp"
proof
  have once: "in_env (attempt_once c meth (resolve (cl_base c) ref) body dec z) w1
      = ((0, False, Inl (Scim (decodeError resp))), w1\<lparr>env := n\<rparr>)"
    using assms(2-) by (simp add: in_env_def attempt_once_def)
  show "do_request c meth ref body dec z w = (Inl (Scim (decodeError resp)), w1\<lparr>env := n\<rparr>)"
    unfolding do_request_def by (subst do_from.simps) (simp add: assms(1) once)
  show "Code (decodeError resp) = rs_StatusCode resp"
    using assms(3) by (auto simp: decodeError_def Let_def Code_def split: option.splits)
qed

definition gone_response :: response where
  "gone_response = \<lparr>rs_StatusCode = 401, rs_Header = [], rs_Body = [], rs_Broken = False\<rparr>"

definition gone_client :: "nat client" where
  "gone_client = busy_client\<lparr>cl_hc := (\<lambda>rq n. (Inr gone_response, Suc n))\<rparr>"

lemma refusal_not_retried_witness:
  "do_request gone_client ''GET'' ''ServiceProviderConfig'' None dec_provider_config zero_provider_config busy_net
     = (Inl (Scim (decodeError gone_response)), busy_net\<lparr>env := 1\<rparr>) \<and> Credential (decodeError gone_response)"
proof -
  have wait: "limiter_wait (cl_t gone_client) (cl_interval gone_client) (cl_sleep gone_client) busy_net = (None, busy_net)"
    by (simp add: gone_client_def busy_client_def busy_transport_def limiter_wait_def in_env_def busy_net_def)
  have hc: "cl_hc gone_client rq (env busy_net) = (Inr gone_response, 1)" for rq
    by (simp add: gone_client_def busy_net_def)
  show ?thesis
    using refusal_not_retried [OF wait hc, where meth = "''GET''" and ref = "''ServiceProviderConfig''"
        and body = None and dec = dec_provider_config and z = zero_provider_config]
    by (simp add: gone_response_def Credential_def)
qed

lemma attempt_success:
  assumes "attempt_once c meth target body dec z n = ((wait, retry, Inr a), n')"
  shows "\<exists>resp v. cl_hc c (build_request c meth target body) n = (Inr resp, n') \<and> rs_StatusCode resp < 400
    \<and> (let ct = header_get (rs_Header resp) ''Content-Type'' in ct = [] \<or> contains (to_lower ct) ''json'')
    \<and> json_first (rs_Body resp) = Some v \<and> dec v z = Some a"
proof (cases "cl_hc c (build_request c meth target body) n")
  case (Pair r m)
  show ?thesis
  proof (cases r)
    case (Inl e)
    with assms Pair show ?thesis by (simp add: attempt_once_def)
  next
    case (Inr resp)
    with assms Pair show ?thesis
      by (auto simp: attempt_once_def read_success_def unmarshal_def Let_def
          split: prod.splits if_splits option.splits)
  qed
qed

text \<open>C15: A page that comes back is a SCIM list response, from an answer below 400 whose content
  type, when there is one, names JSON: neither an HTML page nor another JSON document is ever
  read as an empty directory.\<close>

theorem page_is_list_response:
  assumes "Page c filt i n w = (Inr lr, w')"
  shows "SchemaList \<in> set (lr_Schemas lr)
    \<and> (\<exists>rq m resp m' v. cl_hc c rq m = (Inr resp, m') \<and> is_get rq \<and> rs_StatusCode resp < 400
        \<and> (let ct = header_get (rs_Header resp) ''Content-Type'' in ct = [] \<or> contains (to_lower ct) ''json'')
        \<and> json_first (rs_Body resp) = Some v \<and> dec_list_response v zero_list_response = Some lr)"
proof
  show "SchemaList \<in> set (lr_Schemas lr)" by (rule Page_ok(1) [OF assms])
  have ok: "\<exists>m m' resp v. cl_hc c (build_request c meth target body) m = (Inr resp, m') \<and> rs_StatusCode resp < 400
      \<and> (let ct = header_get (rs_Header resp) ''Content-Type'' in ct = [] \<or> contains (to_lower ct) ''json'')
      \<and> json_first (rs_Body resp) = Some v \<and> dec v z = Some a"
    if "do_from c meth target body dec z k w = (Inr a, w')" for meth target body and dec :: "'o decoder" and z a k w
    using that
  proof (induction "nat (cl_maxRetries c - k)" arbitrary: k w rule: less_induct)
    case less
    from less.prems show ?case
    proof (cases rule: do_from_cases)
      case (final w1 wait)
      from final(2) have "attempt_once c meth target body dec z (env w1) = ((wait, False, Inr a), env w')"
        by (simp add: in_env_iff)
      from attempt_success [OF this] show ?thesis by blast
    next
      case (given_up w1 wait w2 ended)
      then show ?thesis by (auto simp: in_env_iff dest: attempt_once_decoded)
    next
      case (again w1 wait r w2 w3 pause w4 w5)
      show ?thesis by (rule less.hyps [OF _ again(7)]) (use again(4) in simp)
    qed simp_all
  qed
  from assms obtain target k where "do_from c ''GET'' target None dec_list_response zero_list_response 0 w = (Inr lr, w')"
    by (auto simp: Page_def do_request_def Let_def split: prod.splits sum.splits if_splits)
  from ok [OF this] show "\<exists>rq m resp m' v. cl_hc c rq m = (Inr resp, m') \<and> is_get rq \<and> rs_StatusCode resp < 400
        \<and> (let ct = header_get (rs_Header resp) ''Content-Type'' in ct = [] \<or> contains (to_lower ct) ''json'')
        \<and> json_first (rs_Body resp) = Some v \<and> dec_list_response v zero_list_response = Some lr"
    by (fastforce simp: is_get_def build_request_def)
qed

lemma page_is_list_response_witness:
  "\<exists>lr w'. Page demo_client [] 1 2 demo_net = (Inr lr, w') \<and> SchemaList \<in> set (lr_Schemas lr)"
proof -
  obtain lr s1 where "at_net (Page demo_client [] 1 2) ((), demo_net, ()) = (Inr lr, s1)"
    using demo_first_page by blast
  then have page: "Page demo_client [] 1 2 demo_net = (Inr lr, fst (snd s1))" by (simp add: at_net_iff)
  with page_is_list_response [OF page] show ?thesis by blast
qed

text \<open>C14: The client keeps the directory's contract, and exactly so: a walk fetches page after
  page, from index 1 on and each next one behind the records of the last, and hands the callback
  every record of every page in the order served. It ends at a page that fails, is empty, is
  short or reaches the total, at the two guards against a directory that does not advance, at a
  record that does not decode, or at the callback's first error, which it returns unchanged. In
  between it sends nothing but GET requests, and a write-back nothing but PATCH requests that
  replace one record's \<open>externalId\<close>.\<close>

theorem client_keeps_directory_contract:
  "(case ListUsers (client_dir c) filt n fn s of (e, s') \<Rightarrow>
      paged c filt (if n \<le> 0 then 200 else n) fn 1 0 0 [] s (handed c filt n fn s) e s'
      \<and> walked (net_step c is_get) (page_served c) fn s (handed c filt n fn s) e s')
   \<and> (case PatchExternalID (client_dir c) ident x w of (r, w') \<Rightarrow> net_step c (is_write_back c) w w')"
proof -
  have "paged c filt (if n \<le> 0 then 200 else n) fn 1 0 0 [] s (handed c filt n fn s) e s'"
    and "walked (net_step c is_get) (page_served c) fn s (handed c filt n fn s) e s'"
    if "ListUsers (client_dir c) filt n fn s = (e, s')" for e s'
    using list_from_handed [of c filt n fn s e s', unfolded client_DefaultPageSize_def] that
    by (simp_all only: client_dir_def dir_ops.simps)
  with net.patch_steps [of c ident x w] show ?thesis by (auto split: prod.splits)
qed

text \<open>Past the 34th attempt the exponential delay no longer fits 64 bits: the next wait, which only
  a configured \<open>MaxRetries\<close> of 36 or more reaches, is a panic instead of a wait.\<close>

lemma backoff_overflows: "defaultBackoff t 35 n = (Inl (Panic ''invalid argument to Int64N''), n)"
  by (simp add: defaultBackoff_def backoff_base_def half_def wrap64_alt unit_defs Let_def)

lemma backoff_bounds:
  assumes "0 \<le> k" and "k \<le> 34"
    and "\<And>b n j n'. 0 < b \<Longrightarrow> t_Rand t b n = (j, n') \<Longrightarrow> 0 \<le> j \<and> j < b"
  shows "\<exists>d n'. defaultBackoff t k n = (Inr d, n')
    \<and> min (2 ^ nat k * (500 * millisecond)) (30 * second) div 2 \<le> d
    \<and> d \<le> min (2 ^ nat k * (500 * millisecond)) (30 * second)"
proof -
  define base where "base = min (2 ^ nat k * (500 * millisecond)) (30 * second)"
  have "(2::int) ^ nat k \<le> 2 ^ 34" using assms(1,2) by (intro power_increasing) auto
  moreover define q where "q = (2::int) ^ nat k"
  ultimately have p: "q \<le> 17179869184" by simp
  have one: "1 \<le> q" by (simp add: q_def)
  have w: "wrap64 q = q" "wrap64 (q * 500) = q * 500" "wrap64 (q * 500 * millisecond) = q * 500 * millisecond"
    using p one by (simp_all add: in_int64_def int64_min_def int64_max_def millisecond_def)
  have "wrap64 (wrap64 (wrap64 q * 500) * millisecond) = q * (500 * millisecond)"
    unfolding w by simp
  then have "backoff_base k = base"
    unfolding backoff_base_def q_def [symmetric] base_def by (simp add: Let_def min_def)
  moreover have "0 < base" using one by (simp add: base_def q_def [symmetric] unit_defs)
  ultimately have base: "backoff_base k = base" "0 < base" by simp_all
  obtain j n' where j: "t_Rand t (base div 2 + 1) n = (j, n')" by fastforce
  with assms(3) [OF _ j] base(2) have "0 \<le> j" "j < base div 2 + 1" by auto
  with base j show ?thesis
    unfolding base_def [symmetric] by (auto simp: defaultBackoff_def half_def Let_def)
qed

text \<open>C21: The default wait before retry \<open>k\<close> lies between half the exponential delay and the
  whole of it, which is \<open>2^k\<close> half seconds and never more than 30 s, for the attempts 0 to 34,
  which are all the default configuration can reach and more; at attempt 35 the code panics.\<close>

theorem backoff_within_bounds:
  assumes "\<And>b n j n'. 0 < b \<Longrightarrow> t_Rand t b n = (j, n') \<Longrightarrow> 0 \<le> j \<and> j < b"
  shows "(0 \<le> k \<and> k \<le> 34 \<longrightarrow> (\<exists>d n'. defaultBackoff t k n = (Inr d, n')
      \<and> min (2 ^ nat k * (500 * millisecond)) (30 * second) div 2 \<le> d
      \<and> d \<le> min (2 ^ nat k * (500 * millisecond)) (30 * second)))
    \<and> defaultBackoff t 35 n = (Inl (Panic ''invalid argument to Int64N''), n)"
  by (intro conjI impI backoff_bounds backoff_overflows) (auto dest: assms)

lemma backoff_within_bounds_witness:
  "\<exists>d n'. defaultBackoff demo_transport 3 0 = (Inr d, n') \<and> 2000000000 \<le> d \<and> d \<le> 4000000000"
  using backoff_within_bounds [of demo_transport 3 0]
  by (force simp: demo_transport_def unit_defs)

text \<open>C19: A call about one record asks for nothing else, with two exceptions: every request that
  \<open>GetUser\<close> and \<open>Patch\<close> send, retries included, is for the base, \<open>Users/\<close> and the id in a form
  that ends no path segment and from which the id can be read back; only the ids \<open>.\<close> and \<open>..\<close>,
  which escaping leaves alone, are resolved away, to \<open>Users/\<close> and to the base itself. The base is
  a URL without query or fragment.\<close>

theorem record_path_contained:
  fixes ident :: string
  assumes "client_New t opts = Inr c" and "\<forall>ch \<in> set (co_BaseURL opts). ch \<notin> set ''?#''"
  defines "addressed \<equiv> \<lambda>rq. rq_URL rq = record_url (cl_base c) ident"
  shows "env_steps c addressed (env w) (env (snd (GetUser c ident w)))
    \<and> env_steps c addressed (env w) (env (snd (Patch c ident op w)))
    \<and> CHR ''/'' \<notin> set (PathEscape ident) \<and> CHR ''?'' \<notin> set (PathEscape ident)
    \<and> unescape False (PathEscape ident) = ident"
proof -
  define b where "b = trim_right_slash (co_BaseURL opts)"
  have "set b \<subseteq> set (co_BaseURL opts)"
    using set_dropWhileD by (fastforce simp: b_def trim_right_slash_def)
  then have "\<forall>ch \<in> set b. ch \<notin> set ''?#''" using assms(2) by blast
  note dir = base_dir_slash [OF this]
  have "cl_base c = b @ ''/''"
    using assms(1) by (auto simp: client_New_def b_def Let_def split: if_splits)
  with resolve_any_record [of "cl_base c" ident] dir
  have url: "resolve (cl_base c) (''Users/'' @ PathEscape ident) = record_url (cl_base c) ident" by simp
  have sent: "addressed (build_request c meth (resolve (cl_base c) (''Users/'' @ PathEscape ident)) body)" for meth body
    by (simp add: addressed_def build_request_def url [simplified])
  have "env_steps c addressed (env w) (env (snd (GetUser c ident w)))"
    by (rule do_request_steps [where P = addressed, OF _ sent]) (simp add: GetUser_def prod_eq_iff)
  moreover have "env_steps c addressed (env w) (env (snd (Patch c ident op w)))"
    by (rule do_request_steps [where P = addressed, OF _ sent]) (simp add: Patch_def prod_eq_iff)
  ultimately show ?thesis using PathEscape_chars unescape_PathEscape by auto
qed

definition demo_client_options :: "nat client_options" where
  "demo_client_options = \<lparr>co_BaseURL = ''https://directory.example/scim/v2'', co_Token = ''secret'',
     co_HTTPClient = None, co_MaxRetries = 0, co_RequestsPerSecond = 0, co_UserAgent = [],
     co_Sleep = None, co_Backoff = None\<rparr>"

lemma record_path_contained_witness:
  "\<exists>c. client_New demo_transport demo_client_options = Inr c
     \<and> env_steps c (\<lambda>rq. rq_URL rq = ''https://directory.example/scim/v2/Users/a%2Fb%3Fc'')
         0 (env (snd (GetUser c ''a/b?c'' \<lparr>lim_next = 0, env = 0\<rparr>)))"
proof -
  have "\<not> isl (client_New demo_transport demo_client_options)"
    and base: "map_sum id cl_base (client_New demo_transport demo_client_options) = Inr ''https://directory.example/scim/v2/''"
    by code_simp+
  then obtain c where c: "client_New demo_transport demo_client_options = Inr c"
    by (cases "client_New demo_transport demo_client_options") auto
  have esc: "PathEscape ''a/b?c'' = ''a%2Fb%3Fc''" by code_simp
  have "\<forall>ch \<in> set (co_BaseURL demo_client_options). ch \<notin> set ''?#''"
    by (simp add: demo_client_options_def)
  from record_path_contained [OF c this, where ident = "''a/b?c''" and w = "\<lparr>lim_next = 0, env = 0\<rparr>"] base c esc show ?thesis
    by (simp add: record_url_def)
qed

text \<open>C20: The throttle spaces its slots: callers get slots in the order they take the lock, none
  before its arrival, and any two at least the interval apart.\<close>

theorem throttle_spaces_requests:
  assumes "0 < perSecond" and "\<forall>now \<in> set nows. lo \<le> now \<and> now \<le> hi" and "next0 \<le> hi"
    and "hi + int (length nows) * newLimiter perSecond - lo \<le> int64_max"
  shows "sorted_wrt (\<lambda>a b. a + newLimiter perSecond \<le> b) (slots (newLimiter perSecond) next0 nows)
    \<and> list_all2 (\<le>) nows (slots (newLimiter perSecond) next0 nows)"
  using slots_spaced [OF newLimiter_nonneg assms(2-4)] by blast

lemma throttle_spaces_requests_witness:
  "slots (newLimiter 5) 0 [0, 0, 300000000] = [0, 200000000, 400000000]
   \<and> sorted_wrt (\<lambda>a b. a + newLimiter 5 \<le> b) (slots (newLimiter 5) 0 [0, 0, 300000000])"
proof -
  have five: "newLimiter 5 = 200000000" by (simp add: newLimiter_def second_def)
  have "slots (newLimiter 5) 0 [0, 0, 300000000] = [0, 200000000, 400000000]"
    by (simp add: five take_slot_def time_sub_def time_defs int64_min_def int64_max_def)
  with throttle_spaces_requests [of 5 "[0, 0, 300000000]" 0 300000000 0] five show ?thesis
    by (simp add: int64_max_def)
qed

end
