(* ===== verification/Worker_Properties.thy ===== *)
theory Worker_Properties
  imports Scenario
begin

text \<open>
  The properties of the running worker: any client, any store that keeps the contract, any
  number of cycles of either kind with the outside world moving in between. The witnesses are
  instances at the run of \<open>Scenario\<close>.
\<close>

lemmas demo_contract = mem.store_contract_axioms

lemma demo_lookup:
  assumes "enabled_at d p = Some b"
  obtains h where "mem_accounts (p_store p) d = Some h" "h_Enabled h = b"
  using assms by (auto simp: enabled_at_def)

lemma demo_after_each:
  "enabled_at ''d1'' (runFull demo_worker demo_process) = Some False"
  "enabled_at ''d2'' (runFull demo_worker demo_process) = Some True"
  "enabled_at ''d9'' (runFull demo_worker demo_process) = Some True"
  using demo_after by simp_all

lemma demo_start: "p_store demo_process = demo_store" "p_alerts demo_process = no_alerts"
  "p_world demo_process = (demo_net, demo_store)"
  by (simp_all add: demo_process_def)

text \<open>C1: An account that is enabled at some point of a worker's life and disabled later was
  disabled by a record of that identity whose active flag is explicitly false.\<close>

theorem only_inactive_disables:
  assumes "store_contract store ok accounts saved rnd" and "life (worker c store opts) p q"
    and "ok (p_store p)" and "accounts (p_store p) d = Some h" and "h_Enabled h"
    and "accounts (p_store q) d = Some h'" and "\<not> h_Enabled h'"
  shows "\<exists>u. page_served c u \<and> u_ID u = d \<and> u_Active u = Some False"
  using evolves_disables_inactive [OF life_store(2) [OF assms(1-3)] assms(4-7)] by blast

lemma only_inactive_disables_witness:
  "\<exists>u. page_served demo_client u \<and> u_ID u = ''d1'' \<and> u_Active u = Some False"
proof -
  obtain h where h: "mem_accounts (p_store demo_process) ''d1'' = Some h" "h_Enabled h"
    using demo_before(1) by (auto elim: demo_lookup)
  obtain h' where h': "mem_accounts (p_store (runFull demo_worker demo_process)) ''d1'' = Some h'" "\<not> h_Enabled h'"
    using demo_after_each(1) by (auto elim: demo_lookup)
  show ?thesis
    by (rule only_inactive_disables [OF demo_contract demo_life [unfolded demo_worker_def] _ h(1,2)])
      (use h' demo_ok in \<open>simp_all add: demo_start demo_worker_def\<close>)
qed

text \<open>C2: An account that did not exist and exists later was created for a record of that
  identity whose active flag is explicitly true: nobody is created disabled or by guesswork.\<close>

theorem only_active_creates:
  assumes "store_contract store ok accounts saved rnd" and "life (worker c store opts) p q"
    and "ok (p_store p)" and "accounts (p_store p) d = None" and "accounts (p_store q) d = Some h"
  shows "\<exists>u. page_served c u \<and> u_ID u = d \<and> u_Active u = Some True"
  using evolves_creates_active [OF life_store(2) [OF assms(1-3)] assms(4)] assms(5) by blast

lemma only_active_creates_witness:
  "\<exists>u. page_served demo_client u \<and> u_ID u = ''d2'' \<and> u_Active u = Some True"
proof -
  obtain h where h: "mem_accounts (p_store (runFull demo_worker demo_process)) ''d2'' = Some h"
    using demo_after_each(2) by (auto elim: demo_lookup)
  have "mem_accounts (p_store demo_process) ''d2'' = None"
    using demo_before(2) by (simp add: enabled_at_def)
  with only_active_creates [OF demo_contract demo_life [unfolded demo_worker_def] _ _ h [unfolded demo_worker_def]]
    demo_ok
  show ?thesis by (simp add: demo_start)
qed

text \<open>C3: No account ever disappears or changes its id, whatever the worker is served; and an account that
  did change is, in its flag, its name and its login, exactly as a usable record of that identity asks.\<close>

theorem identifiers_stable:
  assumes "store_contract store ok accounts saved rnd" and "life (worker c store opts) p q"
    and "ok (p_store p)" and "accounts (p_store p) d = Some h"
  shows "\<exists>h'. accounts (p_store q) d = Some h' \<and> h_ID h' = h_ID h \<and> h_CreatedAt h' = h_CreatedAt h
    \<and> (h' = h \<or> (\<exists>u. page_served c u \<and> u_ID u = d \<and> validate u = [] \<and> desired u (Some h')))"
  using evolves_traced [OF life_store(2) [OF assms(1-3)] assms(4)] .

lemma identifiers_stable_witness:
  "\<exists>h h'. mem_accounts demo_store ''d1'' = Some h \<and> h_ID h' = h_ID h
     \<and> mem_accounts (p_store (runFull demo_worker demo_process)) ''d1'' = Some h'"
proof -
  obtain h where h: "mem_accounts (p_store demo_process) ''d1'' = Some h"
    using demo_before(1) by (auto elim: demo_lookup)
  show ?thesis
    using identifiers_stable [OF demo_contract demo_life [unfolded demo_worker_def] _ h] h demo_ok
    by (auto simp: demo_start demo_worker_def)
qed

text \<open>C4: Absence is not a signal: an identity no record of the directory speaks about keeps
  its account exactly as it was, through every cycle.\<close>

theorem absence_untouched:
  assumes "store_contract store ok accounts saved rnd" and "life (worker c store opts) p q"
    and "ok (p_store p)" and "\<And>u. page_served c u \<Longrightarrow> u_ID u \<noteq> d"
  shows "accounts (p_store q) d = accounts (p_store p) d"
  using evolves_frame [OF life_store(2) [OF assms(1-3)]] assms(4) by blast

lemma absence_untouched_witness:
  "mem_accounts (p_store (runFull demo_worker demo_process)) ''d9'' = mem_accounts demo_store ''d9''"
  using absence_untouched [OF demo_contract demo_life [unfolded demo_worker_def], of "''d9''"]
    demo_records demo_ok
  by (fastforce simp: demo_start demo_worker_def)

text \<open>C5: The checkpoint never moves back during a worker's life, and where it moves to is a
  timestamp the directory issued, in the precision the store keeps. This is so in a store whose
  precision keeps the order of the timestamps in \<open>T\<close>, as long as those the directory issues, and
  the checkpoint at the start, are in \<open>T\<close>: all timestamps for the memory store, for the
  PostgreSQL store all but those of the first second of 1970, which it reads as "never".\<close>

theorem checkpoint_monotone:
  assumes "store_contract store ok accounts saved rnd" and "rounds_in_order rnd T"
    and "\<And>u. page_served c u \<Longrightarrow> LastModified u \<in> T"
    and "life (worker c store opts) p q" and "ok (p_store p)" and "saved (p_store p) \<in> T"
  shows "saved (p_store p) \<le> saved (p_store q)
    \<and> (saved (p_store q) = saved (p_store p)
       \<or> (\<exists>u. page_served c u \<and> saved (p_store q) = rnd (LastModified u)))"
  using life_checkpoint [OF assms] life_store(3) [OF assms(1,4,5)] by blast

lemma checkpoint_monotone_witness:
  "ms_checkpoint demo_store \<le> ms_checkpoint (p_store (runFull demo_worker demo_process))"
  using checkpoint_monotone [OF demo_contract exact_rounds_in_order _ demo_life [unfolded demo_worker_def]] demo_ok
  by (simp add: demo_start demo_worker_def)

text \<open>How a cycle may leave the checkpoint.\<close>

definition guarded_move :: "'n client \<Rightarrow> options \<Rightarrow> (time \<Rightarrow> time) \<Rightarrow> goerror option \<Rightarrow> time \<Rightarrow> time \<Rightarrow> bool" where
  "guarded_move c opts rnd err old new =
     (new = old \<or>
      err = None \<and> (\<exists>u t n n'. page_served c u \<and> new = rnd (LastModified u) \<and> old < LastModified u
        \<and> t_Now (cl_t c) n = (t, n')
        \<and> LastModified u \<le> t + (if o_FutureSkew opts = 0 then DefaultFutureSkew else o_FutureSkew opts)))"

lemma may_advance_guarded:
  assumes "may_advance (worker c store opts) (page_served c) old cp" and "err = None"
  shows "guarded_move c opts rnd err old (rnd cp)"
proof -
  from assms(1) obtain u w t w1 where u: "page_served c u" "LastModified u = cp" "old < cp"
    and t: "now (worker c store opts) w = (t, w1)" "cp \<le> t + futureSkew (worker c store opts)"
    unfolding may_advance_def by blast
  from t(1) obtain n n' where "t_Now (cl_t c) n = (t, n')"
    by (auto simp: worker_now_def in_env_iff split: prod.splits)
  with u t(2) assms(2) show ?thesis
    unfolding guarded_move_def by (intro disjI2 conjI exI [of _ u] exI [of _ t] exI [of _ n] exI [of _ n'])
      (simp_all add: worker_def syncer_New_def)
qed

text \<open>C6: A cycle of either kind that returns an error leaves the checkpoint where it was; one
  that moves it moves it forward to a timestamp the directory issued, at most the allowed skew
  ahead of the clock it read.\<close>

theorem checkpoint_guard:
  assumes "store_contract store ok accounts saved rnd" and "ok (snd w)"
  shows "(case Incremental (worker c store opts) m w of ((sts, err), m', w') \<Rightarrow>
       guarded_move c opts rnd err (saved (snd w)) (saved (snd w')))
    \<and> (case Full (worker c store opts) m w of ((sts, d, err), m', w') \<Rightarrow>
       guarded_move c opts rnd err (saved (snd w)) (saved (snd w')))"
proof
  have guard: "guarded_move c opts rnd err (saved (snd w)) new"
    if "new = saved (snd w) \<or> (err = None \<and> new = rnd (stats_Checkpoint sts)
         \<and> may_advance (worker c store opts) (page_served c) (saved (snd w)) (stats_Checkpoint sts))"
    for sts err new
    using that
  proof
    assume "new = saved (snd w)"
    then show ?thesis by (simp add: guarded_move_def)
  qed (metis may_advance_guarded)
  show "case Incremental (worker c store opts) m w of ((sts, err), m', w') \<Rightarrow>
       guarded_move c opts rnd err (saved (snd w)) (saved (snd w'))"
    using worker_cycle_summary(1) [OF assms, where c = c and opts = opts and m = m]
    by (clarsimp split: prod.splits) (rule guard, assumption)
  show "case Full (worker c store opts) m w of ((sts, d, err), m', w') \<Rightarrow>
       guarded_move c opts rnd err (saved (snd w)) (saved (snd w'))"
    using worker_cycle_summary(2) [OF assms, where c = c and opts = opts and m = m]
    by (clarsimp split: prod.splits) (rule guard, assumption)
qed

lemma checkpoint_guard_witness:
  "case Full demo_worker no_alerts (demo_net, demo_store) of ((sts, d, err), m', w') \<Rightarrow>
     ms_checkpoint (snd w') = 63902919846000000000
     \<and> guarded_move demo_client (demo_options False) (\<lambda>t. t) err 0 (ms_checkpoint (snd w'))"
proof -
  have "ms_checkpoint demo_store = 0" by code_simp
  with checkpoint_guard [OF demo_contract, of "(demo_net, demo_store)" demo_client "demo_options False" no_alerts]
    demo_ok demo_result show ?thesis
    by (auto simp: demo_worker_def split: prod.splits)
qed

text \<open>C7: A cycle that succeeds for real has fetched every page of its walk and handed every record
  of every page to the callback, as many as it counts as scanned; every identity with a usable
  record among them has the account the last of these asks for, no other account moved, and the
  checkpoint has not passed an unusable record that carries a timestamp.\<close>

definition converged :: "'n client \<Rightarrow> user list \<Rightarrow> stats \<Rightarrow> time \<Rightarrow> table \<Rightarrow> table \<Rightarrow> bool" where
  "converged c us sts old T T' \<longleftrightarrow>
     (\<forall>u \<in> set us. page_served c u) \<and> Scanned sts = length us \<and> applied us T T'
     \<and> (stats_Checkpoint sts = old \<or> holds_back us (stats_Checkpoint sts))"

theorem cycle_converges:
  assumes "store_contract store ok accounts saved rnd" and "ok (snd w)" and "\<not> o_DryRun opts"
  shows "(case Incremental (worker c store opts) m w of ((sts, err), m', w') \<Rightarrow> err = None \<longrightarrow>
       walk_complete c (worker c store opts) (cycle_filter (worker c store opts) w) None m
         (cycle_start (worker c store opts) w) (incremental_handed c store opts m w)
       \<and> converged c (incremental_handed c store opts m w) sts (saved (snd w)) (accounts (snd w)) (accounts (snd w')))
    \<and> (case Full (worker c store opts) m w of ((sts, d, err), m', w') \<Rightarrow> err = None \<longrightarrow>
       walk_complete c (worker c store opts) [] (Some observe_drift) m
         (cycle_start (worker c store opts) w) (full_handed c store opts m w)
       \<and> converged c (full_handed c store opts m w) sts (saved (snd w)) (accounts (snd w)) (accounts (snd w')))"
proof -
  note r = worker_reconciler [OF assms(1), of c opts]
  have real: "\<not> dryRun (worker c store opts)" using assms(3) by simp
  have i: "walk_complete c (worker c store opts) (cycle_filter (worker c store opts) w) None m
         (cycle_start (worker c store opts) w) (incremental_handed c store opts m w)
       \<and> converged c (incremental_handed c store opts m w) sts (saved (snd w)) (accounts (snd w)) (accounts (snd w'))"
    if "Incremental (worker c store opts) m w = ((sts, None), m', w')" for sts m' w'
    using reconciler.incremental_success [OF r that assms(2) real incremental_walks_over] incremental_walk_complete [OF that]
    unfolding converged_def by blast
  have f: "walk_complete c (worker c store opts) [] (Some observe_drift) m
         (cycle_start (worker c store opts) w) (full_handed c store opts m w)
       \<and> converged c (full_handed c store opts m w) sts (saved (snd w)) (accounts (snd w)) (accounts (snd w'))"
    if "Full (worker c store opts) m w = ((sts, d, None), m', w')" for sts d m' w'
    using reconciler.full_success [OF r that assms(2) real full_walks_over] full_walk_complete [OF that]
    unfolding converged_def by blast
  show ?thesis by (intro conjI) (clarsimp split: prod.splits, frule i f, simp)+
qed

lemma demo_handed: "map u_ID (full_handed demo_client mem_ops (demo_options False) no_alerts (demo_net, demo_store)) = [''d1'', ''d2'', ''d3'']"
  by code_simp

lemma cycle_converges_witness:
  "case Full demo_worker no_alerts (demo_net, demo_store) of ((sts, d, err), m', w') \<Rightarrow>
     converged demo_client (full_handed demo_client mem_ops (demo_options False) no_alerts (demo_net, demo_store)) sts
       (ms_checkpoint demo_store) (mem_accounts demo_store) (mem_accounts (snd w'))
     \<and> Scanned sts = 3"
proof -
  have "\<not> o_DryRun (demo_options False)" by (simp add: demo_options_def)
  from cycle_converges [OF demo_contract _ this, of "(demo_net, demo_store)" demo_client no_alerts]
    demo_ok demo_result show ?thesis
    by (fastforce simp: demo_worker_def split: prod.splits)
qed

text \<open>C10: The drift report of a full walk that succeeded: the accounts it calls absent are exactly
  those enabled after the cycle that none of the records handed over by the walk is about, usable
  or not, without repetition, and the cycle left them as they were.\<close>

theorem drift_absent:
  assumes "store_contract store ok accounts saved rnd" and "ok (snd w)"
    and "Full (worker c store opts) m w = ((sts, d, None), m', w')"
  shows "set (AbsentFromDirectory d) = {i. i \<notin> u_ID ` set (full_handed c store opts m w)
        \<and> (\<exists>h. accounts (snd w') i = Some h \<and> h_Enabled h)}
    \<and> distinct (AbsentFromDirectory d)
    \<and> (\<forall>i \<in> set (AbsentFromDirectory d). accounts (snd w') i = accounts (snd w) i)"
  using reconciler.full_absent [OF worker_reconciler [OF assms(1)] assms(3) _ full_walks_over] assms(2) by blast

lemma drift_absent_witness:
  "\<exists>sts d m' w'. Full demo_worker no_alerts (demo_net, demo_store) = ((sts, d, None), m', w')
     \<and> AbsentFromDirectory d = [''d9'']
     \<and> {i. i \<notin> {''d1'', ''d2'', ''d3''} \<and> (\<exists>h. mem_accounts (snd w') i = Some h \<and> h_Enabled h)} = {''d9''}
     \<and> mem_accounts (snd w') ''d9'' = mem_accounts demo_store ''d9''"
proof -
  obtain sts d m' w' where run: "Full demo_worker no_alerts (demo_net, demo_store) = ((sts, d, None), m', w')"
    and d: "AbsentFromDirectory d = [''d9'']"
    using demo_result by (auto split: prod.splits)
  have "u_ID ` set (full_handed demo_client mem_ops (demo_options False) no_alerts (demo_net, demo_store)) = {''d1'', ''d2'', ''d3''}"
    using arg_cong [OF demo_handed, of set] by simp
  with drift_absent [OF demo_contract _ run [unfolded demo_worker_def]] demo_ok d run show ?thesis by simp
qed

text \<open>C11: A dry run, of either kind and however it ends, writes nothing: every request is a GET
  without a body, and the store is left exactly as it was, checkpoint included.\<close>

theorem dry_run_reads_only:
  assumes "reads_silently store" and "o_DryRun opts"
  shows "net_step c is_get (p_world p) (p_world (runFull (worker c store opts) p))
    \<and> net_step c is_get (p_world p) (p_world (runIncremental (worker c store opts) p))"
proof -
  note q = worker_quiet [OF assms(1), of c opts]
  have "dryRun (worker c store opts)" using assms(2) by simp
  with quiet_reads.dry_full [OF q, of "p_alerts p" "p_world p"]
    quiet_reads.dry_incremental [OF q, of "p_alerts p" "p_world p"]
  show ?thesis by (auto simp: runFull_def runIncremental_def split: prod.splits)
qed

lemma dry_run_reads_only_witness:
  "p_store (runFull (worker demo_client mem_ops (demo_options True)) demo_process) = demo_store"
  using dry_run_reads_only [OF mem_reads_silently, of "demo_options True" demo_client demo_process]
  by (simp add: demo_options_def net_step_def demo_start)

text \<open>C12: An incremental cycle raises exactly one alert for each key it alerts on for the first
  time in the process, and never one for a key alerted on before.\<close>

theorem alerts_once_per_key:
  assumes "store_contract store ok accounts saved rnd" and "ok (snd w)"
  shows "case Incremental (worker c store opts) m w of (res, m', w') \<Rightarrow>
     alerted m \<subseteq> alerted m' \<and> finite (alerted m' - alerted m)
     \<and> length (raised m') = length (raised m) + card (alerted m' - alerted m)"
  using worker_cycle_summary(1) [OF assms, where c = c and opts = opts and m = m]
  by (auto simp: alert_growth_def split: prod.splits)

lemma alerts_once_per_key_witness:
  "case Incremental demo_worker no_alerts (demo_net, demo_store) of (res, m', w') \<Rightarrow>
     length (raised m') = card (alerted m')"
  using alerts_once_per_key [OF demo_contract, where w = "(demo_net, demo_store)" and c = demo_client
      and opts = "demo_options False" and m = no_alerts]
    demo_ok by (auto simp: demo_worker_def no_alerts_def split: prod.splits)

text \<open>C13: Each record a cycle of either kind scans has at most one outcome, whatever the store
  does: the counters never exceed the records scanned, and a cycle that succeeds has met no more
  unusable records than the limit. When the store keeps its contract, so that between its calls
  nobody else writes to it, a cycle that succeeds has counted every record; a creation that was
  lost to another worker is counted nowhere.\<close>

theorem every_record_counted:
  "(case Incremental (worker c store opts) m w of ((sts, err), m', w') \<Rightarrow>
      tallied (worker c store opts) sts err
      \<and> (store_contract store ok accounts saved rnd \<longrightarrow> ok (snd w) \<longrightarrow> err = None \<longrightarrow> Scanned sts = outcomes sts))
   \<and> (case Full (worker c store opts) m w of ((sts, d, err), m', w') \<Rightarrow>
      tallied (worker c store opts) sts err
      \<and> (store_contract store ok accounts saved rnd \<longrightarrow> ok (snd w) \<longrightarrow> err = None \<longrightarrow> Scanned sts = outcomes sts))"
proof -
  have "dir (worker c store opts) = client_dir c" by simp
  note tallied = directory_contract.incremental_counted [OF client_dir_contract _ this]
    directory_contract.full_counted [OF client_dir_contract _ this]
  note r = worker_reconciler [of store ok accounts saved rnd c opts]
  show ?thesis
    by (intro conjI)
      (clarsimp split: prod.splits, frule tallied, simp add: reconciler.incremental_accounting(2) [OF r]
        reconciler.full_accounting [OF r])+
qed

lemma every_record_counted_witness:
  "case Full demo_worker no_alerts (demo_net, demo_store) of ((sts, d, err), m', w') \<Rightarrow> outcomes sts = 3"
  using every_record_counted [where c = demo_client and store = mem_ops and opts = "demo_options False" and m = no_alerts
      and w = "(demo_net, demo_store)" and ok = mem_ok and accounts = mem_accounts and saved = ms_checkpoint
      and rnd = "\<lambda>t. t"] demo_contract demo_ok demo_result
  by (auto simp: demo_worker_def split: prod.splits)

end
