(* ===== verification/Data_Properties.thy ===== *)
theory Data_Properties
  imports Client_Properties Worker_Properties
begin

text \<open>
  The properties of the data the worker reads and writes: filters, SCIM records and
  errors, the memory store, and the replay of a record.
\<close>

text \<open>The filter of an incremental walk names a moment the directory can parse, which lies
  at most one second before the checkpoint less the overlap and never after it: no record the
  overlap should fetch again is filtered out.\<close>

lemma filter_covers_overlap:
  assumes "\<not> is_zero cp" and "0 \<le> cp - overlap s" and "cp - overlap s < max_rfc3339"
  shows "\<exists>ts bound. incremental_filter s cp = ''meta.lastModified gt '' @ quote ts
    \<and> parse_rfc3339 ts = Some bound \<and> bound \<le> cp - overlap s \<and> cp - overlap s < bound + second"
proof -
  have "parse_rfc3339 (format_rfc3339 (cp - overlap s)) = Some (cp - overlap s - (cp - overlap s) mod second)"
    using parse_format_rfc3339 [OF assms(2,3)] by (simp add: second_def)
  moreover have "0 \<le> (cp - overlap s) mod second" "(cp - overlap s) mod second < second"
    by (simp_all add: second_def)
  ultimately show ?thesis
    using assms(1) by (auto simp: incremental_filter_def)
qed

lemma filter_covers_overlap_witness:
  "\<exists>ts bound. incremental_filter demo_worker 63902919845123456789 = ''meta.lastModified gt '' @ quote ts
     \<and> parse_rfc3339 ts = Some bound \<and> bound \<le> 63902919725123456789"
proof -
  have "overlap demo_worker = 120000000000" by code_simp
  with filter_covers_overlap [of 63902919845123456789 demo_worker] show ?thesis
    by (auto simp: is_zero_def zero_time_def max_rfc3339_def days_before_year_def seconds_per_day_def second_def)
qed

text \<open>C23: A record without the member \<open>active\<close>, in any spelling of its case, decodes with no
  flag: absence can never be read as "disabled".\<close>

theorem missing_flag_is_no_flag:
  assumes "dec_user (JObj kvs) zero_user = Some u"
    and "\<And>k. k \<in> fst ` set kvs \<Longrightarrow> to_lower k \<noteq> ''active''"
  shows "u_Active u = None \<and> validate u \<noteq> []"
  using missing_active [OF assms] by (simp add: validate_def)

lemma missing_flag_is_no_flag_witness:
  "map_option u_Active (dec_user (JObj [(''id'', JStr ''d3'')]) zero_user) = Some None"
proof -
  obtain u where u: "dec_user (JObj [(''id'', JStr ''d3'')]) zero_user = Some u"
  proof -
    have "dec_user (JObj [(''id'', JStr ''d3'')]) zero_user \<noteq> None" by code_simp
    with that show ?thesis by blast
  qed
  have "to_lower ''id'' \<noteq> ''active''" by code_simp
  with missing_flag_is_no_flag [OF u] u show ?thesis by simp
qed

text \<open>The only write of the client, byte for byte what the directory can parse: the body of a
  write-back is one operation that replaces \<open>externalId\<close> by the identifier, whatever characters
  the identifier has.\<close>

lemma write_back_body:
  "json_first (print_json (enc_patch_op (NewExternalIDPatch x))) =
     Some (JObj [(''schemas'', JArr [JStr SchemaPatchOp]),
       (''Operations'', JArr [JObj [(''op'', JStr ''replace''), (''path'', JStr ''externalId''), (''value'', JStr x)]])])"
proof -
  have enc: "enc_patch_op (NewExternalIDPatch x) = JObj [(''schemas'', JArr [JStr SchemaPatchOp]),
       (''Operations'', JArr [JObj [(''op'', JStr ''replace''), (''path'', JStr ''externalId''), (''value'', JStr x)]])]"
    by (simp add: enc_patch_op_def NewExternalIDPatch_def enc_operation_def)
  show ?thesis unfolding enc by (rule parse_print(2)) simp
qed

text \<open>An error answer whose body is not a SCIM error keeps the body's text, trimmed and cut
  to 512 bytes: a gateway's own message is not lost.\<close>

theorem foreign_error_text_kept:
  assumes "read_limited resp = Some body" and "body \<noteq> []"
    and "\<And>v e. json_whole body = Some v \<Longrightarrow> dec_scim_error v zero_scim_error = Some e \<Longrightarrow> \<not> looksLikeSCIM e"
  shows "se_Detail (decodeError resp) = truncate_text (trim_space body) 512
    \<and> se_HTTPStatus (decodeError resp) = rs_StatusCode resp
    \<and> length (se_Detail (decodeError resp)) \<le> 515"
  using assms length_truncate [of "trim_space body" 512]
  by (auto simp: decodeError_def Let_def split: option.splits)

definition blocked_response :: response where
  "blocked_response = \<lparr>rs_StatusCode = 403, rs_Header = [], rs_Body = '' <h1>blocked</h1> '', rs_Broken = False\<rparr>"

lemma foreign_error_text_kept_witness:
  "se_Detail (decodeError blocked_response) = ''<h1>blocked</h1>''"
proof -
  have body: "read_limited blocked_response = Some '' <h1>blocked</h1> ''"
    by (simp add: read_limited_def blocked_response_def body_limit_def)
  have "json_whole '' <h1>blocked</h1> '' = None" by code_simp
  moreover have "truncate_text (trim_space '' <h1>blocked</h1> '') 512 = ''<h1>blocked</h1>''"
    by (simp add: truncate_text_def trim_space_def is_space_def)
  ultimately show ?thesis using foreign_error_text_kept [OF body] by simp
qed

text \<open>C22: The memory store keeps the store's contract, with the table of helppers its two maps of
  pointers amount to as the abstraction: creations are unique by directory id, updates change one
  account, a listing is the enabled accounts.\<close>

theorem memory_store_keeps_contract:
  "store_contract mem_ops mem_ok mem_accounts ms_checkpoint (\<lambda>t. t)"
  by (rule mem.store_contract_axioms)

text \<open>Replay is free: applying a record to an account that already is as it asks, with the
  identifier already on the record, only reads; the counters say one record scanned, one
  unchanged.\<close>

theorem replay_is_free:
  assumes "store_contract store ok accounts saved rnd" and "reads_silently store" and "ok (snd w)"
    and "HelpperByDirectoryID store (u_ID u) (snd w) = (Inr p, s)" and "validate u = []"
    and "desired u (accounts (snd w) (u_ID u))" and "u_ExternalID u = h_ID p"
  shows "\<exists>rec. apply_record (worker c store opts) u \<lparr>r_stats = sts, r_alerts = m, r_world = w\<rparr> =
    (Inr rec, \<lparr>r_stats = sts\<lparr>Scanned := Suc (Scanned sts), Unchanged := Suc (Unchanged sts)\<rparr>,
       r_alerts = m, r_world = w\<rparr>)"
proof -
  note r = worker_reconciler [OF assms(1), of c opts]
  have s: "s = snd w" using assms(2,4) by (auto simp: reads_silently_def)
  have lookup: "HelpperByDirectoryID (st (worker c store opts)) (u_ID u)
      (r_world \<lparr>r_stats = sts, r_alerts = m, r_world = w\<rparr>) = (Inr p, w)"
    using assms(4) by (simp add: beside_def on_snd_def s)
  have counters: "Unchanged_update Suc (Scanned_update Suc sts) =
      sts\<lparr>Scanned := Suc (Scanned sts), Unchanged := Suc (Unchanged sts)\<rparr>"
    by (cases sts) simp
  from reconciler.apply_converged_is_noop [OF r lookup _ assms(5)] assms(3,6,7) show ?thesis
    by (simp add: counters)
qed

lemma replay_is_free_witness:
  "\<exists>rec p u. mem_HelpperByDirectoryID ''d1'' demo_store = (Inr p, demo_store) \<and> u_ID u = ''d1'' \<and>
     apply_record demo_worker u \<lparr>r_stats = zero_stats, r_alerts = no_alerts, r_world = (demo_net, demo_store)\<rparr> =
     (Inr rec, \<lparr>r_stats = zero_stats\<lparr>Scanned := 1, Unchanged := 1\<rparr>, r_alerts = no_alerts,
        r_world = (demo_net, demo_store)\<rparr>)"
proof -
  obtain p where p: "mem_accounts demo_store ''d1'' = Some p" "h_Enabled p"
    using demo_before(1) by (auto simp: enabled_at_def demo_start)
  then have lookup: "mem_HelpperByDirectoryID ''d1'' demo_store = (Inr p, demo_store)"
    by (auto simp: mem_accounts_def mem_HelpperByDirectoryID_def)
  define u where "u = zero_user\<lparr>u_ID := ''d1'', u_ExternalID := h_ID p, u_UserName := h_Login p,
     u_DisplayName := h_DisplayName p, u_Active := Some True\<rparr>"
  have login: "h_Login p = ''login-d1''"
  proof -
    have "map_option h_Login (mem_accounts demo_store ''d1'') = Some ''login-d1''" by code_simp
    with p show ?thesis by simp
  qed
  have u: "validate u = []" "u_ExternalID u = h_ID p" "u_ID u = ''d1''"
    "desired u (mem_accounts (snd (demo_net, demo_store)) (u_ID u))"
    using p by (simp_all add: u_def validate_def zero_user_def desired_def login)
  have "HelpperByDirectoryID mem_ops (u_ID u) (snd (demo_net, demo_store)) = (Inr p, demo_store)"
    by (simp add: u lookup)
  from replay_is_free [OF demo_contract mem_reads_silently _ this u(1,4,2), of demo_client "demo_options False"
      zero_stats no_alerts] demo_ok lookup u(3)
  show ?thesis by (auto simp: demo_worker_def zero_stats_def)
qed

end
