(* ===== verification/Postgres.thy ===== *)
theory Postgres
  imports Store
begin

text \<open>
  \<open>store/postgres/postgres.go\<close>: the database-backed store. The driver and the server are not
  part of the repository: what a statement answers is a field of \<open>pg_pool\<close>, one per statement
  of the source, a parameter of every operation here. The locale \<open>pg_database\<close> states what the
  operations rely on: the meaning of the six statements on the tables of
  \<open>migrations/0001_init.sql\<close>. Under it the store keeps the contract of \<open>store.Store\<close>. The theory
  \<open>Postgres_Tables\<close> has an instance of it.

  A statement that fails is assumed to have changed nothing: the loss of a connection after
  the server committed is not covered.
\<close>

section \<open>The statements\<close>

text \<open>
  Each returns what \<open>QueryRow(...).Scan\<close>, \<open>Exec\<close> or \<open>Query\<close> does. The listing has a row per
  result, each with the outcome of its \<open>Scan\<close>, and the final \<open>rows.Err()\<close>.
\<close>

record 'w pg_pool =
  q_by_directory_id :: "string \<Rightarrow> 'w \<Rightarrow> helpper result \<times> 'w"
  q_insert :: "new_helpper \<Rightarrow> 'w \<Rightarrow> helpper result \<times> 'w"
  x_update :: "string \<Rightarrow> helpper_update \<Rightarrow> 'w \<Rightarrow> nat result \<times> 'w"
  q_enabled :: "'w \<Rightarrow> (helpper result list \<times> goerror option) result \<times> 'w"
  q_checkpoint :: "string \<Rightarrow> 'w \<Rightarrow> time result \<times> 'w"
  x_checkpoint :: "string \<Rightarrow> time \<Rightarrow> 'w \<Rightarrow> unit result \<times> 'w"

section \<open>The store\<close>

record 'w pg_store =
  pg_pool_of :: "'w pg_pool"
  pg_partner :: string

definition pg_New :: "'w pg_pool \<Rightarrow> string \<Rightarrow> 'w pg_store" where
  "pg_New pool partner =
     \<lparr>pg_pool_of = pool, pg_partner = (if partner = [] then ''helppi'' else partner)\<rparr>"

definition scanHelpper :: "helpper result \<Rightarrow> helpper result" where
  "scanHelpper row =
     (case row of
        Inl e \<Rightarrow> if err_is e ErrNoRows then Inl (Sentinel ErrNotFound) else Inl e
      | Inr h \<Rightarrow> Inr h)"

definition pg_HelpperByDirectoryID :: "'w pg_store \<Rightarrow> string \<Rightarrow> 'w \<Rightarrow> helpper result \<times> 'w" where
  "pg_HelpperByDirectoryID s directoryID w =
     apfst scanHelpper (q_by_directory_id (pg_pool_of s) directoryID w)"

definition pg_CreateHelpper :: "'w pg_store \<Rightarrow> new_helpper \<Rightarrow> 'w \<Rightarrow> helpper result \<times> 'w" where
  "pg_CreateHelpper s nh w =
     (case apfst scanHelpper (q_insert (pg_pool_of s) nh w) of
        (Inl e, w') \<Rightarrow>
          if err_is e ErrNotFound then (Inl (Sentinel ErrAlreadyExists), w')
          else (Inl (Wrapped (''create helpper '' @ nh_DirectoryID nh) e), w')
      | (Inr h, w') \<Rightarrow> (Inr h, w'))"

definition pg_UpdateHelpper :: "'w pg_store \<Rightarrow> string \<Rightarrow> helpper_update \<Rightarrow> 'w \<Rightarrow> goerror option \<times> 'w" where
  "pg_UpdateHelpper s i upd w =
     (if atoi i = None then (Some (Sentinel ErrNotFound), w)
      else
        case x_update (pg_pool_of s) i upd w of
          (Inl e, w') \<Rightarrow> (Some (Wrapped (''update helpper '' @ i) e), w')
        | (Inr rows, w') \<Rightarrow> (if rows = 0 then Some (Sentinel ErrNotFound) else None, w'))"

text \<open>The loop over the rows: the first one that does not scan ends it.\<close>

fun scan_rows :: "helpper result list \<Rightarrow> goerror option \<Rightarrow> helpper list result" where
  "scan_rows [] err = (case err of Some e \<Rightarrow> Inl e | None \<Rightarrow> Inr [])"
| "scan_rows (row # rows) err =
     (case scanHelpper row of
        Inl e \<Rightarrow> Inl e
      | Inr h \<Rightarrow> map_sum id (\<lambda>out. h # out) (scan_rows rows err))"

definition pg_EnabledHelppers :: "'w pg_store \<Rightarrow> 'w \<Rightarrow> helpper list result \<times> 'w" where
  "pg_EnabledHelppers s w =
     (case q_enabled (pg_pool_of s) w of
        (Inl e, w') \<Rightarrow> (Inl (Wrapped ''list enabled helppers'' e), w')
      | (Inr (rows, err), w') \<Rightarrow> (scan_rows rows err, w'))"

text \<open>\<open>Time.Unix\<close>: whole seconds since 1970.\<close>

definition unix :: "time \<Rightarrow> int" where
  "unix t = t div second - 62135596800"

definition epoch_to_zero :: "time \<Rightarrow> time" where
  "epoch_to_zero t = (if unix t = 0 then zero_time else t)"

definition pg_Checkpoint :: "'w pg_store \<Rightarrow> 'w \<Rightarrow> time result \<times> 'w" where
  "pg_Checkpoint s w =
     (case q_checkpoint (pg_pool_of s) (pg_partner s) w of
        (Inl e, w') \<Rightarrow>
          (if err_is e ErrNoRows then Inr zero_time else Inl (Wrapped ''read checkpoint'' e), w')
      | (Inr t, w') \<Rightarrow> (Inr (epoch_to_zero t), w'))"

definition pg_SetCheckpoint :: "'w pg_store \<Rightarrow> time \<Rightarrow> 'w \<Rightarrow> goerror option \<times> 'w" where
  "pg_SetCheckpoint s t w =
     (case x_checkpoint (pg_pool_of s) (pg_partner s) t w of
        (Inl e, w') \<Rightarrow> (Some (Wrapped ''write checkpoint'' e), w')
      | (Inr _, w') \<Rightarrow> (None, w'))"

definition pg_ops :: "'w pg_store \<Rightarrow> 'w store_ops" where
  "pg_ops s =
     \<lparr>HelpperByDirectoryID = pg_HelpperByDirectoryID s, CreateHelpper = pg_CreateHelpper s,
      UpdateHelpper = pg_UpdateHelpper s, EnabledHelppers = pg_EnabledHelppers s,
      Checkpoint = pg_Checkpoint s, SetCheckpoint = pg_SetCheckpoint s, Ephemeral = None\<rparr>"

lemma pg_ops_simps [simp]:
  "HelpperByDirectoryID (pg_ops s) = pg_HelpperByDirectoryID s"
  "CreateHelpper (pg_ops s) = pg_CreateHelpper s"
  "UpdateHelpper (pg_ops s) = pg_UpdateHelpper s"
  "EnabledHelppers (pg_ops s) = pg_EnabledHelppers s"
  "Checkpoint (pg_ops s) = pg_Checkpoint s"
  "SetCheckpoint (pg_ops s) = pg_SetCheckpoint s"
  "Ephemeral (pg_ops s) = None"
  by (simp_all add: pg_ops_def)

section \<open>What a call can have done\<close>

lemma pg_lookup_cases:
  assumes "pg_HelpperByDirectoryID s d w = (r, w')"
  obtains (failed) e where "q_by_directory_id (pg_pool_of s) d w = (Inl e, w')"
    "r = Inl (if err_is e ErrNoRows then Sentinel ErrNotFound else e)"
  | (found) h where "q_by_directory_id (pg_pool_of s) d w = (Inr h, w')" "r = Inr h"
  using assms
  by (cases "q_by_directory_id (pg_pool_of s) d w")
    (auto simp: pg_HelpperByDirectoryID_def scanHelpper_def split: sum.splits if_splits)

lemma pg_create_cases:
  assumes "pg_CreateHelpper s nh w = (r, w')"
  obtains (failed) e where "q_insert (pg_pool_of s) nh w = (Inl e, w')"
    "r = Inl (if err_is e ErrNoRows \<or> err_is e ErrNotFound then Sentinel ErrAlreadyExists
         else Wrapped (''create helpper '' @ nh_DirectoryID nh) e)"
  | (inserted) h where "q_insert (pg_pool_of s) nh w = (Inr h, w')" "r = Inr h"
  using assms
  by (cases "q_insert (pg_pool_of s) nh w")
    (auto simp: pg_CreateHelpper_def scanHelpper_def split: sum.splits if_splits)

lemma pg_update_cases:
  assumes "pg_UpdateHelpper s i upd w = (oe, w')"
  obtains (bad_id) "atoi i = None" "oe = Some (Sentinel ErrNotFound)" "w' = w"
  | (failed) e where "x_update (pg_pool_of s) i upd w = (Inl e, w')" "oe \<noteq> None"
  | (no_row) "x_update (pg_pool_of s) i upd w = (Inr 0, w')" "oe = Some (Sentinel ErrNotFound)"
  | (updated) n where "x_update (pg_pool_of s) i upd w = (Inr (Suc n), w')" "oe = None"
  using assms
  by (cases "x_update (pg_pool_of s) i upd w"; cases "fst (x_update (pg_pool_of s) i upd w)")
    (auto simp: pg_UpdateHelpper_def gr0_conv_Suc split: if_splits)

lemma scan_rows_ok:
  assumes "scan_rows rows err = Inr hs"
  shows "err = None" and "rows = map Inr hs"
  using assms
  by (induction rows arbitrary: hs)
    (auto simp: scanHelpper_def map_sum_def split: option.splits sum.splits if_splits)

lemma pg_enabled_cases:
  assumes "pg_EnabledHelppers s w = (r, w')"
  obtains (failed) e where "q_enabled (pg_pool_of s) w = (Inl e, w')" "isl r"
  | (listed) rows err where "q_enabled (pg_pool_of s) w = (Inr (rows, err), w')" "r = scan_rows rows err"
  using assms
  by (cases "q_enabled (pg_pool_of s) w") (auto simp: pg_EnabledHelppers_def split: sum.splits)

lemma pg_checkpoint_cases:
  assumes "pg_Checkpoint s w = (r, w')"
  obtains (no_row) e where "q_checkpoint (pg_pool_of s) (pg_partner s) w = (Inl e, w')" "err_is e ErrNoRows" "r = Inr zero_time"
  | (failed) e where "q_checkpoint (pg_pool_of s) (pg_partner s) w = (Inl e, w')" "isl r"
  | (row) t where "q_checkpoint (pg_pool_of s) (pg_partner s) w = (Inr t, w')" "r = Inr (epoch_to_zero t)"
  using assms
  by (cases "q_checkpoint (pg_pool_of s) (pg_partner s) w")
    (auto simp: pg_Checkpoint_def split: sum.splits if_splits)

lemma pg_set_cases:
  assumes "pg_SetCheckpoint s t w = (oe, w')"
  obtains (failed) e where "x_checkpoint (pg_pool_of s) (pg_partner s) t w = (Inl e, w')" "oe \<noteq> None"
  | (written) "x_checkpoint (pg_pool_of s) (pg_partner s) t w = (Inr (), w')" "oe = None"
  using assms
  by (cases "x_checkpoint (pg_pool_of s) (pg_partner s) t w")
    (auto simp: pg_SetCheckpoint_def split: sum.splits)

section \<open>What the server promises\<close>

text \<open>
  \<open>tbl w\<close> is the table \<open>helppers\<close> by directory id, \<open>ck w\<close> the table \<open>directory_sync_state\<close>, and
  \<open>stored\<close> the precision of \<open>timestamptz\<close>. An error of the driver is none of the errors the
  package \<open>store\<close> defines.
\<close>

locale pg_database =
  fixes pool :: "'w pg_pool"
    and inv :: "'w \<Rightarrow> bool"
    and tbl :: "'w \<Rightarrow> string \<Rightarrow> helpper option"
    and ck :: "'w \<Rightarrow> string \<Rightarrow> time option"
    and stored :: "time \<Rightarrow> time"
  assumes row_key: "inv w \<Longrightarrow> tbl w d = Some h \<Longrightarrow> h_DirectoryID h = d \<and> atoi (h_ID h) \<noteq> None"
    and row_ids: "inv w \<Longrightarrow> tbl w d = Some h \<Longrightarrow> tbl w d' = Some h' \<Longrightarrow> h_ID h = h_ID h' \<Longrightarrow> d = d'"
    and select_frame: "inv w \<Longrightarrow> q_by_directory_id pool d w = (r, w') \<Longrightarrow> inv w' \<and> tbl w' = tbl w \<and> ck w' = ck w"
    and select_row: "inv w \<Longrightarrow> q_by_directory_id pool d w = (Inr h, w') \<Longrightarrow> tbl w d = Some h"
    and select_none: "inv w \<Longrightarrow> q_by_directory_id pool d w = (Inl e, w') \<Longrightarrow>
      \<not> err_is e ErrNotFound \<and> (err_is e ErrNoRows \<longrightarrow> tbl w d = None)"
    and insert_row: "inv w \<Longrightarrow> q_insert pool nh w = (Inr h, w') \<Longrightarrow>
      inv w' \<and> ck w' = ck w \<and> tbl w (nh_DirectoryID nh) = None
      \<and> tbl w' = (tbl w)(nh_DirectoryID nh \<mapsto> h)
      \<and> h_Login h = nh_Login nh \<and> h_DisplayName h = nh_DisplayName nh \<and> h_Enabled h"
    and insert_none: "inv w \<Longrightarrow> q_insert pool nh w = (Inl e, w') \<Longrightarrow>
      inv w' \<and> ck w' = ck w \<and> tbl w' = tbl w
      \<and> \<not> err_is e ErrNotFound \<and> \<not> err_is e ErrAlreadyExists
      \<and> (err_is e ErrNoRows \<longrightarrow> tbl w (nh_DirectoryID nh) \<noteq> None)"
    and update_frame: "inv w \<Longrightarrow> x_update pool i upd w = (rn, w') \<Longrightarrow> inv w' \<and> ck w' = ck w"
    and update_failed: "inv w \<Longrightarrow> x_update pool i upd w = (Inl e, w') \<Longrightarrow> tbl w' = tbl w"
    and update_none: "inv w \<Longrightarrow> x_update pool i upd w = (Inr 0, w') \<Longrightarrow> tbl w' = tbl w"
    and update_row: "inv w \<Longrightarrow> x_update pool i upd w = (Inr n, w') \<Longrightarrow> tbl w d = Some h \<Longrightarrow>
      atoi i = atoi (h_ID h) \<Longrightarrow> \<exists>t. tbl w' = (tbl w)(d \<mapsto> apply_update upd t h)"
    and enabled_frame: "inv w \<Longrightarrow> q_enabled pool w = (rl, w') \<Longrightarrow> inv w' \<and> tbl w' = tbl w \<and> ck w' = ck w"
    and enabled_rows: "inv w \<Longrightarrow> q_enabled pool w = (Inr (map Inr hs, None), w') \<Longrightarrow>
      set hs = {h. \<exists>d. tbl w d = Some h \<and> h_Enabled h} \<and> distinct (map h_DirectoryID hs)"
    and checkpoint_frame: "inv w \<Longrightarrow> q_checkpoint pool p w = (rt, w') \<Longrightarrow> inv w' \<and> tbl w' = tbl w \<and> ck w' = ck w"
    and checkpoint_row: "inv w \<Longrightarrow> q_checkpoint pool p w = (Inr t, w') \<Longrightarrow> ck w p = Some t"
    and checkpoint_none: "inv w \<Longrightarrow> q_checkpoint pool p w = (Inl e, w') \<Longrightarrow> err_is e ErrNoRows \<Longrightarrow> ck w p = None"
    and upsert_done: "inv w \<Longrightarrow> x_checkpoint pool p t w = (Inr (), w') \<Longrightarrow>
      inv w' \<and> tbl w' = tbl w \<and> ck w' = (ck w)(p \<mapsto> stored t)"
    and upsert_failed: "inv w \<Longrightarrow> x_checkpoint pool p t w = (Inl e, w') \<Longrightarrow>
      inv w' \<and> tbl w' = tbl w \<and> ck w' = ck w"
    and stored_le: "0 \<le> t \<Longrightarrow> 0 \<le> stored t \<and> stored t \<le> t"
    and stored_kept: "inv w \<Longrightarrow> ck w p = Some t \<Longrightarrow> stored t = t"

text \<open>The checkpoint the store reports, and what it makes of one it is given.\<close>

definition pg_saved :: "('w \<Rightarrow> string \<Rightarrow> time option) \<Rightarrow> 'w pg_store \<Rightarrow> 'w \<Rightarrow> time" where
  "pg_saved ck s w = (case ck w (pg_partner s) of None \<Rightarrow> zero_time | Some t \<Rightarrow> epoch_to_zero t)"

definition pg_round :: "(time \<Rightarrow> time) \<Rightarrow> time \<Rightarrow> time" where
  "pg_round stored t = epoch_to_zero (stored t)"

lemma pg_New_pool [simp]: "pg_pool_of (pg_New pool partner) = pool"
  by (simp add: pg_New_def)

lemma epoch_to_zero_le: "0 \<le> t \<Longrightarrow> 0 \<le> epoch_to_zero t \<and> epoch_to_zero t \<le> t"
  by (simp add: epoch_to_zero_def zero_time_def)

context pg_database begin

lemma stored_zero: "stored zero_time = zero_time"
  using stored_le [of 0] by (simp add: zero_time_def)

lemma pg_lookup:
  assumes "inv w" and "pg_HelpperByDirectoryID (pg_New pool partner) d w = (r, w')"
  shows "inv w' \<and> tbl w' = tbl w \<and> ck w' = ck w"
    and "r = Inr h \<Longrightarrow> tbl w d = Some h"
    and "r = Inl e \<Longrightarrow> err_is e ErrNotFound \<Longrightarrow> tbl w d = None"
  using assms(2)
  by (cases rule: pg_lookup_cases;
    auto dest: select_frame [OF assms(1)] select_row [OF assms(1)] select_none [OF assms(1)] split: if_splits)+

lemma pg_create:
  assumes "inv w" and "pg_CreateHelpper (pg_New pool partner) nh w = (r, w')"
  shows "inv w' \<and> ck w' = ck w"
    and "r = Inr h \<Longrightarrow> tbl w (nh_DirectoryID nh) = None \<and> tbl w' = (tbl w)(nh_DirectoryID nh \<mapsto> h)
      \<and> h_Login h = nh_Login nh \<and> h_DisplayName h = nh_DisplayName nh \<and> h_Enabled h"
    and "r = Inl e \<Longrightarrow> tbl w' = tbl w"
    and "r = Inl e \<Longrightarrow> err_is e ErrAlreadyExists \<Longrightarrow> tbl w (nh_DirectoryID nh) \<noteq> None"
  using assms(2)
  by (cases rule: pg_create_cases; auto dest: insert_row [OF assms(1)] insert_none [OF assms(1)] split: if_splits)+

lemma pg_update:
  assumes "inv w" and "pg_UpdateHelpper (pg_New pool partner) i upd w = (oe, w')"
  shows "inv w' \<and> ck w' = ck w"
    and "oe = None \<Longrightarrow> tbl w d = Some h \<Longrightarrow> h_ID h = i \<Longrightarrow> \<exists>t. tbl w' = (tbl w)(d \<mapsto> apply_update upd t h)"
    and "oe = Some e \<Longrightarrow> tbl w' = tbl w"
proof -
  show "inv w' \<and> ck w' = ck w"
    using assms(2) by (cases rule: pg_update_cases) (use update_frame assms(1) in \<open>auto\<close>)
  show "\<exists>t. tbl w' = (tbl w)(d \<mapsto> apply_update upd t h)" if "oe = None" "tbl w d = Some h" "h_ID h = i"
    using assms(2) by (cases rule: pg_update_cases) (use that update_row [OF assms(1)] in \<open>auto\<close>)
  show "tbl w' = tbl w" if "oe = Some e"
    using assms(2)
    by (cases rule: pg_update_cases)
      (use that update_failed [OF assms(1)] update_none [OF assms(1)] in \<open>auto\<close>)
qed

lemma pg_enabled:
  assumes "inv w" and "pg_EnabledHelppers (pg_New pool partner) w = (r, w')"
  shows "inv w' \<and> tbl w' = tbl w \<and> ck w' = ck w"
    and "r = Inr hs \<Longrightarrow> set hs = {h. \<exists>d. tbl w d = Some h \<and> h_Enabled h} \<and> distinct (map h_DirectoryID hs)"
proof -
  show "inv w' \<and> tbl w' = tbl w \<and> ck w' = ck w"
    using assms(2) by (cases rule: pg_enabled_cases) (use enabled_frame assms(1) in \<open>auto\<close>)
  show "set hs = {h. \<exists>d. tbl w d = Some h \<and> h_Enabled h} \<and> distinct (map h_DirectoryID hs)" if "r = Inr hs"
    using assms(2)
  proof (cases rule: pg_enabled_cases)
    case (listed rows err)
    with that have "scan_rows rows err = Inr hs" by simp
    from scan_rows_ok [OF this] listed(1) have "q_enabled pool w = (Inr (map Inr hs, None), w')" by simp
    then show ?thesis by (rule enabled_rows [OF assms(1)])
  qed (use that in simp)
qed

lemma pg_read:
  assumes "inv w" and "pg_Checkpoint (pg_New pool partner) w = (r, w')"
  shows "inv w' \<and> tbl w' = tbl w \<and> ck w' = ck w"
    and "r = Inr t \<Longrightarrow> t = pg_saved ck (pg_New pool partner) w"
proof -
  show "inv w' \<and> tbl w' = tbl w \<and> ck w' = ck w"
    using assms(2) by (cases rule: pg_checkpoint_cases) (use checkpoint_frame assms(1) in \<open>auto\<close>)
  show "t = pg_saved ck (pg_New pool partner) w" if "r = Inr t"
    using assms(2)
    by (cases rule: pg_checkpoint_cases)
      (use that in \<open>auto simp: pg_saved_def dest: checkpoint_row [OF assms(1)] checkpoint_none [OF assms(1)]\<close>)
qed

lemma pg_write:
  assumes "inv w" and "pg_SetCheckpoint (pg_New pool partner) t w = (oe, w')"
  shows "inv w' \<and> tbl w' = tbl w"
    and "oe = None \<Longrightarrow> ck w' = (ck w)(pg_partner (pg_New pool partner) \<mapsto> stored t)"
    and "oe = Some e \<Longrightarrow> ck w' = ck w"
  using assms(2)
  by (cases rule: pg_set_cases; auto dest: upsert_done [OF assms(1)] upsert_failed [OF assms(1)])+

lemma pg_saved_kept:
  assumes "inv w"
  shows "pg_round stored (pg_saved ck (pg_New pool partner) w) = pg_saved ck (pg_New pool partner) w"
  using stored_kept [OF assms] stored_zero
  by (auto simp: pg_round_def pg_saved_def epoch_to_zero_def split: option.splits)

end

text \<open>A server that keeps these promises makes the store one that keeps its own.\<close>

sublocale pg_database \<subseteq> contract: store_contract "pg_ops (pg_New pool partner)" inv tbl
  "pg_saved ck (pg_New pool partner)" "pg_round stored"
  for partner
proof (unfold_locales, unfold pg_ops_simps, goal_cases)
  case (1 w d h)
  then show ?case using row_key [of w d h] by (auto simp: atoi_def)
next
  case 2 then show ?case using row_ids by blast
next
  case 3 then show ?case using pg_lookup(1) by (simp add: pg_saved_def)
next
  case 4 then show ?case using pg_lookup(2) by blast
next
  case 5 then show ?case using pg_lookup(3) by blast
next
  case 6 then show ?case using pg_create(1) by (simp add: pg_saved_def)
next
  case 7 then show ?case using pg_create(2) by blast
next
  case 8 then show ?case using pg_create(3) by blast
next
  case 9 then show ?case using pg_create(4) by blast
next
  case 10 then show ?case using pg_update(1) by (simp add: pg_saved_def)
next
  case 11 then show ?case using pg_update(2) by blast
next
  case 12 then show ?case using pg_update(3) by blast
next
  case 13 then show ?case using pg_enabled(1) by (simp add: pg_saved_def)
next
  case 14 then show ?case using pg_enabled(2) by blast
next
  case 15 then show ?case using pg_read(1) by (simp add: pg_saved_def)
next
  case 16 then show ?case using pg_read(2) by blast
next
  case 17 then show ?case using pg_write(1) by blast
next
  case 18 then show ?case using pg_write(2) by (simp add: pg_saved_def pg_round_def)
next
  case 19 then show ?case using pg_write(3) by (simp add: pg_saved_def)
next
  case 20 then show ?case using stored_le epoch_to_zero_le by (fastforce simp: pg_round_def)
next
  case 21 then show ?case by (rule pg_saved_kept)
qed

context pg_database begin

lemma keeps_contract:
  "store_contract (pg_ops (pg_New pool partner)) inv tbl (pg_saved ck (pg_New pool partner)) (pg_round stored)"
  by (rule contract.store_contract_axioms)

text \<open>The partners that share one database do not see each other's checkpoints.\<close>

lemma partners_apart:
  assumes "inv w" and "pg_partner (pg_New pool p) \<noteq> pg_partner (pg_New pool q)"
    and "pg_SetCheckpoint (pg_New pool p) t w = (oe, w1)" and "pg_Checkpoint (pg_New pool q) w1 = (Inr u, w2)"
  shows "u = pg_saved ck (pg_New pool q) w"
proof -
  have "inv w1" using pg_write(1) [OF assms(1,3)] by simp
  from pg_read(2) [OF this assms(4)] have "u = pg_saved ck (pg_New pool q) w1" by simp
  moreover have "ck w1 (pg_partner (pg_New pool q)) = ck w (pg_partner (pg_New pool q))"
    using pg_write(2,3) [OF assms(1,3)] assms(2) by (cases oe) auto
  ultimately show ?thesis by (simp add: pg_saved_def)
qed

end

end
