(* ===== verification/Postgres_Tables.thy ===== *)
theory Postgres_Tables
  imports Postgres "HOL-Library.AList"
begin

text \<open>
  The two tables of \<open>store/postgres/migrations/0001_init.sql\<close> with the statements of
  \<open>postgres.go\<close> run on them one at a time: an instance of \<open>pg_database\<close>, so that what the
  theory \<open>Postgres\<close> assumes of the server is known to be consistent. Any statement may fail
  before it has done anything (\<open>db_fault\<close>); \<open>timestamptz\<close> keeps microseconds.
\<close>

record pg_row =
  pr_id :: int
  pr_directory_id :: string
  pr_login :: string
  pr_display_name :: string
  pr_enabled :: bool
  pr_created_at :: time
  pr_updated_at :: time

record pg_db =
  db_helppers :: "pg_row list"
  db_seq :: int
  db_state :: "(string \<times> time) list"
  db_clock :: "nat \<Rightarrow> time"
  db_fault :: "nat \<Rightarrow> string option"
  db_ticks :: nat

definition microsecond :: duration where "microsecond = 1000"

definition pg_time :: "time \<Rightarrow> time" where
  "pg_time t = t - t mod microsecond"

definition row_helpper :: "pg_row \<Rightarrow> helpper" where
  "row_helpper r =
     \<lparr>h_ID = itoa (pr_id r), h_DirectoryID = pr_directory_id r, h_Login = pr_login r,
      h_DisplayName = pr_display_name r, h_Enabled = pr_enabled r,
      h_CreatedAt = pr_created_at r, h_UpdatedAt = pr_updated_at r\<rparr>"

section \<open>The statements on the tables\<close>

definition tick :: "pg_db \<Rightarrow> pg_db" where
  "tick db = db\<lparr>db_ticks := Suc (db_ticks db)\<rparr>"

definition statement :: "(pg_db \<Rightarrow> 'a result \<times> pg_db) \<Rightarrow> pg_db \<Rightarrow> 'a result \<times> pg_db" where
  "statement run db =
     (case db_fault db (db_ticks db) of
        Some msg \<Rightarrow> (Inl (Plain msg), tick db)
      | None \<Rightarrow> run (tick db))"

definition sql_now :: "pg_db \<Rightarrow> time" where
  "sql_now db = pg_time (db_clock db (db_ticks db))"

definition row_of :: "string \<Rightarrow> pg_db \<Rightarrow> pg_row option" where
  "row_of d db = find (\<lambda>r. pr_directory_id r = d) (db_helppers db)"

definition select_by_directory_id :: "string \<Rightarrow> pg_db \<Rightarrow> helpper result \<times> pg_db" where
  "select_by_directory_id d db =
     (case row_of d db of None \<Rightarrow> (Inl (Sentinel ErrNoRows), db) | Some r \<Rightarrow> (Inr (row_helpper r), db))"

text \<open>
  \<open>insert ... on conflict (directory_id) do nothing returning ...\<close>: the sequence advances
  even when the row is refused, and an exhausted sequence is an error.
\<close>

definition new_row :: "new_helpper \<Rightarrow> pg_db \<Rightarrow> pg_row" where
  "new_row nh db =
     \<lparr>pr_id = db_seq db + 1, pr_directory_id = nh_DirectoryID nh, pr_login = nh_Login nh,
      pr_display_name = nh_DisplayName nh, pr_enabled = True,
      pr_created_at = sql_now db, pr_updated_at = sql_now db\<rparr>"

definition insert_helpper :: "new_helpper \<Rightarrow> pg_db \<Rightarrow> helpper result \<times> pg_db" where
  "insert_helpper nh db =
     (if db_seq db = int64_max then (Inl (Plain ''nextval: reached maximum value of sequence''), db)
      else if row_of (nh_DirectoryID nh) db \<noteq> None then
        (Inl (Sentinel ErrNoRows), db\<lparr>db_seq := db_seq db + 1\<rparr>)
      else (Inr (row_helpper (new_row nh db)),
        db\<lparr>db_seq := db_seq db + 1, db_helppers := db_helppers db @ [new_row nh db]\<rparr>))"

definition set_state :: "helpper_update \<Rightarrow> time \<Rightarrow> pg_row \<Rightarrow> pg_row" where
  "set_state upd t r = r\<lparr>pr_enabled := hu_Enabled upd, pr_display_name := hu_DisplayName upd,
     pr_login := hu_Login upd, pr_updated_at := t\<rparr>"

definition update_helpper :: "string \<Rightarrow> helpper_update \<Rightarrow> pg_db \<Rightarrow> nat result \<times> pg_db" where
  "update_helpper i upd db =
     (case atoi i of
        None \<Rightarrow> (Inl (Plain ''invalid input syntax for type bigint''), db)
      | Some n \<Rightarrow>
          (Inr (length (filter (\<lambda>r. pr_id r = n) (db_helppers db))),
           db\<lparr>db_helppers := map (\<lambda>r. if pr_id r = n then set_state upd (sql_now db) r else r) (db_helppers db)\<rparr>))"

definition select_enabled :: "pg_db \<Rightarrow> (helpper result list \<times> goerror option) result \<times> pg_db" where
  "select_enabled db =
     (Inr (map (Inr \<circ> row_helpper) (sort_key pr_directory_id (filter pr_enabled (db_helppers db))), None), db)"

definition select_checkpoint :: "string \<Rightarrow> pg_db \<Rightarrow> time result \<times> pg_db" where
  "select_checkpoint partner db =
     (case map_of (db_state db) partner of
        None \<Rightarrow> (Inl (Sentinel ErrNoRows), db)
      | Some t \<Rightarrow> (Inr t, db))"

definition upsert_checkpoint :: "string \<Rightarrow> time \<Rightarrow> pg_db \<Rightarrow> unit result \<times> pg_db" where
  "upsert_checkpoint partner t db =
     (Inr (), db\<lparr>db_state := AList.update partner (pg_time t) (db_state db)\<rparr>)"

definition table_pool :: "pg_db pg_pool" where
  "table_pool =
     \<lparr>q_by_directory_id = (\<lambda>d. statement (select_by_directory_id d)),
      q_insert = (\<lambda>nh. statement (insert_helpper nh)),
      x_update = (\<lambda>i upd. statement (update_helpper i upd)),
      q_enabled = statement select_enabled,
      q_checkpoint = (\<lambda>p. statement (select_checkpoint p)),
      x_checkpoint = (\<lambda>p t. statement (upsert_checkpoint p t))\<rparr>"

lemma table_pool_simps [simp]:
  "q_by_directory_id table_pool d = statement (select_by_directory_id d)"
  "q_insert table_pool nh = statement (insert_helpper nh)"
  "x_update table_pool i upd = statement (update_helpper i upd)"
  "q_enabled table_pool = statement select_enabled"
  "q_checkpoint table_pool p = statement (select_checkpoint p)"
  "x_checkpoint table_pool p t = statement (upsert_checkpoint p t)"
  by (simp_all add: table_pool_def)

section \<open>The schema's constraints\<close>

text \<open>The unique index, the primary key, the sequence behind it, and the column's precision.\<close>

definition db_ok :: "pg_db \<Rightarrow> bool" where
  "db_ok db =
     (distinct (map pr_directory_id (db_helppers db)) \<and> distinct (map pr_id (db_helppers db))
      \<and> (\<forall>r \<in> set (db_helppers db). 0 < pr_id r \<and> pr_id r \<le> db_seq db)
      \<and> 0 \<le> db_seq db \<and> db_seq db \<le> int64_max
      \<and> (\<forall>p t. map_of (db_state db) p = Some t \<longrightarrow> t mod microsecond = 0))"

definition db_table :: "pg_db \<Rightarrow> string \<Rightarrow> helpper option" where
  "db_table db d = map_option row_helpper (row_of d db)"

definition db_marks :: "pg_db \<Rightarrow> string \<Rightarrow> time option" where
  "db_marks db = map_of (db_state db)"

lemma tick_simps [simp]:
  "db_ok (tick db) = db_ok db" "row_of d (tick db) = row_of d db"
  "db_table (tick db) = db_table db" "db_marks (tick db) = db_marks db"
  "db_helppers (tick db) = db_helppers db"
  by (auto simp: tick_def db_ok_def db_table_def row_of_def db_marks_def)

lemma statement_cases:
  assumes "statement run db = (r, db')"
  obtains (fault) msg where "r = Inl (Plain msg)" "db' = tick db"
  | (ran) "run (tick db) = (r, db')"
  using assms by (auto simp: statement_def split: option.splits)

lemma row_helpper_simps [simp]:
  "h_ID (row_helpper r) = itoa (pr_id r)" "h_DirectoryID (row_helpper r) = pr_directory_id r"
  "h_Login (row_helpper r) = pr_login r" "h_DisplayName (row_helpper r) = pr_display_name r"
  "h_Enabled (row_helpper r) = pr_enabled r"
  by (simp_all add: row_helpper_def)

lemma row_of_iff:
  assumes "db_ok db"
  shows "row_of d db = Some r \<longleftrightarrow> r \<in> set (db_helppers db) \<and> pr_directory_id r = d"
proof
  show "row_of d db = Some r \<Longrightarrow> r \<in> set (db_helppers db) \<and> pr_directory_id r = d"
    by (auto simp: row_of_def find_Some_iff)
  have "distinct (map f xs) \<Longrightarrow> x \<in> set xs \<Longrightarrow> find (\<lambda>y. f y = f x) xs = Some x" for f :: "pg_row \<Rightarrow> string" and x xs
    by (induction xs) (auto simp: image_iff)
  then show "r \<in> set (db_helppers db) \<and> pr_directory_id r = d \<Longrightarrow> row_of d db = Some r"
    using assms by (auto simp: row_of_def db_ok_def)
qed

lemma db_table_iff:
  assumes "db_ok db"
  shows "db_table db d = Some h \<longleftrightarrow> (\<exists>r \<in> set (db_helppers db). pr_directory_id r = d \<and> h = row_helpper r)"
  using row_of_iff [OF assms] by (auto simp: db_table_def)

lemma itoa_id:
  assumes "db_ok db" and "r \<in> set (db_helppers db)"
  shows "atoi (itoa (pr_id r)) = Some (pr_id r)"
  using assms by (intro atoi_itoa) (auto simp: db_ok_def in_int64_def int64_min_def)

section \<open>Each statement\<close>

lemma find_append: "find P (xs @ ys) = (case find P xs of None \<Rightarrow> find P ys | Some x \<Rightarrow> Some x)"
  by (induction xs) auto

lemma find_map: "find P (map f xs) = map_option f (find (\<lambda>x. P (f x)) xs)"
  by (induction xs) auto

lemma insert_cases:
  assumes "insert_helpper nh db = (r, db')"
  obtains (exhausted) msg where "r = Inl (Plain msg)" "db' = db"
  | (conflict) "r = Inl (Sentinel ErrNoRows)" "db_seq db \<noteq> int64_max" "row_of (nh_DirectoryID nh) db \<noteq> None"
      "db' = db\<lparr>db_seq := db_seq db + 1\<rparr>"
  | (inserted) "r = Inr (row_helpper (new_row nh db))" "db_seq db \<noteq> int64_max"
      "row_of (nh_DirectoryID nh) db = None"
      "db' = db\<lparr>db_seq := db_seq db + 1, db_helppers := db_helppers db @ [new_row nh db]\<rparr>"
  using assms by (auto simp: insert_helpper_def split: if_splits)

lemma row_of_None: "row_of d db = None \<longleftrightarrow> (\<forall>r \<in> set (db_helppers db). pr_directory_id r \<noteq> d)"
  by (auto simp: row_of_def find_None_iff)

lemma insert_ok:
  assumes "db_ok db" and "insert_helpper nh db = (r, db')"
  shows "db_ok db'" and "db_marks db' = db_marks db"
proof -
  have fresh: "\<forall>x \<in> set (db_helppers db). pr_id x \<noteq> db_seq db + 1" "db_seq db < int64_max \<or> db_seq db = int64_max"
    using assms(1) by (auto simp: db_ok_def)
  show "db_ok db'" using assms(2)
  proof (cases rule: insert_cases)
    case inserted
    with assms(1) fresh show ?thesis by (auto simp: db_ok_def new_row_def row_of_None)
  qed (use assms(1) fresh in \<open>auto simp: db_ok_def\<close>)
  show "db_marks db' = db_marks db"
    using assms(2) by (cases rule: insert_cases) (auto simp: db_marks_def)
qed

lemma insert_table:
  assumes "insert_helpper nh db = (r, db')"
  shows "r = Inl e \<Longrightarrow> db_table db' = db_table db"
    and "r = Inr h \<Longrightarrow> db_table db' = (db_table db)(nh_DirectoryID nh \<mapsto> h)"
  using assms
  by (cases rule: insert_cases;
    auto simp: db_table_def row_of_def find_append new_row_def fun_eq_iff split: option.splits)+

lemma update_marks:
  assumes "update_helpper i upd db = (r, db')"
  shows "db_marks db' = db_marks db"
  using assms by (auto simp: update_helpper_def db_marks_def split: option.splits)

lemma update_ok:
  assumes "db_ok db" and "update_helpper i upd db = (r, db')"
  shows "db_ok db'"
proof (cases "atoi i")
  case (Some n)
  define g where "g = (\<lambda>r. if pr_id r = n then set_state upd (sql_now db) r else r)"
  have keys: "pr_directory_id \<circ> g = pr_directory_id" "pr_id \<circ> g = pr_id"
    by (auto simp: g_def set_state_def)
  have "db' = db\<lparr>db_helppers := map g (db_helppers db)\<rparr>"
    using assms(2) Some by (simp add: update_helpper_def g_def)
  moreover have "pr_id (g r) = pr_id r" for r using fun_cong [OF keys(2)] by simp
  ultimately show ?thesis using assms(1) by (simp add: db_ok_def keys)
qed (use assms in \<open>auto simp: update_helpper_def\<close>)

lemma row_of_update:
  "row_of d (db\<lparr>db_helppers := map (\<lambda>r. if pr_id r = n then set_state upd t r else r) (db_helppers db)\<rparr>) =
     map_option (\<lambda>r. if pr_id r = n then set_state upd t r else r) (row_of d db)"
proof -
  have "pr_directory_id (if pr_id r = n then set_state upd t r else r) = pr_directory_id r" for r
    by (simp add: set_state_def)
  then show ?thesis by (simp add: row_of_def find_map)
qed

lemma update_missed:
  assumes "db_ok db" and "update_helpper i upd db = (r, db')" and "r = Inr 0 \<or> isl r"
  shows "db_table db' = db_table db"
proof (cases "atoi i")
  case (Some n)
  with assms(2,3) have none: "\<forall>r \<in> set (db_helppers db). pr_id r \<noteq> n"
    by (auto simp: update_helpper_def filter_empty_conv)
  then have "map (\<lambda>r. if pr_id r = n then set_state upd (sql_now db) r else r) (db_helppers db) = db_helppers db"
    by (intro map_idI) auto
  with assms(2) Some show ?thesis by (auto simp: update_helpper_def)
qed (use assms(2) in \<open>auto simp: update_helpper_def\<close>)

lemma update_table:
  assumes "db_ok db" and "update_helpper i upd db = (Inr n, db')"
    and "db_table db d = Some h" and "atoi i = atoi (h_ID h)"
  shows "\<exists>t. db_table db' = (db_table db)(d \<mapsto> apply_update upd t h)"
proof -
  obtain r where r: "r \<in> set (db_helppers db)" "pr_directory_id r = d" "h = row_helpper r"
    using assms(3) by (auto simp: db_table_iff [OF assms(1)])
  have i: "atoi i = Some (pr_id r)" using assms(4) r itoa_id [OF assms(1)] by simp
  have one: "pr_id r' = pr_id r \<longleftrightarrow> d' = d" if "row_of d' db = Some r'" for d' r'
    using that r assms(1) by (auto simp: row_of_iff [OF assms(1)] db_ok_def distinct_map dest: inj_onD)
  have here: "row_of d db = Some r" using r by (simp add: row_of_iff [OF assms(1)])
  have "row_helpper (set_state upd t r) = apply_update upd t (row_helpper r)" for t
    by (simp add: row_helpper_def set_state_def apply_update_def)
  with assms(2) i here one r(3) have "db_table db' = (db_table db)(d \<mapsto> apply_update upd (sql_now db) h)"
    by (auto simp: update_helpper_def db_table_def row_of_update fun_eq_iff map_option_case split: option.splits)
  then show ?thesis ..
qed

lemma select_enabled_rows:
  assumes "db_ok db" and "select_enabled db = (Inr (map Inr hs, None), db')"
  shows "set hs = {h. \<exists>d. db_table db d = Some h \<and> h_Enabled h} \<and> distinct (map h_DirectoryID hs)"
proof
  define rs where "rs = sort_key pr_directory_id (filter pr_enabled (db_helppers db))"
  from assms(2) have "map (Inr \<circ> row_helpper) rs = (map Inr hs :: helpper result list)"
    by (auto simp: select_enabled_def rs_def)
  then have "map Inr (map row_helpper rs) = (map Inr hs :: helpper result list)" by simp
  then have "map row_helpper rs = hs"
    by (rule map_injective) (simp add: inj_def)
  then have hs: "hs = map row_helpper rs" ..
  show "set hs = {h. \<exists>d. db_table db d = Some h \<and> h_Enabled h}"
    by (auto simp: hs rs_def db_table_iff [OF assms(1)])
  have "distinct (map pr_directory_id (filter pr_enabled (db_helppers db)))"
    using assms(1) by (auto simp: db_ok_def distinct_map intro: inj_on_subset)
  then have "distinct (map pr_directory_id rs)"
    by (simp add: rs_def distinct_map)
  then show "distinct (map h_DirectoryID hs)"
    by (simp add: hs comp_def)
qed

lemma upsert_ok:
  assumes "db_ok db" and "upsert_checkpoint p t db = (r, db')"
  shows "db_ok db'" and "db_table db' = db_table db" and "db_marks db' = (db_marks db)(p \<mapsto> pg_time t)"
proof -
  have whole: "pg_time t mod microsecond = 0"
    unfolding pg_time_def by (simp add: minus_mod_eq_mult_div)
  have db': "db' = db\<lparr>db_state := AList.update p (pg_time t) (db_state db)\<rparr>"
    using assms(2) by (simp add: upsert_checkpoint_def)
  show "db_ok db'" using assms(1) whole unfolding db' db_ok_def by (simp add: update_conv')
  show "db_table db' = db_table db" by (simp add: db' db_table_def row_of_def fun_eq_iff)
  show "db_marks db' = (db_marks db)(p \<mapsto> pg_time t)" by (simp add: db' db_marks_def update_conv')
qed

section \<open>The instance\<close>

interpretation tables: pg_database table_pool db_ok db_table db_marks pg_time
proof (unfold_locales, unfold table_pool_simps, goal_cases)
  case (1 db d h)
  then show ?case using itoa_id by (fastforce simp: db_table_iff)
next
  case (2 db d h d' h')
  then show ?case by (auto simp: db_table_iff db_ok_def distinct_map dest: inj_onD)
next
  case (3 db d r db')
  from 3(2,1) show ?case
    by (cases rule: statement_cases) (auto simp: select_by_directory_id_def split: option.splits)
next
  case (4 db d h db')
  from 4(2) show ?case
    by (cases rule: statement_cases) (auto simp: select_by_directory_id_def db_table_def split: option.splits)
next
  case (5 db d e db')
  from 5(2) show ?case
    by (cases rule: statement_cases) (auto simp: select_by_directory_id_def db_table_def split: option.splits)
next
  case (6 db nh h db')
  from 6(2) show ?case
  proof (cases rule: statement_cases)
    case ran
    with insert_ok [OF _ ran] insert_table(2) [OF ran] 6(1) show ?thesis
      by (cases rule: insert_cases [OF ran]) (auto simp: new_row_def db_table_def)
  qed simp
next
  case (7 db nh e db')
  from 7(2) show ?case
  proof (cases rule: statement_cases)
    case ran
    with insert_ok [OF _ ran] insert_table(1) [OF ran] 7(1) show ?thesis
      by (cases rule: insert_cases [OF ran]) (auto simp: db_table_def)
  qed (use 7(1) in simp)
next
  case (8 db i upd r db')
  from 8(2) show ?case
  proof (cases rule: statement_cases)
    case ran
    from update_ok [OF _ ran] update_marks [OF ran] 8(1) show ?thesis by simp
  qed (use 8(1) in simp)
next
  case (9 db i upd e db')
  from 9(2) show ?case
    by (cases rule: statement_cases) (use 9(1) in \<open>auto dest: update_missed [rotated]\<close>)
next
  case (10 db i upd db')
  from 10(2) show ?case
    by (cases rule: statement_cases) (use 10(1) in \<open>auto dest: update_missed [rotated]\<close>)
next
  case (11 db i upd n db' d h)
  from 11(2) show ?case
  proof (cases rule: statement_cases)
    case ran
    from update_table [OF _ ran _ 11(4), of d] 11(1,3) show ?thesis by simp
  qed simp
next
  case (12 db r db')
  from 12(2,1) show ?case by (cases rule: statement_cases) (auto simp: select_enabled_def)
next
  case (13 db hs db')
  from 13(2) show ?case
  proof (cases rule: statement_cases)
    case ran
    with select_enabled_rows [OF _ ran] 13(1) show ?thesis by simp
  qed simp
next
  case (14 db p r db')
  from 14(2,1) show ?case
    by (cases rule: statement_cases) (auto simp: select_checkpoint_def split: option.splits)
next
  case (15 db p t db')
  from 15(2) show ?case
    by (cases rule: statement_cases) (auto simp: select_checkpoint_def db_marks_def tick_def split: option.splits)
next
  case (16 db p e db')
  from 16(2,3) show ?case
    by (cases rule: statement_cases) (auto simp: select_checkpoint_def db_marks_def tick_def split: option.splits)
next
  case (17 db p t db')
  from 17(2) show ?case
  proof (cases rule: statement_cases)
    case ran
    from upsert_ok [OF _ ran] 17(1) show ?thesis by simp
  qed simp
next
  case (18 db p t e db')
  from 18(2,1) show ?case by (cases rule: statement_cases) (auto simp: upsert_checkpoint_def)
next
  case (19 t)
  then show ?case by (auto simp: pg_time_def microsecond_def minus_mod_eq_mult_div)
next
  case (20 db p t)
  then show ?case by (auto simp: db_ok_def db_marks_def pg_time_def)
qed

end
