(* ===== verification/Postgres_Lock.thy ===== *)
theory Postgres_Lock
  imports Go_Errors "HOL-Library.Word"
begin

text \<open>
  \<open>store/postgres/lock.go\<close>: the advisory lock around a cycle. The first part is the code: the
  key, and \<open>WithSyncLock\<close> over the operations of one pooled connection (a parameter). The
  second is what several workers, each of its own partner, that call it at the same time amount
  to: a transition system in which each is at one of the calls of \<open>WithSyncLock\<close>, and the
  server's lock table, from keys to sessions, is shared. A panic of the callback is not modelled.
\<close>

unbundle bit_operations_syntax

section \<open>The key\<close>

text \<open>\<open>hash/fnv\<close>, \<open>New64a\<close>: the 64-bit FNV-1a hash.\<close>

definition fnv_offset :: "64 word" where "fnv_offset = 14695981039346656037"
definition fnv_prime :: "64 word" where "fnv_prime = 1099511628211"

definition fnv1a :: "string \<Rightarrow> 64 word" where
  "fnv1a s = fold (\<lambda>ch h. (h XOR word_of_nat (of_char ch)) * fnv_prime) s fnv_offset"

definition lockKey :: "string \<Rightarrow> int" where
  "lockKey nm = wrap64 (uint (drop_bit 1 (fnv1a nm)))"

lemma uint_half: "uint (drop_bit 1 (x :: 64 word)) = uint x div 2"
  by (simp add: drop_bit_eq_div uint_div_distrib)

lemma lockKey_eq: "lockKey nm = uint (fnv1a nm) div 2"
proof -
  have "uint (fnv1a nm) < 18446744073709551616" using uint_lt2p [of "fnv1a nm"] by simp
  moreover have "0 \<le> uint (fnv1a nm) div 2" by (simp add: pos_imp_zdiv_nonneg_iff)
  ultimately have "in_int64 (uint (fnv1a nm) div 2)"
    unfolding in_int64_def int64_min_def int64_max_def by (intro conjI) linarith+
  then show ?thesis unfolding lockKey_def uint_half by simp
qed

section \<open>WithSyncLock\<close>

text \<open>\<open>pool.Acquire\<close>, the two queries on the connection, and \<open>conn.Release\<close>.\<close>

definition sync_key :: "string \<Rightarrow> int" where
  "sync_key partner = lockKey (''directory_sync:'' @ partner)"

record 'w lock_conn =
  lk_acquire :: "'w \<Rightarrow> goerror option \<times> 'w"
  lk_try :: "int \<Rightarrow> 'w \<Rightarrow> bool result \<times> 'w"
  lk_unlock :: "int \<Rightarrow> 'w \<Rightarrow> 'w"
  lk_release :: "'w \<Rightarrow> 'w"

definition WithSyncLock :: "'w lock_conn \<Rightarrow> string \<Rightarrow> ('w \<Rightarrow> goerror option \<times> 'w) \<Rightarrow> 'w \<Rightarrow> goerror option \<times> 'w" where
  "WithSyncLock conn partner fn w =
     (let key = sync_key partner in
      case lk_acquire conn w of
        (Some e, w1) \<Rightarrow> (Some (Wrapped ''sync lock: acquire connection'' e), w1)
      | (None, w1) \<Rightarrow>
          (case lk_try conn key w1 of
             (Inl e, w2) \<Rightarrow> (Some (Wrapped ''sync lock'' e), lk_release conn w2)
           | (Inr acquired, w2) \<Rightarrow>
               if \<not> acquired then (Some (Sentinel ErrLockHeld), lk_release conn w2)
               else case fn w2 of (r, w3) \<Rightarrow> (r, lk_release conn (lk_unlock conn key w3))))"

lemma WithSyncLock_cases:
  assumes "WithSyncLock conn partner fn w = (r, w')"
  obtains (ran) w1 w2 w3 where "lk_acquire conn w = (None, w1)"
    "lk_try conn (sync_key partner) w1 = (Inr True, w2)" "fn w2 = (r, w3)"
    "w' = lk_release conn (lk_unlock conn (sync_key partner) w3)"
  | (refused) e where "r = Some e" "\<And>fn'. WithSyncLock conn partner fn' w = (r, w')"
  using assms by (auto simp: WithSyncLock_def Let_def split: prod.splits option.splits sum.splits if_splits)

section \<open>Many workers\<close>

text \<open>
  Where a worker's call is: not in it, holding a connection, in the callback, and after the
  callback, about to unlock. The locks belong to sessions of the server, not to workers:
  \<open>ls_conn i\<close> is the session behind the connection the pool gave to worker \<open>i\<close>, \<open>ls_locks k\<close> lists
  the sessions that hold the lock of key \<open>k\<close>, once for each time it was granted (a session may
  take a lock it has again, and has to unlock it as often), and \<open>ls_live c\<close> says that session
  \<open>c\<close> still stands: the server frees the locks of one that ends, and the callback does not
  notice.
\<close>

datatype lock_pc = Out | Connected | Inside | Leaving

record lock_sys =
  ls_pc :: "nat \<Rightarrow> lock_pc"
  ls_conn :: "nat \<Rightarrow> nat"
  ls_locks :: "int \<Rightarrow> nat list"
  ls_live :: "nat \<Rightarrow> bool"

definition lock_start :: lock_sys where
  "lock_start = \<lparr>ls_pc = (\<lambda>_. Out), ls_conn = (\<lambda>_. 0), ls_locks = (\<lambda>_. []), ls_live = (\<lambda>_. True)\<rparr>"

definition goto :: "nat \<Rightarrow> lock_pc \<Rightarrow> lock_sys \<Rightarrow> lock_sys" where
  "goto i pc s = s\<lparr>ls_pc := (ls_pc s)(i := pc)\<rparr>"

definition connect :: "nat \<Rightarrow> nat \<Rightarrow> lock_sys \<Rightarrow> lock_sys" where
  "connect i c s = goto i Connected (s\<lparr>ls_conn := (ls_conn s)(i := c)\<rparr>)"

text \<open>The server's side of \<open>pg_try_advisory_lock\<close>, \<open>pg_advisory_unlock\<close> and the end of a session.\<close>

definition lockable :: "int \<Rightarrow> nat \<Rightarrow> lock_sys \<Rightarrow> bool" where
  "lockable k c s = list_all (\<lambda>d. d = c) (ls_locks s k)"

definition grant :: "int \<Rightarrow> nat \<Rightarrow> lock_sys \<Rightarrow> lock_sys" where
  "grant k c s = s\<lparr>ls_locks := (ls_locks s)(k := c # ls_locks s k)\<rparr>"

definition ungrant :: "int \<Rightarrow> nat \<Rightarrow> lock_sys \<Rightarrow> lock_sys" where
  "ungrant k c s = s\<lparr>ls_locks := (ls_locks s)(k := remove1 c (ls_locks s k))\<rparr>"

definition end_session :: "nat \<Rightarrow> lock_sys \<Rightarrow> lock_sys" where
  "end_session c s = s\<lparr>ls_locks := (\<lambda>k. removeAll c (ls_locks s k)), ls_live := (ls_live s)(c := False)\<rparr>"

text \<open>The pool gives a connection to one caller at a time.\<close>

definition unused :: "nat \<Rightarrow> lock_sys \<Rightarrow> bool" where
  "unused c s = (\<forall>j. ls_pc s j \<noteq> Out \<longrightarrow> ls_conn s j \<noteq> c)"

text \<open>The moves of worker \<open>i\<close>, which syncs partner \<open>P i\<close>.\<close>

inductive lock_move :: "(nat \<Rightarrow> string) \<Rightarrow> nat \<Rightarrow> lock_sys \<Rightarrow> lock_sys \<Rightarrow> bool" for P where
  acquire: "ls_pc s i = Out \<Longrightarrow> unused c s \<Longrightarrow> lock_move P i s (connect i c s)"
| try_granted: "ls_pc s i = Connected \<Longrightarrow> ls_live s (ls_conn s i) \<Longrightarrow> lockable (sync_key (P i)) (ls_conn s i) s \<Longrightarrow>
    lock_move P i s (goto i Inside (grant (sync_key (P i)) (ls_conn s i) s))"
| try_held: "ls_pc s i = Connected \<Longrightarrow> \<not> lockable (sync_key (P i)) (ls_conn s i) s \<Longrightarrow> lock_move P i s (goto i Out s)"
| try_failed: "ls_pc s i = Connected \<Longrightarrow> lock_move P i s (goto i Out s)"
| body_returns: "ls_pc s i = Inside \<Longrightarrow> lock_move P i s (goto i Leaving s)"
| unlock: "ls_pc s i = Leaving \<Longrightarrow> ls_live s (ls_conn s i) \<Longrightarrow>
    lock_move P i s (goto i Out (ungrant (sync_key (P i)) (ls_conn s i) s))"
| unlock_failed: "ls_pc s i = Leaving \<Longrightarrow> lock_move P i s (goto i Out s)"

inductive_cases lock_move_elim: "lock_move P i s t"

inductive lock_step :: "(nat \<Rightarrow> string) \<Rightarrow> lock_sys \<Rightarrow> lock_sys \<Rightarrow> bool" for P where
  worker_moves: "lock_move P i s t \<Longrightarrow> lock_step P s t"
| session_ends: "lock_step P s (end_session c s)"

text \<open>What can happen while worker \<open>i\<close> itself stands still, in its callback.\<close>

inductive others_step :: "(nat \<Rightarrow> string) \<Rightarrow> nat \<Rightarrow> lock_sys \<Rightarrow> lock_sys \<Rightarrow> bool" for P i where
  other_moves: "j \<noteq> i \<Longrightarrow> lock_move P j s t \<Longrightarrow> others_step P i s t"
| session_lost: "others_step P i s (end_session c s)"

lemma others_step_lock_step: "others_step P i s t \<Longrightarrow> lock_step P s t"
  by (induction rule: others_step.induct) (blast intro: lock_step.intros)+

definition lock_reachable :: "(nat \<Rightarrow> string) \<Rightarrow> lock_sys \<Rightarrow> bool" where
  "lock_reachable P s = (lock_step P)\<^sup>*\<^sup>* lock_start s"

named_theorems lock_defs

declare goto_def [lock_defs] connect_def [lock_defs] grant_def [lock_defs] ungrant_def [lock_defs]
  end_session_def [lock_defs] lockable_def [lock_defs] unused_def [lock_defs]

text \<open>
  The invariant: no connection has two users, a lock is held by one session only, by none that
  has ended, and whoever is in its callback on a session that stands has the lock of its partner.
\<close>

definition sessions_apart :: "lock_sys \<Rightarrow> bool" where
  "sessions_apart s = (\<forall>i j. ls_pc s i \<noteq> Out \<longrightarrow> ls_pc s j \<noteq> Out \<longrightarrow> ls_conn s i = ls_conn s j \<longrightarrow> i = j)"

definition one_holder :: "lock_sys \<Rightarrow> bool" where
  "one_holder s = (\<forall>k c d. c \<in> set (ls_locks s k) \<longrightarrow> d \<in> set (ls_locks s k) \<longrightarrow> c = d)"

definition inside_holds :: "(nat \<Rightarrow> string) \<Rightarrow> lock_sys \<Rightarrow> bool" where
  "inside_holds P s = (\<forall>i. ls_pc s i \<in> {Inside, Leaving} \<longrightarrow> ls_live s (ls_conn s i) \<longrightarrow>
     ls_conn s i \<in> set (ls_locks s (sync_key (P i))))"

definition dead_hold_none :: "lock_sys \<Rightarrow> bool" where
  "dead_hold_none s = (\<forall>k c. c \<in> set (ls_locks s k) \<longrightarrow> ls_live s c)"

definition lock_inv :: "(nat \<Rightarrow> string) \<Rightarrow> lock_sys \<Rightarrow> bool" where
  "lock_inv P s = (sessions_apart s \<and> one_holder s \<and> dead_hold_none s \<and> inside_holds P s)"

lemma sessions_apart_move: "lock_move P i s t \<Longrightarrow> sessions_apart s \<Longrightarrow> sessions_apart t"
  by (erule lock_move_elim) (auto simp: sessions_apart_def lock_defs split: if_splits)

lemma one_holder_move: "lock_move P i s t \<Longrightarrow> one_holder s \<Longrightarrow> one_holder t"
  by (erule lock_move_elim)
    (auto simp: one_holder_def lock_defs list_all_iff split: if_splits dest: notin_set_remove1 in_set_remove1)

lemma dead_hold_none_move: "lock_move P i s t \<Longrightarrow> dead_hold_none s \<Longrightarrow> dead_hold_none t"
  by (erule lock_move_elim)
    (auto simp: dead_hold_none_def lock_defs split: if_splits dest: notin_set_remove1)

lemma in_remove1I: "x \<in> set xs \<Longrightarrow> x \<noteq> y \<Longrightarrow> x \<in> set (remove1 y xs)"
  by simp

lemma inside_holds_move: "lock_move P i s t \<Longrightarrow> sessions_apart s \<Longrightarrow> inside_holds P s \<Longrightarrow> inside_holds P t"
  by (erule lock_move_elim)
    (auto simp: inside_holds_def sessions_apart_def lock_defs split: if_splits, (metis in_remove1I lock_pc.distinct)+)

lemma lock_inv_step: "lock_step P s t \<Longrightarrow> lock_inv P s \<Longrightarrow> lock_inv P t"
proof (induction rule: lock_step.induct)
  case (worker_moves i s t)
  then show ?case
    unfolding lock_inv_def using sessions_apart_move one_holder_move dead_hold_none_move inside_holds_move by blast
next
  case (session_ends s c)
  then show ?case
    by (auto simp: lock_inv_def sessions_apart_def one_holder_def dead_hold_none_def inside_holds_def lock_defs split: if_splits)
qed

lemma lock_inv_start: "lock_inv P lock_start"
  by (simp add: lock_inv_def sessions_apart_def one_holder_def dead_hold_none_def inside_holds_def lock_start_def)

lemma lock_inv_steps: "(lock_step P)\<^sup>*\<^sup>* s t \<Longrightarrow> lock_inv P s \<Longrightarrow> lock_inv P t"
  by (induction rule: rtranclp_induct) (blast intro: lock_inv_step)+

lemma lock_inv_reachable: "lock_reachable P s \<Longrightarrow> lock_inv P s"
  unfolding lock_reachable_def using lock_inv_steps [OF _ lock_inv_start] .

lemma lock_holder:
  assumes "lock_reachable P s" and "ls_pc s i \<in> {Inside, Leaving}" and "ls_live s (ls_conn s i)"
  shows "ls_conn s i \<in> set (ls_locks s (sync_key (P i)))"
  using lock_inv_reachable [OF assms(1)] assms(2,3) unfolding lock_inv_def inside_holds_def by blast

lemma lock_unique:
  assumes "lock_reachable P s" and "ls_pc s i = Inside" and "ls_pc s j = Inside"
    and "ls_live s (ls_conn s i)" and "ls_live s (ls_conn s j)" and "sync_key (P i) = sync_key (P j)"
  shows "i = j"
proof -
  have "ls_conn s i = ls_conn s j"
    using lock_holder [OF assms(1), of i] lock_holder [OF assms(1), of j] lock_inv_reachable [OF assms(1)] assms(2-6)
    unfolding lock_inv_def one_holder_def by auto
  then show ?thesis
    using lock_inv_reachable [OF assms(1)] assms(2,3) unfolding lock_inv_def sessions_apart_def
    by (metis lock_pc.distinct(3))
qed

section \<open>One worker alone\<close>

text \<open>
  The functions against the transition system: a connection whose requests run on that lock
  table. The fates of a call say how each of its requests ends: it works, it errs and the
  session stands, or the session ends under it (a driver that loses an answer closes the
  connection). \<open>c\<close> is the session of the connection the pool hands over.
\<close>

datatype fate = Works | Errs | Drops

record call_fates =
  fa_acquire :: fate
  fa_try :: fate
  fa_unlock :: fate

definition table_conn :: "nat \<Rightarrow> nat \<Rightarrow> call_fates \<Rightarrow> (lock_sys \<times> 's) lock_conn" where
  "table_conn i c f =
     \<lparr>lk_acquire = (\<lambda>(s, x). case fa_acquire f of
          Works \<Rightarrow> (None, connect i c s, x)
        | _ \<Rightarrow> (Some (Plain ''failed to connect''), s, x)),
      lk_try = (\<lambda>key (s, x). case fa_try f of
          Works \<Rightarrow> if \<not> ls_live s c then (Inl (Plain ''conn closed''), s, x)
                   else if lockable key c s then (Inr True, goto i Inside (grant key c s), x)
                   else (Inr False, s, x)
        | Errs \<Rightarrow> (Inl (Plain ''query failed''), s, x)
        | Drops \<Rightarrow> (Inl (Plain ''conn closed''), end_session c s, x)),
      lk_unlock = (\<lambda>key (s, x). case fa_unlock f of
          Works \<Rightarrow> if ls_live s c then (ungrant key c s, x) else (s, x)
        | Errs \<Rightarrow> (s, x)
        | Drops \<Rightarrow> (end_session c s, x)),
      lk_release = (\<lambda>(s, x). (goto i Out s, x))\<rparr>"

text \<open>While the callback runs, other workers move and sessions end, its own among them.\<close>

definition minds_own_business :: "(nat \<Rightarrow> string) \<Rightarrow> nat \<Rightarrow> (lock_sys \<times> 's \<Rightarrow> goerror option \<times> (lock_sys \<times> 's)) \<Rightarrow> bool" where
  "minds_own_business P i fn = (\<forall>s x r s' x'. fn (s, x) = (r, (s', x')) \<longrightarrow> (others_step P i)\<^sup>*\<^sup>* s s')"

lemma goto_goto [simp]: "goto i p (goto i q s) = goto i p s"
  by (simp add: goto_def)

lemma goto_simps [simp]:
  "ls_pc (goto i p s) i = p" "ls_conn (goto i p s) = ls_conn s" "ls_locks (goto i p s) = ls_locks s"
  "ls_live (goto i p s) = ls_live s"
  by (simp_all add: goto_def)

text \<open>How often session \<open>c\<close> has the lock of key \<open>k\<close>.\<close>

definition times_held :: "lock_sys \<Rightarrow> int \<Rightarrow> nat \<Rightarrow> nat" where
  "times_held s k c = count_list (ls_locks s k) c"

lemma count_remove1: "count_list (remove1 x xs) y = (if x = y then count_list xs y - 1 else count_list xs y)"
  by (induction xs) (auto simp: count_list_0_iff)

lemma count_removeAll: "count_list (removeAll x xs) y = (if x = y then 0 else count_list xs y)"
  by (induction xs) auto

lemma others_step_frame:
  assumes "others_step P i s t" and "sessions_apart s" and "ls_pc s i \<noteq> Out"
  shows "ls_pc t i = ls_pc s i \<and> ls_conn t i = ls_conn s i \<and> times_held t k (ls_conn s i) \<le> times_held s k (ls_conn s i)"
  using assms
proof (induction rule: others_step.induct)
  case (other_moves j s t)
  from other_moves(2,1,3,4) show ?case
    by (elim lock_move_elim) (auto simp: lock_defs times_held_def count_remove1 sessions_apart_def)
next
  case (session_lost s c)
  then show ?case by (auto simp: lock_defs times_held_def count_removeAll)
qed

lemma others_steps_frame:
  assumes "(others_step P i)\<^sup>*\<^sup>* s t" and "lock_inv P s" and "ls_pc s i \<noteq> Out"
  shows "lock_inv P t \<and> ls_pc t i = ls_pc s i \<and> ls_conn t i = ls_conn s i
    \<and> times_held t k (ls_conn s i) \<le> times_held s k (ls_conn s i)"
  using assms
proof (induction rule: rtranclp_induct)
  case (step t u)
  then have t: "lock_inv P t" "ls_pc t i \<noteq> Out" "ls_conn t i = ls_conn s i" "ls_pc t i = ls_pc s i"
    "times_held t k (ls_conn s i) \<le> times_held s k (ls_conn s i)" by auto
  moreover have "lock_inv P u"
    using lock_inv_step [OF others_step_lock_step [OF step(2)] t(1)] .
  ultimately show ?case
    using others_step_frame [OF step(2) _ t(2), of k] by (auto simp: lock_inv_def)
qed simp

lemma others_steps: "(others_step P i)\<^sup>*\<^sup>* s t \<Longrightarrow> (lock_step P)\<^sup>*\<^sup>* s t"
  by (induction rule: rtranclp_induct) (auto intro: rtranclp.rtrancl_into_rtrancl others_step_lock_step)

text \<open>The whole call: a run of the system, after which the session has no lock it had not before,
  unless the statement that unlocks failed and the session stands.\<close>

definition left_over :: "call_fates \<Rightarrow> string \<Rightarrow> int \<Rightarrow> nat" where
  "left_over f partner k = (if fa_unlock f = Errs \<and> k = sync_key partner then 1 else 0)"

lemma WithSyncLock_runs:
  assumes inv: "lock_inv P s" and out: "ls_pc s i = Out" and free: "unused c s" and fn: "minds_own_business P i fn"
    and run: "WithSyncLock (table_conn i c f) (P i) fn (s, x) = (r, (s', x'))"
  shows "(lock_step P)\<^sup>*\<^sup>* s s' \<and> ls_pc s' i = Out \<and> times_held s' k c \<le> times_held s k c + left_over f (P i) k"
proof (cases "fa_acquire f = Works")
  case False
  then show ?thesis using run out by (auto simp: WithSyncLock_def table_conn_def split: fate.splits)
next
  case acq: True
  define s1 where "s1 = connect i c s"
  have one: "lock_step P s s1" unfolding s1_def by (rule worker_moves [OF acquire [OF out free]])
  have s1: "ls_pc s1 i = Connected" "ls_conn s1 i = c" "ls_locks s1 = ls_locks s" "ls_live s1 = ls_live s"
    by (simp_all add: s1_def lock_defs)
  have fails: "lock_step P s1 (goto i Out s1)"
    by (rule worker_moves [OF try_failed [OF s1(1)]])
  show ?thesis
  proof (cases "fa_try f = Works \<and> ls_live s c \<and> lockable (sync_key (P i)) c s1")
    case False
    then consider (failed) "s' = goto i Out s1" | (lost) "s' = goto i Out (end_session c s1)"
      using run acq s1(4)
      by (cases "fa_try f") (auto simp: WithSyncLock_def table_conn_def Let_def s1_def [symmetric] split: if_splits)
    then show ?thesis
    proof cases
      case failed
      then show ?thesis using one fails s1 by (auto simp: times_held_def)
    next
      case lost
      have "lock_step P s1 (end_session c s1)" by (rule session_ends)
      moreover have "lock_step P (end_session c s1) (goto i Out (end_session c s1))"
        using try_failed [of "end_session c s1" i P] by (auto intro: worker_moves simp: end_session_def s1)
      ultimately have "(lock_step P)\<^sup>*\<^sup>* s s'" unfolding lost using one
        by (meson rtranclp.rtrancl_into_rtrancl rtranclp.rtrancl_refl)
      then show ?thesis using lost by (auto simp: times_held_def end_session_def count_removeAll)
    qed
  next
    case True
    define s2 where "s2 = goto i Inside (grant (sync_key (P i)) c s1)"
    have "lock_move P i s1 s2"
      unfolding s2_def using try_granted [of s1 i P] s1 True by simp
    then have two: "lock_step P s1 s2" by (rule worker_moves)
    have s2: "ls_pc s2 i = Inside" "ls_conn s2 i = c" by (simp_all add: s2_def s1 grant_def)
    have held: "times_held s2 k c = times_held s k c + (if k = sync_key (P i) then 1 else 0)"
      by (simp add: times_held_def s2_def s1 grant_def)
    have inv2: "lock_inv P s2" using inv one two by (blast intro: lock_inv_step)
    obtain r3 s3 x3 where r3: "fn (s2, x) = (r3, (s3, x3))" by (cases "fn (s2, x)") auto
    with fn have three: "(others_step P i)\<^sup>*\<^sup>* s2 s3" unfolding minds_own_business_def by blast
    from others_steps_frame [OF this inv2, of k] s2
    have s3: "lock_inv P s3" "ls_pc s3 i = Inside" "ls_conn s3 i = c" "times_held s3 k c \<le> times_held s2 k c" by auto
    define s4 where "s4 = goto i Leaving s3"
    have four: "lock_step P s3 s4" unfolding s4_def by (rule worker_moves [OF body_returns [OF s3(2)]])
    have s4: "ls_pc s4 i = Leaving" "ls_conn s4 i = c" "times_held s4 k c = times_held s3 k c"
      "ls_locks s4 = ls_locks s3" "ls_live s4 = ls_live s3"
      by (simp_all add: s4_def s3 times_held_def)
    have from3: "goto i Out s4 = goto i Out s3" "goto i Out (end_session c s4) = goto i Out (end_session c s3)"
      "goto i Out (ungrant (sync_key (P i)) c s4) = goto i Out (ungrant (sync_key (P i)) c s3)"
      by (simp_all add: s4_def ungrant_def end_session_def goto_def)
    have to4: "(lock_step P)\<^sup>*\<^sup>* s s4"
      using one two others_steps [OF three] four
      by (blast intro: converse_rtranclp_into_rtranclp rtranclp.rtrancl_into_rtrancl)
    consider (works) "fa_unlock f = Works" "ls_live s4 c" "s' = goto i Out (ungrant (sync_key (P i)) c s4)"
      | (gone) "fa_unlock f = Works" "\<not> ls_live s4 c" "s' = goto i Out s4"
      | (errs) "fa_unlock f = Errs" "s' = goto i Out s4"
      | (drops) "s' = goto i Out (end_session c s4)"
      using run acq True r3 s1(4)
      by (cases "fa_unlock f")
        (auto simp: WithSyncLock_def table_conn_def Let_def s1_def [symmetric] s2_def [symmetric] from3 s4(5) split: if_splits)
    then show ?thesis
    proof cases
      case works
      have "lock_move P i s4 s'"
        using unlock [of s4 i P] s4 works by simp
      then show ?thesis
        using to4 works s4 s3 held by (auto simp: times_held_def ungrant_def count_remove1 intro: worker_moves rtranclp.rtrancl_into_rtrancl)
    next
      case gone
      have "lock_step P s4 s'" using unlock_failed [OF s4(1)] gone by (auto intro: worker_moves)
      moreover have "times_held s' k c = 0"
        using s3(1) gone s4 by (auto simp: times_held_def lock_inv_def dead_hold_none_def count_list_0_iff)
      ultimately show ?thesis using to4 gone by auto
    next
      case errs
      have "lock_step P s4 s'" using unlock_failed [OF s4(1)] errs by (auto intro: worker_moves)
      then show ?thesis using to4 errs s4 s3 held by (auto simp: times_held_def left_over_def)
    next
      case drops
      have "lock_step P s4 (end_session c s4)" by (rule session_ends)
      moreover have "lock_step P (end_session c s4) s'"
        unfolding drops by (rule worker_moves [OF unlock_failed]) (simp add: end_session_def s4)
      ultimately have "(lock_step P)\<^sup>*\<^sup>* s s'" using to4 by (meson rtranclp.rtrancl_into_rtrancl)
      then show ?thesis using drops by (auto simp: times_held_def end_session_def count_removeAll)
    qed
  qed
qed

end
