(* ===== verification/Migrations.thy ===== *)
theory Migrations
  imports Go_Errors
begin

text \<open>
  \<open>store/postgres/migrate.go\<close>: the migrations. The connection's calls are a parameter; the
  locale \<open>migration_server\<close> states what they do to the versions recorded and the scripts run,
  as the session sees them and as they are committed, and the theory's result is that \<open>Migrate\<close>
  leaves a prefix of the pending files applied, each with its record, and all of them when it
  reports no error.
\<close>

section \<open>The code\<close>

record 'w migration_conn =
  mg_acquire :: "'w \<Rightarrow> goerror option \<times> 'w"
  mg_lock :: "int \<Rightarrow> 'w \<Rightarrow> goerror option \<times> 'w"
  mg_unlock :: "int \<Rightarrow> 'w \<Rightarrow> 'w"
  mg_release :: "'w \<Rightarrow> 'w"
  mg_create_table :: "'w \<Rightarrow> goerror option \<times> 'w"
  mg_applied :: "string \<Rightarrow> 'w \<Rightarrow> bool result \<times> 'w"
  mg_begin :: "'w \<Rightarrow> goerror option \<times> 'w"
  mg_exec :: "string \<Rightarrow> 'w \<Rightarrow> goerror option \<times> 'w"
  mg_record :: "string \<Rightarrow> 'w \<Rightarrow> goerror option \<times> 'w"
  mg_rollback :: "'w \<Rightarrow> 'w"
  mg_commit :: "'w \<Rightarrow> goerror option \<times> 'w"

text \<open>The embedded files: \<open>fs.Glob\<close> and \<open>ReadFile\<close> on \<open>embed.FS\<close>.\<close>

record migration_files =
  mf_glob :: "string list result"
  mf_read :: "string \<Rightarrow> string result"

definition migrationLockKey :: int where "migrationLockKey = 8531204771001"

text \<open>The body of the loop for a file that is not applied yet.\<close>

definition apply_file :: "'w migration_conn \<Rightarrow> migration_files \<Rightarrow> string \<Rightarrow> 'w \<Rightarrow> goerror option \<times> 'w" where
  "apply_file conn files file w =
     (case mf_read files file of
        Inl e \<Rightarrow> (Some e, w)
      | Inr body \<Rightarrow>
          (case mg_begin conn w of
             (Some e, w1) \<Rightarrow> (Some (Wrapped (''migrate: begin '' @ file) e), w1)
           | (None, w1) \<Rightarrow>
               (case mg_exec conn body w1 of
                  (Some e, w2) \<Rightarrow> (Some (Wrapped (''migrate: apply '' @ file) e), mg_rollback conn w2)
                | (None, w2) \<Rightarrow>
                    (case mg_record conn file w2 of
                       (Some e, w3) \<Rightarrow> (Some (Wrapped (''migrate: record '' @ file) e), mg_rollback conn w3)
                     | (None, w3) \<Rightarrow>
                         (case mg_commit conn w3 of
                            (Some e, w4) \<Rightarrow> (Some (Wrapped (''migrate: commit '' @ file) e), w4)
                          | (None, w4) \<Rightarrow> (None, w4))))))"

text \<open>The ways it ends, in the order of its early returns.\<close>

lemma apply_file_cases:
  assumes "apply_file conn files file w = (r, w')"
  obtains (unread) e where "mf_read files file = Inl e" "r = Some e" "w' = w"
  | (not_begun) body e where "mf_read files file = Inr body" "mg_begin conn w = (Some e, w')" "r \<noteq> None"
  | (not_run) body w1 e w2 where "mf_read files file = Inr body" "mg_begin conn w = (None, w1)"
      "mg_exec conn body w1 = (Some e, w2)" "w' = mg_rollback conn w2" "r \<noteq> None"
  | (not_recorded) body w1 w2 e w3 where "mf_read files file = Inr body" "mg_begin conn w = (None, w1)"
      "mg_exec conn body w1 = (None, w2)" "mg_record conn file w2 = (Some e, w3)" "w' = mg_rollback conn w3" "r \<noteq> None"
  | (not_committed) body w1 w2 w3 e where "mf_read files file = Inr body" "mg_begin conn w = (None, w1)"
      "mg_exec conn body w1 = (None, w2)" "mg_record conn file w2 = (None, w3)"
      "mg_commit conn w3 = (Some e, w')" "r \<noteq> None"
  | (applied) body w1 w2 w3 where "mf_read files file = Inr body" "mg_begin conn w = (None, w1)"
      "mg_exec conn body w1 = (None, w2)" "mg_record conn file w2 = (None, w3)"
      "mg_commit conn w3 = (None, w')" "r = None"
  using assms by (auto simp: apply_file_def split: sum.splits prod.splits option.splits)

fun apply_files :: "'w migration_conn \<Rightarrow> migration_files \<Rightarrow> string list \<Rightarrow> 'w \<Rightarrow> goerror option \<times> 'w" where
  "apply_files conn files [] w = (None, w)"
| "apply_files conn files (file # rest) w =
     (case mg_applied conn file w of
        (Inl e, w1) \<Rightarrow> (Some (Wrapped (''migrate: check '' @ file) e), w1)
      | (Inr True, w1) \<Rightarrow> apply_files conn files rest w1
      | (Inr False, w1) \<Rightarrow>
          (case apply_file conn files file w1 of
             (Some e, w2) \<Rightarrow> (Some e, w2)
           | (None, w2) \<Rightarrow> apply_files conn files rest w2))"

text \<open>What runs under the lock.\<close>

definition migrate_locked :: "'w migration_conn \<Rightarrow> migration_files \<Rightarrow> 'w \<Rightarrow> goerror option \<times> 'w" where
  "migrate_locked conn files w =
     (case mg_create_table conn w of
        (Some e, w1) \<Rightarrow> (Some (Wrapped ''migrate: create schema_migrations'' e), w1)
      | (None, w1) \<Rightarrow>
          (case mf_glob files of
             Inl e \<Rightarrow> (Some e, w1)
           | Inr names \<Rightarrow> apply_files conn files (sort names) w1))"

definition Migrate :: "'w migration_conn \<Rightarrow> migration_files \<Rightarrow> 'w \<Rightarrow> goerror option \<times> 'w" where
  "Migrate conn files w =
     (case mg_acquire conn w of
        (Some e, w1) \<Rightarrow> (Some (Wrapped ''migrate: acquire connection'' e), w1)
      | (None, w1) \<Rightarrow>
          (case mg_lock conn migrationLockKey w1 of
             (Some e, w2) \<Rightarrow> (Some (Wrapped ''migrate: take lock'' e), mg_release conn w2)
           | (None, w2) \<Rightarrow>
               (case migrate_locked conn files w2 of
                  (r, w3) \<Rightarrow> (r, mg_release conn (mg_unlock conn migrationLockKey w3)))))"

section \<open>What the server promises\<close>

text \<open>
  \<open>committed w\<close> is the list of versions recorded and the list of scripts run, as committed;
  \<open>seen w\<close> the same as the session sees it, which differs inside a transaction. Waiting for the
  lock gives other processes time to commit, so the promises about it are about the state in
  which it is granted.
\<close>

locale migration_server =
  fixes conn :: "'w migration_conn"
    and committed seen :: "'w \<Rightarrow> string list \<times> string list"
  assumes acquire_frame: "mg_acquire conn w = (oe, w') \<Longrightarrow> seen w = committed w \<Longrightarrow> seen w' = committed w'"
    and lock_frame: "mg_lock conn k w = (oe, w') \<Longrightarrow> seen w = committed w \<Longrightarrow> seen w' = committed w'"
    and unlock_frame: "committed (mg_unlock conn k w) = committed w \<and> seen (mg_unlock conn k w) = seen w"
    and release_frame: "committed (mg_release conn w) = committed w \<and> seen (mg_release conn w) = seen w"
    and create_frame: "mg_create_table conn w = (oe, w') \<Longrightarrow> committed w' = committed w \<and> seen w' = seen w"
    and applied_frame: "mg_applied conn file w = (rb, w') \<Longrightarrow> committed w' = committed w \<and> seen w' = seen w"
    and applied_answer: "mg_applied conn file w = (Inr b, w') \<Longrightarrow> b = (file \<in> set (fst (seen w)))"
    and begin_frame: "mg_begin conn w = (oe, w') \<Longrightarrow> committed w' = committed w \<and> seen w' = seen w"
    and exec_done: "mg_exec conn body w = (None, w') \<Longrightarrow>
      committed w' = committed w \<and> seen w' = (fst (seen w), snd (seen w) @ [body])"
    and exec_failed: "mg_exec conn body w = (Some e, w') \<Longrightarrow> committed w' = committed w"
    and record_done: "mg_record conn file w = (None, w') \<Longrightarrow>
      committed w' = committed w \<and> seen w' = (fst (seen w) @ [file], snd (seen w))"
    and record_failed: "mg_record conn file w = (Some e, w') \<Longrightarrow> committed w' = committed w"
    and rollback: "committed (mg_rollback conn w) = committed w \<and> seen (mg_rollback conn w) = committed w"
    and commit_done: "mg_commit conn w = (None, w') \<Longrightarrow> committed w' = seen w \<and> seen w' = seen w"
    and commit_failed: "mg_commit conn w = (Some e, w') \<Longrightarrow> committed w' = committed w \<and> seen w' = committed w"

text \<open>The files still to be applied, and what applying some of them comes to.\<close>

definition pending_files :: "string list \<times> string list \<Rightarrow> string list \<Rightarrow> string list" where
  "pending_files db names = filter (\<lambda>f. f \<notin> set (fst db)) names"

definition body_of :: "migration_files \<Rightarrow> string \<Rightarrow> string" where
  "body_of files file = (case mf_read files file of Inl _ \<Rightarrow> [] | Inr body \<Rightarrow> body)"

definition with_files :: "migration_files \<Rightarrow> string list \<Rightarrow> string list \<times> string list \<Rightarrow> string list \<times> string list" where
  "with_files files fs db = (fst db @ fs, snd db @ map (body_of files) fs)"

lemma with_files_Nil [simp]: "with_files files [] db = db"
  by (simp add: with_files_def)

lemma with_files_Cons: "with_files files fs (with_files files [f] db) = with_files files (f # fs) db"
  by (simp add: with_files_def)

text \<open>A prefix of the pending files was applied; all of them when there is no error.\<close>

definition migrated :: "migration_files \<Rightarrow> string list \<Rightarrow> string list \<times> string list \<Rightarrow>
    string list \<times> string list \<Rightarrow> goerror option \<Rightarrow> bool" where
  "migrated files names db db' r =
     (\<exists>fs rest. pending_files db names = fs @ rest \<and> db' = with_files files fs db \<and> (r = None \<longrightarrow> rest = []))"

lemma migratedI:
  "pending_files db names = fs @ rest \<Longrightarrow> db' = with_files files fs db \<Longrightarrow> (r = None \<Longrightarrow> rest = []) \<Longrightarrow>
    migrated files names db db' r"
  by (auto simp: migrated_def)

lemma migrated_all:
  assumes "migrated files (sort names) db db' None"
  shows "set names \<subseteq> set (fst db')"
proof -
  from assms have "db' = with_files files (pending_files db (sort names)) db"
    by (auto simp: migrated_def)
  then show ?thesis by (auto simp: with_files_def pending_files_def)
qed

text \<open>The state in which the lock is granted, or refused.\<close>

definition lock_granted :: "'w migration_conn \<Rightarrow> 'w \<Rightarrow> 'w" where
  "lock_granted conn w =
     (case mg_acquire conn w of
        (Some _, w1) \<Rightarrow> w1
      | (None, w1) \<Rightarrow> snd (mg_lock conn migrationLockKey w1))"

lemma migrated_none: "migrated files names db db (Some e)"
  by (rule migratedI [where fs = "[]"]) auto

context migration_server begin

lemma apply_file_effect:
  assumes "apply_file conn files file w = (r, w')" and "seen w = committed w"
  shows "seen w' = committed w'"
    and "r = None \<Longrightarrow> committed w' = with_files files [file] (committed w)"
    and "r = Some e \<Longrightarrow> committed w' = committed w"
proof -
  have "seen w' = committed w' \<and> (case r of
      None \<Rightarrow> committed w' = with_files files [file] (committed w) | Some _ \<Rightarrow> committed w' = committed w)"
    using assms(1)
  proof (cases rule: apply_file_cases)
    case unread
    then show ?thesis using assms(2) by simp
  next
    case not_begun
    then show ?thesis using begin_frame [OF not_begun(2)] assms(2) by auto
  next
    case (not_run body w1 e w2)
    then show ?thesis using begin_frame [OF not_run(2)] exec_failed [OF not_run(3)] rollback by auto
  next
    case (not_recorded body w1 w2 e w3)
    then show ?thesis
      using begin_frame [OF not_recorded(2)] exec_done [OF not_recorded(3)] record_failed [OF not_recorded(4)] rollback by auto
  next
    case (not_committed body w1 w2 w3 e)
    then show ?thesis
      using begin_frame [OF not_committed(2)] exec_done [OF not_committed(3)] record_done [OF not_committed(4)]
        commit_failed [OF not_committed(5)] by auto
  next
    case (applied body w1 w2 w3)
    then show ?thesis
      using begin_frame [OF applied(2)] exec_done [OF applied(3)] record_done [OF applied(4)]
        commit_done [OF applied(5)] assms(2) by (simp add: with_files_def body_of_def)
  qed
  then show "seen w' = committed w'"
    and "r = None \<Longrightarrow> committed w' = with_files files [file] (committed w)"
    and "r = Some e \<Longrightarrow> committed w' = committed w"
    by auto
qed

lemma pending_after:
  assumes "f \<notin> set names"
  shows "pending_files (with_files files [f] db) names = pending_files db names"
  using assms by (auto simp: pending_files_def with_files_def intro!: filter_cong)

lemma apply_files_effect:
  assumes "apply_files conn files names w = (r, w')" and "seen w = committed w" and "distinct names"
  shows "seen w' = committed w' \<and> migrated files names (committed w) (committed w') r"
  using assms
proof (induction names arbitrary: w)
  case (Cons f names)
  obtain a w1 where a: "mg_applied conn f w = (a, w1)" by fastforce
  note frame = applied_frame [OF a]
  show ?case
  proof (cases a)
    case (Inl e)
    with Cons.prems a frame show ?thesis by (auto intro!: migrated_none)
  next
    case (Inr b)
    note b = applied_answer [OF a [unfolded Inr]]
    show ?thesis
    proof (cases b)
      case True
      with Cons.prems a Inr have "apply_files conn files names w1 = (r, w')" by simp
      from Cons.IH [OF this] Cons.prems frame b True show ?thesis
        by (simp add: pending_files_def migrated_def)
    next
      case False
      with b Cons.prems(2) have new: "pending_files (committed w) (f # names) = f # pending_files (committed w) names"
        by (simp add: pending_files_def)
      obtain ra w2 where one: "apply_file conn files f w1 = (ra, w2)" by fastforce
      have "seen w1 = committed w1" using frame Cons.prems(2) by simp
      note eff = apply_file_effect [OF one this]
      show ?thesis
      proof (cases ra)
        case (Some e)
        with Cons.prems a Inr False one have "w' = w2" "r = Some e" by simp_all
        with eff Some frame show ?thesis by (simp add: migrated_none)
      next
        case None
        with Cons.prems a Inr False one have "apply_files conn files names w2 = (r, w')" by simp
        from Cons.IH [OF this eff(1)] Cons.prems(3) obtain fs rest where
          "seen w' = committed w'" "pending_files (committed w2) names = fs @ rest"
          "committed w' = with_files files fs (committed w2)" "r = None \<longrightarrow> rest = []"
          by (auto simp: migrated_def)
        moreover have "committed w2 = with_files files [f] (committed w)"
          using eff(2) None frame by simp
        ultimately show ?thesis
          using new pending_after [of f names] Cons.prems(3)
          by (intro conjI migratedI [of _ _ "f # fs" rest]) (simp_all add: with_files_Cons)
      qed
    qed
  qed
qed (auto simp: pending_files_def migrated_def)

lemma locked_effect:
  assumes "migrate_locked conn files w = (r, w')" and "seen w = committed w"
    and "mf_glob files = Inr names" and "distinct names"
  shows "seen w' = committed w' \<and> migrated files (sort names) (committed w) (committed w') r"
proof -
  obtain c w1 where c: "mg_create_table conn w = (c, w1)" by fastforce
  note frame = create_frame [OF c]
  show ?thesis
  proof (cases c)
    case (Some e)
    with assms(1,2) c frame show ?thesis
      by (auto simp: migrate_locked_def intro!: migrated_none)
  next
    case None
    with assms(1,3) c have "apply_files conn files (sort names) w1 = (r, w')"
      by (simp add: migrate_locked_def)
    from apply_files_effect [OF this] assms(2,4) frame show ?thesis by simp
  qed
qed

text \<open>
  From the state the lock is granted in to the state the call leaves: a prefix of the pending
  files, in the order of their names.
\<close>

lemma migrate_effect:
  assumes "Migrate conn files w = (r, w')" and "seen w = committed w"
    and "mf_glob files = Inr names" and "distinct names"
  shows "migrated files (sort names) (committed (lock_granted conn w)) (committed w') r"
proof (cases "mg_acquire conn w")
  case (Pair a w1)
  note s1 = acquire_frame [OF Pair assms(2)]
  show ?thesis
  proof (cases a)
    case (Some e)
    with assms(1) Pair show ?thesis
      by (auto simp: Migrate_def lock_granted_def intro: migrated_none)
  next
    case None
    obtain l w2 where l: "mg_lock conn migrationLockKey w1 = (l, w2)" by fastforce
    note s2 = lock_frame [OF l s1]
    have granted: "lock_granted conn w = w2" using Pair None l by (simp add: lock_granted_def)
    show ?thesis
    proof (cases l)
      case (Some e)
      with assms(1) Pair None l release_frame show ?thesis
        by (auto simp: Migrate_def granted intro: migrated_none)
    next
      case None
      obtain q w3 where q: "migrate_locked conn files w2 = (q, w3)" by fastforce
      from assms(1) Pair \<open>a = None\<close> None l q have "r = q" "committed w' = committed w3"
        using release_frame unlock_frame by (auto simp: Migrate_def)
      with locked_effect [OF q s2 assms(3,4)] show ?thesis by (simp add: granted)
    qed
  qed
qed

end

section \<open>An instance\<close>

text \<open>
  A server with one session: what is committed, what the session has changed, and calls that
  fail where \<open>ms_fault\<close> says so.
\<close>

record migration_db =
  md_committed :: "string list \<times> string list"
  md_seen :: "string list \<times> string list"
  md_fault :: "nat \<Rightarrow> string option"
  md_ticks :: nat

definition md_call :: "(migration_db \<Rightarrow> 'a \<times> migration_db) \<Rightarrow> migration_db \<Rightarrow> 'a result \<times> migration_db" where
  "md_call run db =
     (let db' = db\<lparr>md_ticks := Suc (md_ticks db)\<rparr> in
      case md_fault db (md_ticks db) of
        Some msg \<Rightarrow> (Inl (Plain msg), db')
      | None \<Rightarrow> (case run db' of (a, db'') \<Rightarrow> (Inr a, db'')))"

definition md_do :: "(migration_db \<Rightarrow> migration_db) \<Rightarrow> migration_db \<Rightarrow> goerror option \<times> migration_db" where
  "md_do run db = (case md_call (\<lambda>d. ((), run d)) db of (Inl e, d) \<Rightarrow> (Some e, d) | (Inr _, d) \<Rightarrow> (None, d))"

definition md_conn :: "migration_db migration_conn" where
  "md_conn =
     \<lparr>mg_acquire = md_do id, mg_lock = (\<lambda>k. md_do id), mg_unlock = (\<lambda>k. id), mg_release = id,
      mg_create_table = md_do id,
      mg_applied = (\<lambda>file. md_call (\<lambda>d. (file \<in> set (fst (md_seen d)), d))),
      mg_begin = md_do id,
      mg_exec = (\<lambda>body. md_do (\<lambda>d. d\<lparr>md_seen := (fst (md_seen d), snd (md_seen d) @ [body])\<rparr>)),
      mg_record = (\<lambda>file. md_do (\<lambda>d. d\<lparr>md_seen := (fst (md_seen d) @ [file], snd (md_seen d))\<rparr>)),
      mg_rollback = (\<lambda>d. d\<lparr>md_seen := md_committed d\<rparr>),
      mg_commit = (\<lambda>d. case md_do id d of
          (None, d') \<Rightarrow> (None, d'\<lparr>md_committed := md_seen d'\<rparr>)
        | (Some e, d') \<Rightarrow> (Some e, d'\<lparr>md_seen := md_committed d'\<rparr>))\<rparr>"

interpretation migrations: migration_server md_conn md_committed md_seen
  by unfold_locales
    (auto simp: md_conn_def md_do_def md_call_def Let_def split: option.splits prod.splits)

end
