(* ===== verification/Postgres_Properties.thy ===== *)
theory Postgres_Properties
  imports Postgres_Tables Postgres_Lock Migrations
begin

text \<open>
  The properties of the PostgreSQL store, its advisory lock and its migrations. Witnesses run on
  a small database.
\<close>

definition demo_db :: pg_db where
  "demo_db = \<lparr>db_helppers = [\<lparr>pr_id = 1, pr_directory_id = ''d1'', pr_login = ''ana'', pr_display_name = ''Ana C.'',
       pr_enabled = True, pr_created_at = 0, pr_updated_at = 0\<rparr>], db_seq = 1,
     db_state = [(''helppi'', 63902919845000000000)], db_clock = (\<lambda>_. 63902919846000000000),
     db_fault = (\<lambda>_. None), db_ticks = 0\<rparr>"

lemma demo_db_ok: "db_ok demo_db"
  by (simp add: demo_db_def db_ok_def int64_max_def microsecond_def)

text \<open>C24: The PostgreSQL store keeps the contract of \<open>store.Store\<close>, over every server on which
  the six statements mean what SQL says: creation is unique by directory id, an update changes
  one account, no error of the driver is taken for "not found", and a failed call changes
  nothing. The checkpoint is kept to the precision of the column.\<close>

theorem postgres_store_keeps_contract:
  assumes "pg_database pool ok tbl ck stored"
  shows "store_contract (pg_ops (pg_New pool partner)) ok tbl (pg_saved ck (pg_New pool partner)) (pg_round stored)"
  by (rule pg_database.keeps_contract [OF assms])

lemma postgres_store_keeps_contract_witness:
  "store_contract (pg_ops (pg_New table_pool [])) db_ok db_table (pg_saved db_marks (pg_New table_pool [])) (pg_round pg_time)"
  by (rule postgres_store_keeps_contract [OF tables.pg_database_axioms])

text \<open>The precision of the column keeps the order of all timestamps but those of the first second
  of 1970, which \<open>Checkpoint\<close> reads as "never": there a checkpoint can move back to nothing.\<close>

lemma unix_pg_time: "unix (pg_time t) = unix t"
proof -
  have "pg_time t = 1000 * (t div 1000)" by (simp add: pg_time_def microsecond_def minus_mod_eq_mult_div)
  moreover have "1000 * (t div 1000) div 1000000000 = t div 1000 div 1000000"
    using div_mult_mult1 [of 1000 "t div 1000" 1000000] by simp
  ultimately show ?thesis by (simp add: unix_def second_def zdiv_zmult2_eq [of 1000000 t 1000, simplified, symmetric])
qed

lemma postgres_rounds_in_order: "rounds_in_order (pg_round pg_time) {t. unix t \<noteq> 0}"
proof -
  have "pg_time t \<le> pg_time t'" if "t \<le> t'" for t t'
    using zdiv_mono1 [OF that, of microsecond] unfolding pg_time_def microsecond_def minus_mod_eq_mult_div by simp
  then show ?thesis
    by (simp add: rounds_in_order_def pg_round_def epoch_to_zero_def unix_pg_time)
qed

lemma postgres_forgets_the_epoch: "\<not> rounds_in_order (pg_round pg_time) UNIV"
proof
  define t :: time where "t = 62135596800 * second"
  assume "rounds_in_order (pg_round pg_time) UNIV"
  then have "pg_round pg_time (t - 1) \<le> pg_round pg_time t" by (simp add: rounds_in_order_def)
  moreover have "pg_round pg_time t = 0 \<and> 0 < pg_round pg_time (t - 1)" unfolding t_def by code_simp
  ultimately show False by simp
qed

text \<open>One database can serve several partners: what one stores as its checkpoint leaves the
  checkpoint the other reads as it was.\<close>

theorem partner_checkpoints_isolated:
  assumes "pg_database pool ok tbl ck stored" and "ok w"
    and "pg_partner (pg_New pool p) \<noteq> pg_partner (pg_New pool q)"
    and "pg_SetCheckpoint (pg_New pool p) t w = (oe, w1)" and "pg_Checkpoint (pg_New pool q) w1 = (Inr u, w2)"
  shows "u = pg_saved ck (pg_New pool q) w"
  by (rule pg_database.partners_apart [OF assms])

lemma partner_checkpoints_isolated_witness:
  "\<exists>w1 w2. pg_SetCheckpoint (pg_New table_pool ''other'') 63902919900000000000 demo_db = (None, w1)
     \<and> pg_Checkpoint (pg_New table_pool []) w1 = (Inr 63902919845000000000, w2)"
proof -
  obtain oe w1 where w1: "pg_SetCheckpoint (pg_New table_pool ''other'') 63902919900000000000 demo_db = (oe, w1)"
    by fastforce
  have "fst (pg_SetCheckpoint (pg_New table_pool ''other'') 63902919900000000000 demo_db) = None"
    and "\<not> isl (fst (pg_Checkpoint (pg_New table_pool []) (snd (pg_SetCheckpoint (pg_New table_pool ''other'') 63902919900000000000 demo_db))))"
    and saved: "pg_saved db_marks (pg_New table_pool []) demo_db = 63902919845000000000"
    and diff: "pg_partner (pg_New table_pool ''other'') \<noteq> pg_partner (pg_New table_pool [])"
    by code_simp+
  then have oe: "oe = None" and "\<not> isl (fst (pg_Checkpoint (pg_New table_pool []) w1))"
    using w1 by simp_all
  then obtain u w2 where w2: "pg_Checkpoint (pg_New table_pool []) w1 = (Inr u, w2)"
    by (cases "pg_Checkpoint (pg_New table_pool []) w1"; cases "fst (pg_Checkpoint (pg_New table_pool []) w1)") auto
  from partner_checkpoints_isolated [OF tables.pg_database_axioms demo_db_ok diff w1 w2] w1 w2 oe saved
  show ?thesis by auto
qed

text \<open>C25: Of all workers that wrap their cycles in \<open>WithSyncLock\<close>, each for a partner of its own
  choice, at most one per partner is in its callback on a session that stands: as long as no
  session is lost under a running cycle, cycles of one partner never overlap, however the calls
  interleave, whichever connections the pool hands out and whatever requests fail.\<close>

theorem cycles_exclusive:
  assumes "lock_reachable P s" and "P i = P j" and "ls_pc s i = Inside" and "ls_pc s j = Inside"
    and "ls_live s (ls_conn s i)" and "ls_live s (ls_conn s j)"
  shows "i = j"
  using assms(2) by (intro lock_unique [OF assms(1,3-6)]) simp

definition one_inside :: lock_sys where
  "one_inside = goto 0 Inside (grant (sync_key ''helppi'') 7 (connect 0 7 lock_start))"

lemma one_inside_reachable: "lock_reachable (\<lambda>_. ''helppi'') one_inside"
proof -
  have "lock_move (\<lambda>_. ''helppi'') 0 lock_start (connect 0 7 lock_start)"
    by (rule acquire) (simp_all add: lock_start_def unused_def)
  moreover have "lock_move (\<lambda>_. ''helppi'') 0 (connect 0 7 lock_start) one_inside"
    using try_granted [of "connect 0 7 lock_start" 0 "\<lambda>_. ''helppi''"]
    by (simp add: one_inside_def lock_start_def lock_defs)
  ultimately show ?thesis
    unfolding lock_reachable_def by (blast intro: worker_moves rtranclp.intros)
qed

lemma cycles_exclusive_witness: "{j. ls_pc one_inside j = Inside} = {0}"
proof -
  have "ls_pc one_inside 0 = Inside" "ls_live one_inside (ls_conn one_inside j)" for j
    by (simp_all add: one_inside_def lock_start_def lock_defs)
  with cycles_exclusive [OF one_inside_reachable refl] show ?thesis by blast
qed

text \<open>C26: The code of \<open>WithSyncLock\<close> is a run of that system for its partner's key, callback
  included, and returns having given back what it took, whatever the callback returned: the
  session of its connection has no lock more often than before, except the one of the partner,
  once, when the unlocking statement fails on a session that stands.\<close>

theorem sync_lock_released:
  assumes "lock_reachable P s" and "ls_pc s i = Out" and "unused c s" and "minds_own_business P i fn"
    and "WithSyncLock (table_conn i c f) (P i) fn (s, x) = (r, (s', x'))"
  shows "(lock_step P)\<^sup>*\<^sup>* s s' \<and> ls_pc s' i = Out
    \<and> (\<forall>k. times_held s' k c \<le> times_held s k c + left_over f (P i) k)"
  using WithSyncLock_runs [OF lock_inv_reachable [OF assms(1)] assms(2-5)] by blast

definition failing_cycle :: "lock_sys \<times> nat \<Rightarrow> goerror option \<times> (lock_sys \<times> nat)" where
  "failing_cycle w = (Some (Plain ''cycle failed''), (fst w, Suc (snd w)))"

definition all_works :: call_fates where
  "all_works = \<lparr>fa_acquire = Works, fa_try = Works, fa_unlock = Works\<rparr>"

lemma sync_lock_released_witness:
  "\<exists>s'. WithSyncLock (table_conn 0 7 all_works) ''helppi'' failing_cycle (lock_start, 0)
     = (Some (Plain ''cycle failed''), (s', 1)) \<and> (lock_step (\<lambda>_. ''helppi''))\<^sup>*\<^sup>* lock_start s'
     \<and> times_held s' (sync_key ''helppi'') 7 = 0"
proof -
  obtain r s' x' where run: "WithSyncLock (table_conn 0 7 all_works) ((\<lambda>_. ''helppi'') 0) failing_cycle (lock_start, 0) = (r, (s', x'))"
    by (cases "WithSyncLock (table_conn 0 7 all_works) ''helppi'' failing_cycle (lock_start, 0)") auto
  then have "r = Some (Plain ''cycle failed'')" "x' = 1"
    by (auto simp: WithSyncLock_def table_conn_def lock_start_def Let_def failing_cycle_def all_works_def lock_defs)
  moreover have start: "lock_reachable (\<lambda>_. ''helppi'') lock_start" "ls_pc lock_start 0 = Out" "unused 7 lock_start"
    by (simp_all add: lock_reachable_def lock_start_def unused_def)
  moreover have "minds_own_business (\<lambda>_. ''helppi'') 0 failing_cycle"
    by (auto simp: minds_own_business_def failing_cycle_def)
  moreover have "times_held lock_start k 7 + left_over all_works p k = 0" for k p
    by (simp add: times_held_def lock_start_def left_over_def all_works_def)
  ultimately show ?thesis
    using sync_lock_released [OF start _ run] run by (metis le_zero_eq)
qed

text \<open>C27: \<open>Migrate\<close> is atomic file by file: when it returns, the versions recorded and the scripts
  run are those of the state its lock was granted in, and then a prefix of the pending files in
  the order of their names, each exactly once with its record; all of them when it reports no
  error. Run again, it has nothing to do.\<close>

theorem migrations_applied_once:
  assumes "migration_server conn committed seen" and "mf_glob files = Inr names" and "distinct names"
    and "seen w = committed w" and "Migrate conn files w = (r, w')"
  shows "migrated files (sort names) (committed (lock_granted conn w)) (committed w') r
    \<and> (r = None \<longrightarrow> pending_files (committed w') names = [])"
proof
  show m: "migrated files (sort names) (committed (lock_granted conn w)) (committed w') r"
    by (rule migration_server.migrate_effect [OF assms(1,5,4,2,3)])
  show "r = None \<longrightarrow> pending_files (committed w') names = []"
    using migrated_all m by (fastforce simp: pending_files_def filter_empty_conv)
qed

definition demo_files :: migration_files where
  "demo_files = \<lparr>mf_glob = Inr [''0002_b.sql'', ''0001_a.sql''], mf_read = (\<lambda>f. Inr (f @ '' body''))\<rparr>"

definition demo_migrations :: migration_db where
  "demo_migrations = \<lparr>md_committed = ([], []), md_seen = ([], []), md_fault = (\<lambda>n. if n = 9 then Some ''disk full'' else None),
     md_ticks = 0\<rparr>"

lemma migrations_applied_once_witness:
  "md_committed (snd (Migrate md_conn demo_files demo_migrations)) = ([''0001_a.sql''], [''0001_a.sql body''])
   \<and> migrated demo_files [''0001_a.sql'', ''0002_b.sql''] ([], []) ([''0001_a.sql''], [''0001_a.sql body''])
       (fst (Migrate md_conn demo_files demo_migrations))"
proof -
  have names: "mf_glob demo_files = Inr [''0002_b.sql'', ''0001_a.sql'']" "distinct [''0002_b.sql'', ''0001_a.sql'']"
    by (simp_all add: demo_files_def)
  have start: "md_seen demo_migrations = md_committed demo_migrations"
    by (simp add: demo_migrations_def)
  have "sort [''0002_b.sql'', ''0001_a.sql''] = [''0001_a.sql'', ''0002_b.sql'']"
    and "md_committed (lock_granted md_conn demo_migrations) = ([], [])"
    and after: "md_committed (snd (Migrate md_conn demo_files demo_migrations)) = ([''0001_a.sql''], [''0001_a.sql body''])"
    by code_simp+
  with migrations_applied_once [OF migrations.migration_server_axioms names start prod.collapse [symmetric]]
  show ?thesis by simp
qed

end
