(* ===== verification/Conformance.thy ===== *)
theory Conformance
  imports Client
begin

text \<open>
  \<open>conformance/conformance.go\<close> and \<open>checks.go\<close>: the suite that checks a live directory against
  the integration contract. The directory is the interface of the same name, a record of
  operations over a world \<open>'w\<close>, with the clock the suite reads beside it. Each check is a
  function on the runner; \<open>Check\<close> runs the fourteen of them in the source's order.

  A dereference of \<open>r.page\<close> while it is nil would end the run: the check then adds no case,
  so that the theorem that every run has its fourteen cases says that this does not happen.
  Strings are bytes, the section sign and the dash of the texts their UTF-8 encoding.
\<close>

section \<open>Durations as text\<close>

text \<open>\<open>Duration.Round\<close>: half away from zero, saturating.\<close>

definition dur_round :: "duration \<Rightarrow> duration \<Rightarrow> duration" where
  "dur_round d m =
     (if d < 0 then
        let r = (- d) mod m; d1 = wrap64 (d - m + r) in
        if 2 * r < m then d + r else if d1 < d then d1 else int64_min
      else
        let r = d mod m; d1 = wrap64 (d + m - r) in
        if 2 * r < m then d - r else if d < d1 then d1 else int64_max)"

definition trim_zeros :: "string \<Rightarrow> string" where
  "trim_zeros s = rev (dropWhile (\<lambda>c. c = CHR ''0'') (rev s))"

fun pad_digits :: "nat \<Rightarrow> int \<Rightarrow> string" where
  "pad_digits 0 v = []"
| "pad_digits (Suc p) v = pad_digits p (v div 10) @ itoa (v mod 10)"

text \<open>\<open>v\<close> over \<open>10 ^ p\<close> in decimal, without trailing zeros after the point.\<close>

definition decimal :: "nat \<Rightarrow> int \<Rightarrow> string" where
  "decimal p v =
     (let frac = trim_zeros (pad_digits p (v mod 10 ^ p)) in
      itoa (v div 10 ^ p) @ (if frac = [] then [] else CHR ''.'' # frac))"

text \<open>\<open>Duration.String\<close>.\<close>

definition micro_sign :: string where "micro_sign = [CHR 0xC2, CHR 0xB5]"

definition clock_text :: "int \<Rightarrow> string" where
  "clock_text u =
     (let mins = u div minute; sec_text = decimal 9 (u mod minute) @ ''s'' in
      if mins = 0 then sec_text
      else if mins div 60 = 0 then itoa mins @ ''m'' @ sec_text
      else itoa (mins div 60) @ ''h'' @ itoa (mins mod 60) @ ''m'' @ sec_text)"

definition dur_text :: "duration \<Rightarrow> string" where
  "dur_text d =
     (let u = \<bar>d\<bar>;
          abs_text = (if u < 1000 then itoa u @ ''ns''
            else if u < 1000000 then decimal 3 u @ micro_sign @ ''s''
            else if u < second then decimal 6 u @ ''ms''
            else clock_text u) in
      if d = 0 then ''0s'' else if d < 0 then CHR ''-'' # abs_text else abs_text)"

section \<open>Reports\<close>

datatype status = Pass | Fail | Skip

record phase =
  ph_Name :: string
  ph_Title :: string

definition PhaseOne :: phase where
  "PhaseOne = \<lparr>ph_Name = ''1'', ph_Title = ''Directory synchronization''\<rparr>"

definition PhaseTwo :: phase where
  "PhaseTwo = \<lparr>ph_Name = ''2'', ph_Title = ''Write-back of your identifier''\<rparr>"

record case_record =
  cs_ID :: string
  cs_Phase :: string
  cs_Title :: string
  cs_Criterion :: string
  cs_Status :: status
  cs_Detail :: string

record report =
  rp_BaseURL :: string
  rp_StartedAt :: time
  rp_FinishedAt :: time
  rp_Cases :: "case_record list"

fun count_cases :: "case_record list \<Rightarrow> nat \<times> nat \<times> nat \<Rightarrow> nat \<times> nat \<times> nat" where
  "count_cases [] (passed, failed, skipped) = (passed, failed, skipped)"
| "count_cases (c # cs) (passed, failed, skipped) =
     count_cases cs (case cs_Status c of
         Pass \<Rightarrow> (Suc passed, failed, skipped)
       | Fail \<Rightarrow> (passed, Suc failed, skipped)
       | Skip \<Rightarrow> (passed, failed, Suc skipped))"

definition Counts :: "report \<Rightarrow> nat \<times> nat \<times> nat" where
  "Counts r = count_cases (rp_Cases r) (0, 0, 0)"

definition OK :: "report \<Rightarrow> bool" where
  "OK r = (case Counts r of (_, failed, _) \<Rightarrow> failed = 0)"

definition phaseTitle :: "string \<Rightarrow> string" where
  "phaseTitle nm =
     (if nm = ph_Name PhaseOne then ph_Title PhaseOne
      else if nm = ph_Name PhaseTwo then ph_Title PhaseTwo else [])"

text \<open>
  \<open>slug\<close>. The rune that \<open>strings.Map\<close> replaces may be several bytes, each replaced here: the
  loop after it leaves one underscore of any run.
\<close>

definition slug_char :: "char \<Rightarrow> char" where
  "slug_char c =
     (if CHR ''a'' \<le> c \<and> c \<le> CHR ''z'' \<or> CHR ''0'' \<le> c \<and> c \<le> CHR ''9'' then c else CHR ''_'')"

fun replace_double :: "string \<Rightarrow> string" where
  "replace_double (a # b # s) =
     (if a = CHR ''_'' \<and> b = CHR ''_'' then CHR ''_'' # replace_double s else a # replace_double (b # s))"
| "replace_double s = s"

lemma replace_double_length: "length (replace_double s) \<le> length s"
  by (induction s rule: replace_double.induct) auto

lemma replace_double_shrinks: "contains s ''__'' \<Longrightarrow> length (replace_double s) < length s"
proof (induction s rule: replace_double.induct)
  case (1 a b s)
  show ?case
  proof (cases "a = CHR ''_'' \<and> b = CHR ''_''")
    case True
    with replace_double_length [of s] show ?thesis by simp
  next
    case False
    with 1 show ?thesis by (auto simp: has_prefix_def)
  qed
qed (auto simp: has_prefix_def)

function collapse :: "string \<Rightarrow> string" where
  "collapse s = (if contains s ''__'' then collapse (replace_double s) else s)"
  by pat_completeness auto
termination by (relation "measure length") (auto dest: replace_double_shrinks)

declare collapse.simps [simp del]

definition trim_char :: "char \<Rightarrow> string \<Rightarrow> string" where
  "trim_char c s = rev (dropWhile ((=) c) (rev (dropWhile ((=) c) s)))"

definition slug :: "string \<Rightarrow> string" where
  "slug s = trim_char (CHR ''_'') (collapse (map slug_char (to_lower s)))"

section \<open>The report as text\<close>

fun status_label :: "status \<Rightarrow> string" where
  "status_label Pass = ''PASS''"
| "status_label Fail = ''FAIL''"
| "status_label Skip = ''SKIP''"

text \<open>\<open>%-ns\<close> counts runes: the bytes that do not continue one.\<close>

definition rune_count :: "string \<Rightarrow> nat" where
  "rune_count s = length (filter (\<lambda>c. (of_char c :: nat) div 64 \<noteq> 2) s)"

definition pad_right :: "nat \<Rightarrow> string \<Rightarrow> string" where
  "pad_right n s = s @ replicate (n - rune_count s) CHR '' ''"

definition newline :: string where "newline = [CHR 0x0A]"
definition em_dash :: string where "em_dash = [CHR 0xE2, CHR 0x80, CHR 0x94]"

definition case_lines :: "case_record \<Rightarrow> string" where
  "case_lines c =
     ''  '' @ pad_right 4 (status_label (cs_Status c)) @ ''  '' @ pad_right 6 (cs_ID c)
     @ ''  '' @ pad_right 46 (cs_Title c) @ ''  '' @ cs_Criterion c @ newline
     @ (if cs_Detail c \<noteq> [] \<and> cs_Status c \<noteq> Pass then ''        '' @ cs_Detail c @ newline else [])"

definition phase_lines :: "case_record list \<Rightarrow> string \<Rightarrow> string" where
  "phase_lines cs ph =
     ''PHASE '' @ ph @ '' '' @ em_dash @ '' '' @ phaseTitle ph @ newline
     @ concat (map case_lines (filter (\<lambda>c. cs_Phase c = ph) cs)) @ newline"

definition report_text :: "report \<Rightarrow> string" where
  "report_text r =
     (case Counts r of (passed, failed, skipped) \<Rightarrow>
        ''helppi-scim-go conformance'' @ newline
        @ (if rp_BaseURL r \<noteq> [] then rp_BaseURL r @ newline else [])
        @ newline
        @ concat (map (phase_lines (rp_Cases r)) (sort (remdups (map cs_Phase (rp_Cases r)))))
        @ itoa (int passed) @ '' passed, '' @ itoa (int failed) @ '' failed, '' @ itoa (int skipped)
        @ '' skipped  ('' @ dur_text (dur_round (time_sub (rp_FinishedAt r) (rp_StartedAt r)) millisecond) @ '')'' @ newline
        @ (if failed = 0 \<and> skipped = 0
           then newline @ ''Every acceptance criterion for phases 1 and 2 is met.'' @ newline else []))"

section \<open>The directory under test\<close>

record probe_options =
  pb_AliasDomain :: string
  pb_WriteID :: string
  pb_ProbeExternalID :: string
  pb_PageSize :: int

record 'w probe_dir =
  pd_Page :: "string \<Rightarrow> int \<Rightarrow> int \<Rightarrow> 'w \<Rightarrow> list_response result \<times> 'w"
  pd_GetUser :: "string \<Rightarrow> 'w \<Rightarrow> user result \<times> 'w"
  pd_Patch :: "string \<Rightarrow> patch_op \<Rightarrow> 'w \<Rightarrow> user result \<times> 'w"
  pd_Config :: "'w \<Rightarrow> provider_config result \<times> 'w"
  pd_Now :: "'w \<Rightarrow> time \<times> 'w"

text \<open>The client as that directory.\<close>

definition client_probe :: "'n client \<Rightarrow> 'n net probe_dir" where
  "client_probe c =
     \<lparr>pd_Page = Page c, pd_GetUser = GetUser c, pd_Patch = Patch c, pd_Config = ServiceProviderConfig c,
      pd_Now = in_env (t_Now (cl_t c))\<rparr>"

end
