(* ===== verification/Conformance_Checks.thy ===== *)
theory Conformance_Checks
  imports Conformance Reconciler
begin

text \<open>
  \<open>conformance/checks.go\<close>: the runner and its checks, in the order of the source, and \<open>Check\<close>.
\<close>

section \<open>The runner\<close>

record 'w runner =
  rn_cases :: "case_record list"
  rn_page :: "list_response option"
  rn_users :: "user list"
  rn_sample :: user
  rn_newest :: time
  rn_blocked :: string
  rn_world :: 'w

text \<open>The three constants at the head of each check.\<close>

record criterion =
  cr_id :: string
  cr_title :: string
  cr_crit :: string

definition add_case :: "phase \<Rightarrow> criterion \<Rightarrow> status \<Rightarrow> string \<Rightarrow> 'w runner \<Rightarrow> 'w runner" where
  "add_case ph c s detail r =
     r\<lparr>rn_cases := rn_cases r @ [\<lparr>cs_ID = cr_id c, cs_Phase = ph_Name ph, cs_Title = cr_title c,
       cs_Criterion = cr_crit c, cs_Status = s, cs_Detail = detail\<rparr>]\<rparr>"

definition pass_case :: "phase \<Rightarrow> criterion \<Rightarrow> string \<Rightarrow> 'w runner \<Rightarrow> 'w runner" where
  "pass_case ph c detail r = add_case ph c Pass detail r"

definition fail_case :: "phase \<Rightarrow> criterion \<Rightarrow> string \<Rightarrow> 'w runner \<Rightarrow> 'w runner" where
  "fail_case ph c detail r = add_case ph c Fail detail r"

definition skip_case :: "phase \<Rightarrow> criterion \<Rightarrow> string \<Rightarrow> 'w runner \<Rightarrow> 'w runner" where
  "skip_case ph c reason r = add_case ph c Skip reason r"

text \<open>A call of the directory or of the clock.\<close>

definition ask :: "('w \<Rightarrow> 'a \<times> 'w) \<Rightarrow> 'w runner \<Rightarrow> 'a \<times> 'w runner" where
  "ask f r = (case f (rn_world r) of (a, w) \<Rightarrow> (a, r\<lparr>rn_world := w\<rparr>))"

text \<open>
  \<open>if r.blockedSkip(...) { return }\<close> and the body behind it, and the guard of phase two.
\<close>

definition unless_blocked :: "phase \<Rightarrow> criterion \<Rightarrow> ('w runner \<Rightarrow> 'w runner) \<Rightarrow> 'w runner \<Rightarrow> 'w runner" where
  "unless_blocked ph c body r =
     (if rn_blocked r \<noteq> [] then skip_case ph c (rn_blocked r) r else body r)"

definition no_records :: string where
  "no_records = ''the directory returned no records''"

definition sect :: string where "sect = [CHR 0xC2, CHR 0xA7]"

section \<open>Phase one\<close>

definition c101 :: criterion where
  "c101 = \<lparr>cr_id = ''P1.01'', cr_title = ''Credential is accepted'', cr_crit = sect @ ''13 configuration''\<rparr>"

definition newer :: "time \<Rightarrow> user \<Rightarrow> time" where
  "newer t u = (if after (LastModified u) t then LastModified u else t)"

definition checkCredential :: "'w probe_dir \<Rightarrow> probe_options \<Rightarrow> 'w runner \<Rightarrow> 'w runner" where
  "checkCredential d opt r =
     (case ask (pd_Page d [] 1 (pb_PageSize opt)) r of
        (Inl err, r1) \<Rightarrow>
          if (case err_as_scim err of Some se \<Rightarrow> Credential se | None \<Rightarrow> False) then
            fail_case PhaseOne c101 (''the directory rejected the token: '' @ err_text err)
              (r1\<lparr>rn_blocked := ''the credential was rejected''\<rparr>)
          else fail_case PhaseOne c101 (err_text err) (r1\<lparr>rn_blocked := ''the directory could not be read''\<rparr>)
      | (Inr page, r1) \<Rightarrow>
          (let r2 = r1\<lparr>rn_page := Some page\<rparr> in
           case Users page of
             Inl err \<Rightarrow>
               fail_case PhaseOne c101 (err_text err)
                 (r2\<lparr>rn_blocked := ''the directory returned records that cannot be decoded''\<rparr>)
           | Inr us \<Rightarrow>
               pass_case PhaseOne c101 (itoa (lr_TotalResults page) @ '' records visible'')
                 (r2\<lparr>rn_users := us,
                   rn_sample := (case us of [] \<Rightarrow> rn_sample r2 | u # _ \<Rightarrow> u),
                   rn_newest := foldl newer (rn_newest r2) us\<rparr>)))"

definition c102 :: criterion where
  "c102 = \<lparr>cr_id = ''P1.02'', cr_title = ''Responses are SCIM ListResponses'',
     cr_crit = ''Appendix A '' @ em_dash @ '' envelope''\<rparr>"

definition checkEnvelope :: "'w runner \<Rightarrow> 'w runner" where
  "checkEnvelope = unless_blocked PhaseOne c102 (\<lambda>r.
     case rn_page r of
       None \<Rightarrow> r
     | Some page \<Rightarrow>
         if lr_TotalResults page < int (length (lr_Resources page)) then
           fail_case PhaseOne c102 (''totalResults='' @ itoa (lr_TotalResults page) @ '' is smaller than the ''
             @ itoa (int (length (lr_Resources page))) @ '' records in this page'') r
         else if 0 < length (lr_Resources page) \<and> lr_StartIndex page \<noteq> 1 then
           fail_case PhaseOne c102 (''startIndex echoed as '' @ itoa (lr_StartIndex page)
             @ '' for the first page; RFC 7644 is 1-based'') r
         else
           pass_case PhaseOne c102 (''totalResults='' @ itoa (lr_TotalResults page) @ '' itemsPerPage=''
             @ itoa (lr_ItemsPerPage page)) r)"

definition c103 :: criterion where
  "c103 = \<lparr>cr_id = ''P1.03'', cr_title = ''Every record carries a stable id'', cr_crit = sect @ ''05 identity model''\<rparr>"

text \<open>The loop of \<open>checkStableIDs\<close>: the first complaint, or the ids seen.\<close>

fun ids_from :: "string list \<Rightarrow> user list \<Rightarrow> string + string list" where
  "ids_from seen [] = Inr seen"
| "ids_from seen (u # us) =
     (if trim_space (u_ID u) = [] then Inl ''a record was returned with an empty id''
      else if u_ID u \<in> set seen then Inl (''id '' @ u_ID u @ '' appeared twice in one page'')
      else ids_from (u_ID u # seen) us)"

definition checkStableIDs :: "'w runner \<Rightarrow> 'w runner" where
  "checkStableIDs = unless_blocked PhaseOne c103 (\<lambda>r.
     if rn_users r = [] then skip_case PhaseOne c103 no_records r
     else case ids_from [] (rn_users r) of
         Inl msg \<Rightarrow> fail_case PhaseOne c103 msg r
       | Inr seen \<Rightarrow> pass_case PhaseOne c103 (itoa (int (length seen)) @ '' unique ids'') r)"

definition c104 :: criterion where
  "c104 = \<lparr>cr_id = ''P1.04'', cr_title = ''active is present on every record'', cr_crit = sect @ ''06 lifecycle''\<rparr>"

definition checkActiveFlag :: "'w runner \<Rightarrow> 'w runner" where
  "checkActiveFlag = unless_blocked PhaseOne c104 (\<lambda>r.
     if rn_users r = [] then skip_case PhaseOne c104 no_records r
     else case find (\<lambda>u. u_Active u = None) (rn_users r) of
         Some u \<Rightarrow> fail_case PhaseOne c104 (''record '' @ u_ID u
           @ '' has no active attribute; a client cannot safely guess it'') r
       | None \<Rightarrow> pass_case PhaseOne c104 ''present on all sampled records'' r)"

definition c105 :: criterion where
  "c105 = \<lparr>cr_id = ''P1.05'', cr_title = ''Identities are aliases, not mailboxes'', cr_crit = sect @ ''05 data minimization''\<rparr>"

text \<open>The loop of \<open>checkAlias\<close>.\<close>

fun alias_complaint :: "string \<Rightarrow> user list \<Rightarrow> string option" where
  "alias_complaint suffix [] = None"
| "alias_complaint suffix (u # us) =
     (if \<not> has_suffix (to_lower (u_UserName u)) suffix then
        Some (''record '' @ u_ID u @ '' publishes userName outside '' @ suffix
          @ ''; the directory should expose an alias, never a real address'')
      else if \<exists>e \<in> set (u_Emails u). \<not> has_suffix (to_lower (e_Value e)) suffix then
        Some (''record '' @ u_ID u @ '' publishes an e-mail outside '' @ suffix)
      else alias_complaint suffix us)"

definition alias_suffix :: "probe_options \<Rightarrow> string" where
  "alias_suffix opt = ''@'' @ trim_prefix (pb_AliasDomain opt) ''@''"

definition checkAlias :: "probe_options \<Rightarrow> 'w runner \<Rightarrow> 'w runner" where
  "checkAlias opt = unless_blocked PhaseOne c105 (\<lambda>r.
     if pb_AliasDomain opt = [] then
       skip_case PhaseOne c105 ''pass an alias domain to check data minimization'' r
     else if rn_users r = [] then skip_case PhaseOne c105 no_records r
     else case alias_complaint (alias_suffix opt) (rn_users r) of
         Some msg \<Rightarrow> fail_case PhaseOne c105 msg r
       | None \<Rightarrow> pass_case PhaseOne c105 (''all identities on '' @ alias_suffix opt) r)"

definition c106 :: criterion where
  "c106 = \<lparr>cr_id = ''P1.06'', cr_title = ''meta.lastModified is usable as a watermark'', cr_crit = sect @ ''08 synchronization''\<rparr>"

definition checkMeta :: "'w probe_dir \<Rightarrow> 'w runner \<Rightarrow> 'w runner" where
  "checkMeta d = unless_blocked PhaseOne c106 (\<lambda>r.
     if rn_users r = [] then skip_case PhaseOne c106 no_records r
     else case find (\<lambda>u. is_zero (LastModified u)) (rn_users r) of
         Some u \<Rightarrow> fail_case PhaseOne c106 (''record '' @ u_ID u
           @ '' has no meta.lastModified; incremental synchronization is impossible without it'') r
       | None \<Rightarrow>
           (case ask (pd_Now d) r of (t, r1) \<Rightarrow>
              let skew = time_sub (rn_newest r) t in
              if hour < skew then
                fail_case PhaseOne c106 (''the newest timestamp is '' @ dur_text (dur_round skew minute)
                  @ '' in the future; a client that trusted it as a watermark would skip everything in between'') r1
              else pass_case PhaseOne c106 (''newest '' @ format_rfc3339 (rn_newest r)) r1))"

definition c107 :: criterion where
  "c107 = \<lparr>cr_id = ''P1.07'', cr_title = ''startIndex and count are honored'',
     cr_crit = ''Appendix A '' @ em_dash @ '' pagination''\<rparr>"

definition checkPagination :: "'w probe_dir \<Rightarrow> probe_options \<Rightarrow> 'w runner \<Rightarrow> 'w runner" where
  "checkPagination d opt = unless_blocked PhaseOne c107 (\<lambda>r.
     case rn_page r of
       None \<Rightarrow> r
     | Some page \<Rightarrow>
         if lr_TotalResults page < 2 then
           skip_case PhaseOne c107 ''needs at least two records in the directory'' r
         else if pb_PageSize opt < int (length (lr_Resources page)) then
           fail_case PhaseOne c107 (''asked for '' @ itoa (pb_PageSize opt) @ '' records, received ''
             @ itoa (int (length (lr_Resources page)))) r
         else case ask (pd_Page d [] 2 (pb_PageSize opt)) r of
             (Inl err, r1) \<Rightarrow> fail_case PhaseOne c107 (''second page: '' @ err_text err) r1
           | (Inr second_page, r1) \<Rightarrow>
               (case Users second_page of
                  Inl err \<Rightarrow> fail_case PhaseOne c107 (''second page: '' @ err_text err) r1
                | Inr [] \<Rightarrow> fail_case PhaseOne c107 ''startIndex=2 returned nothing despite more records existing'' r1
                | Inr (u # us) \<Rightarrow>
                    if u_ID u = u_ID (rn_sample r1) then
                      fail_case PhaseOne c107 (''startIndex=2 returned the same first record ('' @ u_ID u
                        @ '') as startIndex=1; pagination would never terminate'') r1
                    else pass_case PhaseOne c107 ''the window moves with startIndex'' r1))"

definition c108 :: criterion where
  "c108 = \<lparr>cr_id = ''P1.08'', cr_title = ''Filtering by meta.lastModified works'', cr_crit = sect @ ''08 incremental sync''\<rparr>"

definition future_bound :: "time \<Rightarrow> string" where
  "future_bound newest = format_rfc3339 (newest + 24 * hour)"

definition epoch_filter :: string where
  "epoch_filter = ''meta.lastModified gt '' @ quote ''1970-01-01T00:00:00Z''"

definition checkFiltering :: "'w probe_dir \<Rightarrow> probe_options \<Rightarrow> 'w runner \<Rightarrow> 'w runner" where
  "checkFiltering d opt = unless_blocked PhaseOne c108 (\<lambda>r.
     if is_zero (rn_newest r) then skip_case PhaseOne c108 ''no usable timestamps to filter on'' r
     else case ask (pd_Page d (''meta.lastModified gt '' @ quote (future_bound (rn_newest r))) 1 (pb_PageSize opt)) r of
         (Inl err, r1) \<Rightarrow> fail_case PhaseOne c108 (''filtered query: '' @ err_text err) r1
       | (Inr narrowed, r1) \<Rightarrow>
           (case rn_page r1 of
              None \<Rightarrow> r1
            | Some page \<Rightarrow>
                if lr_TotalResults page \<le> lr_TotalResults narrowed \<and> 0 < lr_TotalResults page then
                  fail_case PhaseOne c108 (''a filter for changes after '' @ future_bound (rn_newest r1)
                    @ '' still returned '' @ itoa (lr_TotalResults narrowed) @ '' of '' @ itoa (lr_TotalResults page)
                    @ '' records; the filter appears to be ignored'') r1
                else case ask (pd_Page d epoch_filter 1 (pb_PageSize opt)) r1 of
                    (Inl err, r2) \<Rightarrow> fail_case PhaseOne c108 (''epoch query: '' @ err_text err) r2
                  | (Inr every, r2) \<Rightarrow>
                      if lr_TotalResults every < lr_TotalResults page then
                        fail_case PhaseOne c108 (''a filter since the epoch returned '' @ itoa (lr_TotalResults every)
                          @ '' records but the directory holds '' @ itoa (lr_TotalResults page)) r2
                      else pass_case PhaseOne c108 (''narrowed to '' @ itoa (lr_TotalResults narrowed)
                          @ '', unfiltered '' @ itoa (lr_TotalResults page)) r2))"

definition c109 :: criterion where
  "c109 = \<lparr>cr_id = ''P1.09'', cr_title = ''A record can be read by id'', cr_crit = ''Appendix A '' @ em_dash @ '' endpoints''\<rparr>"

definition checkSingleRead :: "'w probe_dir \<Rightarrow> 'w runner \<Rightarrow> 'w runner" where
  "checkSingleRead d = unless_blocked PhaseOne c109 (\<lambda>r.
     if u_ID (rn_sample r) = [] then skip_case PhaseOne c109 no_records r
     else case ask (pd_GetUser d (u_ID (rn_sample r))) r of
         (Inl err, r1) \<Rightarrow> fail_case PhaseOne c109 (err_text err) r1
       | (Inr got, r1) \<Rightarrow>
           if u_ID got \<noteq> u_ID (rn_sample r1) then
             fail_case PhaseOne c109 (''asked for '' @ u_ID (rn_sample r1) @ '', received '' @ u_ID got) r1
           else if u_Active got = None then
             fail_case PhaseOne c109 ''the single-record read omits active'' r1
           else pass_case PhaseOne c109 ''matches the record from the listing'' r1)"

definition c110 :: criterion where
  "c110 = \<lparr>cr_id = ''P1.10'', cr_title = ''An unknown id is a typed 404'', cr_crit = ''Appendix A '' @ em_dash @ '' error matrix''\<rparr>"

definition unknown_id :: string where "unknown_id = ''hlp_conformance_probe_does_not_exist''"

definition checkUnknownID :: "'w probe_dir \<Rightarrow> 'w runner \<Rightarrow> 'w runner" where
  "checkUnknownID d = unless_blocked PhaseOne c110 (\<lambda>r.
     case ask (pd_GetUser d unknown_id) r of
       (Inr _, r1) \<Rightarrow> fail_case PhaseOne c110 ''an identifier that cannot exist returned a record'' r1
     | (Inl err, r1) \<Rightarrow>
         (case err_as_scim err of
            None \<Rightarrow> fail_case PhaseOne c110 (''the error is not a SCIM error payload: '' @ err_text err) r1
          | Some se \<Rightarrow>
              if \<not> NotFound se then
                fail_case PhaseOne c110 (''expected 404, received '' @ itoa (Code se) @ '': '' @ Error se) r1
              else pass_case PhaseOne c110 ''404 with a SCIM error envelope'' r1))"

definition c111 :: criterion where
  "c111 = \<lparr>cr_id = ''P1.11'', cr_title = ''Capabilities are advertised'', cr_crit = sect @ ''13 configuration''\<rparr>"

definition missing_capabilities :: "provider_config \<Rightarrow> string list" where
  "missing_capabilities cfg =
     (if pc_FilterSupported cfg then [] else [''filter (incremental synchronization needs it)''])
     @ (if pc_PatchSupported cfg then [] else [''patch (the write-back needs it)''])"

definition checkProviderConfig :: "'w probe_dir \<Rightarrow> 'w runner \<Rightarrow> 'w runner" where
  "checkProviderConfig d = unless_blocked PhaseOne c111 (\<lambda>r.
     case ask (pd_Config d) r of
       (Inl err, r1) \<Rightarrow> skip_case PhaseOne c111
         (''ServiceProviderConfig is not exposed; not every deployment does: '' @ err_text err) r1
     | (Inr cfg, r1) \<Rightarrow>
         if missing_capabilities cfg \<noteq> [] then
           fail_case PhaseOne c111 (''not advertised: '' @ join ''; '' (missing_capabilities cfg)) r1
         else pass_case PhaseOne c111 (''filter and patch, maxResults='' @ itoa (pc_FilterMaxResults cfg)) r1)"

definition phaseOne :: "'w probe_dir \<Rightarrow> probe_options \<Rightarrow> 'w runner \<Rightarrow> 'w runner" where
  "phaseOne d opt r =
     (let r = checkCredential d opt r;
          r = checkEnvelope r;
          r = checkStableIDs r;
          r = checkActiveFlag r;
          r = checkAlias opt r;
          r = checkMeta d r;
          r = checkPagination d opt r;
          r = checkFiltering d opt r;
          r = checkSingleRead d r;
          r = checkUnknownID d r
      in checkProviderConfig d r)"

section \<open>Phase two\<close>

definition noWriteTarget :: string where
  "noWriteTarget = ''pass the id of a record reserved for write probing''"

definition writeTarget :: "'w probe_dir \<Rightarrow> probe_options \<Rightarrow> 'w runner \<Rightarrow> user option \<times> 'w runner" where
  "writeTarget d opt r =
     (if rn_blocked r \<noteq> [] \<or> pb_WriteID opt = [] then (None, r)
      else case ask (pd_GetUser d (pb_WriteID opt)) r of
          (Inl _, r1) \<Rightarrow> (None, r1)
        | (Inr u, r1) \<Rightarrow> (Some u, r1))"

text \<open>The guards every check of phase two begins with.\<close>

definition with_target :: "probe_options \<Rightarrow> criterion \<Rightarrow> ('w runner \<Rightarrow> 'w runner) \<Rightarrow> 'w runner \<Rightarrow> 'w runner" where
  "with_target opt c body = unless_blocked PhaseTwo c (\<lambda>r.
     if pb_WriteID opt = [] then skip_case PhaseTwo c noWriteTarget r else body r)"

text \<open>
  \<open>%q\<close>, \<open>strconv.Quote\<close>: the escapes of ASCII; bytes beyond it are taken for printable runes.
\<close>

definition hex_low :: "nat \<Rightarrow> char" where
  "hex_low n = char_of (if n < 10 then 48 + n else 87 + n)"

definition quote_char :: "char \<Rightarrow> string" where
  "quote_char c =
     (if c = CHR 0x22 \<or> c = CHR 0x5C then [CHR 0x5C, c]
      else case map_of [(7, CHR ''a''), (8, CHR ''b''), (9, CHR ''t''), (10, CHR ''n''), (11, CHR ''v''),
             (12, CHR ''f''), (13, CHR ''r'')] (of_char c :: nat) of
          Some e \<Rightarrow> [CHR 0x5C, e]
        | None \<Rightarrow>
            if (of_char c :: nat) < 32 \<or> (of_char c :: nat) = 127 then
              [CHR 0x5C, CHR ''x'', hex_low ((of_char c :: nat) div 16), hex_low ((of_char c :: nat) mod 16)]
            else [c])"

definition quoted :: "string \<Rightarrow> string" where
  "quoted s = [CHR 0x22] @ concat (map quote_char s) @ [CHR 0x22]"

definition c201 :: criterion where
  "c201 = \<lparr>cr_id = ''P2.01'', cr_title = ''externalId accepts our identifier'', cr_crit = sect @ ''07 write-back''\<rparr>"

definition checkWriteBack :: "'w probe_dir \<Rightarrow> probe_options \<Rightarrow> 'w runner \<Rightarrow> 'w runner" where
  "checkWriteBack d opt = with_target opt c201 (\<lambda>r.
     case writeTarget d opt r of
       (None, r1) \<Rightarrow> fail_case PhaseTwo c201
         (''could not read the record named for write probing: '' @ pb_WriteID opt) r1
     | (Some u, r1) \<Rightarrow>
         if u_ExternalID u = [] \<and> pb_ProbeExternalID opt = [] then
           skip_case PhaseTwo c201 ''the record has no externalId yet; supply a probe value to write one'' r1
         else
           let val = (if u_ExternalID u = [] then pb_ProbeExternalID opt else u_ExternalID u) in
           case ask (pd_Patch d (u_ID u) (NewExternalIDPatch val)) r1 of
             (Inl err, r2) \<Rightarrow> fail_case PhaseTwo c201 (err_text err) r2
           | (Inr got, r2) \<Rightarrow>
               if u_ExternalID got \<noteq> val then
                 fail_case PhaseTwo c201 (''wrote '' @ quoted val @ '', the record came back with ''
                   @ quoted (u_ExternalID got)) r2
               else pass_case PhaseTwo c201 ''accepted and reflected on read'' r2)"

definition c202 :: criterion where
  "c202 = \<lparr>cr_id = ''P2.02'', cr_title = ''Writing the same value twice changes nothing'', cr_crit = sect @ ''08 idempotency''\<rparr>"

text \<open>The loop of two writes: \<open>n\<close> are left, \<open>i\<close> is the number of the next.\<close>

fun write_again :: "'w probe_dir \<Rightarrow> user \<Rightarrow> nat \<Rightarrow> nat \<Rightarrow> 'w runner \<Rightarrow> string option \<times> 'w runner" where
  "write_again d u i 0 r = (None, r)"
| "write_again d u i (Suc n) r =
     (case ask (pd_Patch d (u_ID u) (NewExternalIDPatch (u_ExternalID u))) r of
        (Inl err, r1) \<Rightarrow> (Some (''write '' @ itoa (int i) @ '': '' @ err_text err), r1)
      | (Inr got, r1) \<Rightarrow>
          if u_ExternalID got \<noteq> u_ExternalID u then
            (Some (''write '' @ itoa (int i) @ '' changed the value to '' @ quoted (u_ExternalID got)), r1)
          else write_again d u (Suc i) n r1)"

definition checkWriteBackIdempotent :: "'w probe_dir \<Rightarrow> probe_options \<Rightarrow> 'w runner \<Rightarrow> 'w runner" where
  "checkWriteBackIdempotent d opt = with_target opt c202 (\<lambda>r.
     case writeTarget d opt r of
       (None, r1) \<Rightarrow> skip_case PhaseTwo c202 ''needs a record that already carries an externalId'' r1
     | (Some u, r1) \<Rightarrow>
         if u_ExternalID u = [] then
           skip_case PhaseTwo c202 ''needs a record that already carries an externalId'' r1
         else case write_again d u 1 2 r1 of
             (Some msg, r2) \<Rightarrow> fail_case PhaseTwo c202 msg r2
           | (None, r2) \<Rightarrow> pass_case PhaseTwo c202 ''repeated writes are a no-op'' r2)"

definition c203 :: criterion where
  "c203 = \<lparr>cr_id = ''P2.03'', cr_title = ''Authoritative attributes are read-only'', cr_crit = sect @ ''12 responsibilities''\<rparr>"

definition active_patch :: "bool \<Rightarrow> patch_op" where
  "active_patch b = \<lparr>po_Schemas = [SchemaPatchOp],
     po_Operations = [\<lparr>op_Op = ''replace'', op_Path = ''active'', op_Value = VBool b\<rparr>]\<rparr>"

definition checkForbiddenAttribute :: "'w probe_dir \<Rightarrow> probe_options \<Rightarrow> 'w runner \<Rightarrow> 'w runner" where
  "checkForbiddenAttribute d opt = with_target opt c203 (\<lambda>r.
     case writeTarget d opt r of
       (None, r1) \<Rightarrow> skip_case PhaseTwo c203 ''could not read the record named for write probing'' r1
     | (Some u, r1) \<Rightarrow>
         (case u_Active u of
            None \<Rightarrow> skip_case PhaseTwo c203 ''could not read the record named for write probing'' r1
          | Some b \<Rightarrow>
              (case ask (pd_Patch d (u_ID u) (active_patch b)) r1 of
                 (Inr _, r2) \<Rightarrow> fail_case PhaseTwo c203
                   (''the directory accepted a write to active; only externalId may be written by this ''
                    @ ''credential, or a partner can silently re-enable someone'') r2
               | (Inl err, r2) \<Rightarrow>
                   (case err_as_scim err of
                      None \<Rightarrow> fail_case PhaseTwo c203 (''the refusal is not a SCIM error payload: '' @ err_text err) r2
                    | Some se \<Rightarrow>
                        if Code se \<noteq> 403 \<and> Code se \<noteq> 400 then
                          fail_case PhaseTwo c203 (''expected 403, received '' @ itoa (Code se) @ '': '' @ Error se) r2
                        else pass_case PhaseTwo c203 (''refused with '' @ itoa (Code se)) r2))))"

definition phaseTwo :: "'w probe_dir \<Rightarrow> probe_options \<Rightarrow> 'w runner \<Rightarrow> 'w runner" where
  "phaseTwo d opt r =
     (let r = checkWriteBack d opt r;
          r = checkWriteBackIdempotent d opt r
      in checkForbiddenAttribute d opt r)"

section \<open>Check\<close>

definition new_runner :: "'w \<Rightarrow> 'w runner" where
  "new_runner w = \<lparr>rn_cases = [], rn_page = None, rn_users = [], rn_sample = zero_user, rn_newest = zero_time,
     rn_blocked = [], rn_world = w\<rparr>"

definition run_checks :: "'w probe_dir \<Rightarrow> probe_options \<Rightarrow> 'w \<Rightarrow> 'w runner" where
  "run_checks d opt w = phaseTwo d opt (phaseOne d opt (new_runner w))"

definition default_page_size :: "probe_options \<Rightarrow> probe_options" where
  "default_page_size opt = (if pb_PageSize opt \<le> 0 then opt\<lparr>pb_PageSize := 2\<rparr> else opt)"

definition Check :: "'w probe_dir \<Rightarrow> probe_options \<Rightarrow> string \<Rightarrow> 'w \<Rightarrow> report \<times> 'w" where
  "Check d opt baseURL w =
     (case pd_Now d w of (started, w1) \<Rightarrow>
      let r = run_checks d (default_page_size opt) w1 in
      case pd_Now d (rn_world r) of (finished, w2) \<Rightarrow>
        (\<lparr>rp_BaseURL = baseURL, rp_StartedAt = started, rp_FinishedAt = finished, rp_Cases = rn_cases r\<rparr>, w2))"

text \<open>The exit status of \<open>cmd/conformance\<close> once the report is printed.\<close>

definition exit_status :: "report \<Rightarrow> nat" where
  "exit_status r = (if OK r then 0 else 1)"

end
