(* ===== verification/Conformance_Results.thy ===== *)
theory Conformance_Results
  imports Conformance_Checks Client_Steps
begin

text \<open>
  What a run of the conformance suite amounts to: each check adds its one case and touches
  the directory by what its phase allows, the counts are those of the cases, and a case that
  did not fail says something about the records of the first page.
\<close>

section \<open>The directory a run leaves behind\<close>

text \<open>
  What a check may write, given the record it has just read: the value the record carries, or
  the probe value while it carries none, once; the value it carries again, up to twice; the flag
  it carries.
\<close>

definition probe_ops :: "probe_options \<Rightarrow> user \<Rightarrow> patch_op list \<Rightarrow> bool" where
  "probe_ops opt u ops \<longleftrightarrow>
     (\<exists>v. v = (if u_ExternalID u = [] then pb_ProbeExternalID opt else u_ExternalID u) \<and> v \<noteq> []
        \<and> ops = [NewExternalIDPatch v])
     \<or> (\<exists>n \<le> 2. u_ExternalID u \<noteq> [] \<and> ops = replicate n (NewExternalIDPatch (u_ExternalID u)))
     \<or> (\<exists>b. u_Active u = Some b \<and> ops = [active_patch b])"

definition write_all :: "'w probe_dir \<Rightarrow> string \<Rightarrow> patch_op list \<Rightarrow> 'w \<Rightarrow> 'w" where
  "write_all d ident ops w = foldl (\<lambda>w op. snd (pd_Patch d ident op w)) w ops"

text \<open>
  The calls of a run, one after another, and the writes among them: each block of writes
  follows a read of the record named for writing without another call between, and goes to the
  id of the record that was read.
\<close>

inductive suite_trail :: "'w probe_dir \<Rightarrow> probe_options \<Rightarrow> 'w \<Rightarrow> (string \<times> patch_op) list \<Rightarrow> 'w \<Rightarrow> bool" for d opt where
  trail_done: "suite_trail d opt w [] w"
| trail_page: "pd_Page d f i n w = (rp, w1) \<Longrightarrow> suite_trail d opt w1 ws w2 \<Longrightarrow> suite_trail d opt w ws w2"
| trail_get: "pd_GetUser d ident w = (ru, w1) \<Longrightarrow> suite_trail d opt w1 ws w2 \<Longrightarrow> suite_trail d opt w ws w2"
| trail_config: "pd_Config d w = (rc, w1) \<Longrightarrow> suite_trail d opt w1 ws w2 \<Longrightarrow> suite_trail d opt w ws w2"
| trail_now: "pd_Now d w = (t, w1) \<Longrightarrow> suite_trail d opt w1 ws w2 \<Longrightarrow> suite_trail d opt w ws w2"
| trail_target: "pb_WriteID opt \<noteq> [] \<Longrightarrow> pd_GetUser d (pb_WriteID opt) w = (Inr u, w1) \<Longrightarrow> probe_ops opt u ops \<Longrightarrow>
    suite_trail d opt (write_all d (u_ID u) ops w1) ws w2 \<Longrightarrow> suite_trail d opt w (map (Pair (u_ID u)) ops @ ws) w2"

lemma trail_trans: "suite_trail d opt w ws1 w1 \<Longrightarrow> suite_trail d opt w1 ws2 w2 \<Longrightarrow> suite_trail d opt w (ws1 @ ws2) w2"
  by (induction rule: suite_trail.induct) (auto intro: suite_trail.intros)

lemma trail_writes: "suite_trail d opt w ws w' \<Longrightarrow> pb_WriteID opt = [] \<Longrightarrow> ws = []"
  by (induction rule: suite_trail.induct) auto

lemma probe_ops_page_size [simp]: "probe_ops (default_page_size opt) = probe_ops opt"
  by (simp add: probe_ops_def default_page_size_def fun_eq_iff)

lemma trail_page_size: "suite_trail d (default_page_size opt) w ws w' \<Longrightarrow> suite_trail d opt w ws w'"
  by (induction rule: suite_trail.induct)
    (auto intro: suite_trail.intros, simp add: default_page_size_def trail_target split: if_splits)

locale probe_contract =
  fixes d :: "'w probe_dir" and opt :: probe_options and moves :: "'w \<Rightarrow> 'w \<Rightarrow> bool"
  assumes moves_refl: "moves w w"
    and moves_trans: "moves w1 w2 \<Longrightarrow> moves w2 w3 \<Longrightarrow> moves w1 w3"
    and page_moves: "pd_Page d f i n w = (rp, w') \<Longrightarrow> moves w w'"
    and get_moves: "pd_GetUser d ident w = (ru, w') \<Longrightarrow> moves w w'"
    and config_moves: "pd_Config d w = (rc, w') \<Longrightarrow> moves w w'"
    and now_moves: "pd_Now d w = (t, w') \<Longrightarrow> moves w w'"
    and target_moves: "pb_WriteID opt \<noteq> [] \<Longrightarrow> pd_GetUser d (pb_WriteID opt) w = (Inr u, w1) \<Longrightarrow>
      probe_ops opt u ops \<Longrightarrow> moves w (write_all d (u_ID u) ops w1)"

text \<open>One case of the criterion is added, and the world has moved; nothing else of the runner.\<close>

definition added :: "('w \<Rightarrow> 'w \<Rightarrow> bool) \<Rightarrow> phase \<Rightarrow> criterion \<Rightarrow> 'w runner \<Rightarrow> 'w runner \<Rightarrow> bool" where
  "added moves ph c r r' \<longleftrightarrow>
     (\<exists>w s detail. moves (rn_world r) w \<and> r' = add_case ph c s detail (r\<lparr>rn_world := w\<rparr>))"

definition last_status :: "'w runner \<Rightarrow> status" where
  "last_status r = cs_Status (last (rn_cases r))"

lemma add_case_simps [simp]:
  "rn_page (add_case ph c s detail r) = rn_page r" "rn_users (add_case ph c s detail r) = rn_users r"
  "rn_sample (add_case ph c s detail r) = rn_sample r" "rn_newest (add_case ph c s detail r) = rn_newest r"
  "rn_blocked (add_case ph c s detail r) = rn_blocked r" "rn_world (add_case ph c s detail r) = rn_world r"
  "last_status (add_case ph c s detail r) = s"
  by (simp_all add: add_case_def last_status_def)

lemmas case_defs = pass_case_def fail_case_def skip_case_def

lemma addedI: "moves (rn_world r) w \<Longrightarrow> added moves ph c r (add_case ph c s detail (r\<lparr>rn_world := w\<rparr>))"
  by (auto simp: added_def)

lemma added_keeps:
  assumes "added moves ph c r r'"
  shows "rn_page r' = rn_page r" and "rn_users r' = rn_users r" and "rn_sample r' = rn_sample r"
    and "rn_newest r' = rn_newest r" and "rn_blocked r' = rn_blocked r"
    and "moves (rn_world r) (rn_world r')"
    and "\<exists>s detail. rn_cases r' = rn_cases r @ [\<lparr>cs_ID = cr_id c, cs_Phase = ph_Name ph, cs_Title = cr_title c,
       cs_Criterion = cr_crit c, cs_Status = s, cs_Detail = detail\<rparr>]"
  using assms by (auto simp: added_def add_case_def)

context probe_contract begin

lemma added_here: "added moves ph c r (add_case ph c s detail r)"
  using addedI [of moves r "rn_world r" ph c s detail] moves_refl by simp

lemma added_blocked: "rn_blocked r \<noteq> [] \<Longrightarrow> added moves ph c r (unless_blocked ph c body r)"
  by (simp add: unless_blocked_def skip_case_def added_here)

lemma added_unless_blocked:
  assumes "rn_blocked r = [] \<Longrightarrow> added moves ph c r (body r)"
  shows "added moves ph c r (unless_blocked ph c body r)"
  using assms by (auto simp: unless_blocked_def skip_case_def added_here)

lemmas here = addedI [where moves = moves, OF page_moves] addedI [where moves = moves, OF get_moves]
  addedI [where moves = moves, OF config_moves] addedI [where moves = moves, OF now_moves] added_here

lemma envelope_added: "(rn_blocked r = [] \<Longrightarrow> rn_page r \<noteq> None) \<Longrightarrow> added moves PhaseOne c102 r (checkEnvelope r)"
  unfolding checkEnvelope_def
  by (rule added_unless_blocked) (auto simp: case_defs added_here split: option.splits)

lemma ids_added: "added moves PhaseOne c103 r (checkStableIDs r)"
  unfolding checkStableIDs_def
  by (rule added_unless_blocked) (auto simp: case_defs added_here split: sum.splits)

lemma active_added: "added moves PhaseOne c104 r (checkActiveFlag r)"
  unfolding checkActiveFlag_def
  by (rule added_unless_blocked) (auto simp: case_defs added_here split: option.splits)

lemma alias_added: "added moves PhaseOne c105 r (checkAlias opts r)"
  unfolding checkAlias_def
  by (rule added_unless_blocked) (auto simp: case_defs added_here split: option.splits)

lemma meta_added: "added moves PhaseOne c106 r (checkMeta d r)"
  unfolding checkMeta_def
  by (rule added_unless_blocked) (auto simp: case_defs ask_def Let_def here split: option.splits prod.splits)

lemma pagination_added: "(rn_blocked r = [] \<Longrightarrow> rn_page r \<noteq> None) \<Longrightarrow> added moves PhaseOne c107 r (checkPagination d opts r)"
  unfolding checkPagination_def
  by (rule added_unless_blocked)
    (auto simp: case_defs ask_def intro: here split: option.splits prod.splits sum.splits list.splits)

lemma filtering_added: "(rn_blocked r = [] \<Longrightarrow> rn_page r \<noteq> None) \<Longrightarrow> added moves PhaseOne c108 r (checkFiltering d opts r)"
  unfolding checkFiltering_def
  by (rule added_unless_blocked)
    (auto simp: case_defs ask_def intro: here addedI [where moves = moves, OF moves_trans [OF page_moves page_moves]]
      split: option.splits prod.splits sum.splits)

lemma single_added: "added moves PhaseOne c109 r (checkSingleRead d r)"
  unfolding checkSingleRead_def
  by (rule added_unless_blocked) (auto simp: case_defs ask_def intro: here split: prod.splits sum.splits)

lemma unknown_added: "added moves PhaseOne c110 r (checkUnknownID d r)"
  unfolding checkUnknownID_def
  by (rule added_unless_blocked)
    (auto simp: case_defs ask_def intro: here split: prod.splits sum.splits option.splits)

lemma config_added: "added moves PhaseOne c111 r (checkProviderConfig d r)"
  unfolding checkProviderConfig_def
  by (rule added_unless_blocked) (auto simp: case_defs ask_def intro: here split: prod.splits sum.splits)

lemma credential_added:
  assumes "rn_blocked r = []"
  shows "moves (rn_world r) (rn_world (checkCredential d opts r))"
    and "\<exists>s detail. rn_cases (checkCredential d opts r) = rn_cases r @ [\<lparr>cs_ID = cr_id c101, cs_Phase = ph_Name PhaseOne,
       cs_Title = cr_title c101, cs_Criterion = cr_crit c101, cs_Status = s, cs_Detail = detail\<rparr>]"
    and "rn_blocked (checkCredential d opts r) = [] \<Longrightarrow> rn_page (checkCredential d opts r) \<noteq> None"
  by (auto simp: checkCredential_def case_defs ask_def add_case_def Let_def assms
      split: prod.splits sum.splits if_splits dest: page_moves)

text \<open>The record to write to, and the writes of each check on it.\<close>

lemma target_read:
  assumes "writeTarget d opt r = (tu, r1)"
  obtains w where "r1 = r\<lparr>rn_world := w\<rparr>" "moves (rn_world r) w"
    "\<And>u. tu = Some u \<Longrightarrow> pb_WriteID opt \<noteq> [] \<and> pd_GetUser d (pb_WriteID opt) (rn_world r) = (Inr u, w)"
proof (cases "rn_blocked r \<noteq> [] \<or> pb_WriteID opt = []")
  case True
  with assms that [of "rn_world r"] moves_refl show ?thesis by (auto simp: writeTarget_def)
next
  case False
  obtain ru w where g: "pd_GetUser d (pb_WriteID opt) (rn_world r) = (ru, w)" by fastforce
  with assms False that [OF _ get_moves [OF g]] show ?thesis
    by (auto simp: writeTarget_def ask_def split: sum.splits)
qed

text \<open>A check of phase two may go on from the failed read, or write to the record read.\<close>

lemma with_target_added:
  assumes unread: "\<And>w. moves (rn_world r) w \<Longrightarrow> writeTarget d opt r = (None, r\<lparr>rn_world := w\<rparr>) \<Longrightarrow>
      added moves PhaseTwo c r (body r)"
    and read: "\<And>u w. writeTarget d opt r = (Some u, r\<lparr>rn_world := w\<rparr>) \<Longrightarrow>
      (\<And>ops. ops = [] \<or> probe_ops opt u ops \<Longrightarrow> moves (rn_world r) (write_all d (u_ID u) ops w)) \<Longrightarrow>
      added moves PhaseTwo c r (body r)"
  shows "added moves PhaseTwo c r (with_target opt c body r)"
proof -
  obtain tu r1 where t: "writeTarget d opt r = (tu, r1)" by fastforce
  then obtain w where w: "r1 = r\<lparr>rn_world := w\<rparr>" "moves (rn_world r) w"
    and u: "\<And>u. tu = Some u \<Longrightarrow> pb_WriteID opt \<noteq> [] \<and> pd_GetUser d (pb_WriteID opt) (rn_world r) = (Inr u, w)"
    by (rule target_read) blast
  have "added moves PhaseTwo c r (body r)"
  proof (cases tu)
    case None
    with unread [OF w(2)] t w(1) show ?thesis by simp
  next
    case (Some u)
    show ?thesis
    proof (rule read)
      show "writeTarget d opt r = (Some u, r\<lparr>rn_world := w\<rparr>)" using t w(1) Some by simp
      show "moves (rn_world r) (write_all d (u_ID u) ops w)" if "ops = [] \<or> probe_ops opt u ops" for ops
        using that u [OF Some] target_moves w(2) by (auto simp: write_all_def)
    qed
  qed
  then show ?thesis
    unfolding with_target_def by (intro added_unless_blocked) (simp add: skip_case_def added_here)
qed

lemma write_added: "added moves PhaseTwo c201 r (checkWriteBack d opt r)"
  unfolding checkWriteBack_def
proof (rule with_target_added, goal_cases)
  case (1 w)
  then show ?case by (simp add: fail_case_def addedI)
next
  case (2 u w)
  define val where "val = (if u_ExternalID u = [] then pb_ProbeExternalID opt else u_ExternalID u)"
  show ?case
  proof (cases "u_ExternalID u = [] \<and> pb_ProbeExternalID opt = []")
    case True
    with 2(1) 2(2) [of "[]"] show ?thesis by (simp add: skip_case_def addedI write_all_def)
  next
    case False
    obtain ru w' where p: "pd_Patch d (u_ID u) (NewExternalIDPatch val) w = (ru, w')" by fastforce
    have "moves (rn_world r) w'"
      using 2(2) [of "[NewExternalIDPatch val]"] False p by (auto simp: probe_ops_def val_def write_all_def split: if_splits)
    with 2(1) False p show ?thesis
      by (auto simp: val_def [symmetric] Let_def ask_def case_defs intro: addedI split: sum.splits)
  qed
qed

lemma write_again_writes:
  "write_again d u i n r = (res, r') \<Longrightarrow>
     \<exists>k \<le> n. r' = r\<lparr>rn_world := write_all d (u_ID u) (replicate k (NewExternalIDPatch (u_ExternalID u))) (rn_world r)\<rparr>"
proof (induction n arbitrary: i r)
  case 0
  then show ?case by (simp add: write_all_def)
next
  case (Suc n)
  obtain ru w where p: "pd_Patch d (u_ID u) (NewExternalIDPatch (u_ExternalID u)) (rn_world r) = (ru, w)" by fastforce
  show ?case
  proof (cases "\<exists>got. ru = Inr got \<and> u_ExternalID got = u_ExternalID u")
    case True
    with Suc.prems p have "write_again d u (Suc i) n (r\<lparr>rn_world := w\<rparr>) = (res, r')" by (auto simp: ask_def)
    from Suc.IH [OF this] obtain k where "k \<le> n"
      "r' = r\<lparr>rn_world := write_all d (u_ID u) (replicate k (NewExternalIDPatch (u_ExternalID u))) w\<rparr>" by auto
    with p show ?thesis by (intro exI [of _ "Suc k"]) (simp add: write_all_def)
  next
    case False
    with Suc.prems p show ?thesis
      by (intro exI [of _ 1]) (auto simp: ask_def write_all_def split: sum.splits if_splits)
  qed
qed

lemma idempotent_added: "added moves PhaseTwo c202 r (checkWriteBackIdempotent d opt r)"
  unfolding checkWriteBackIdempotent_def
proof (rule with_target_added, goal_cases)
  case (1 w)
  then show ?case by (simp add: skip_case_def addedI)
next
  case (2 u w)
  show ?case
  proof (cases "u_ExternalID u = []")
    case True
    with 2(1) 2(2) [of "[]"] show ?thesis by (simp add: skip_case_def addedI write_all_def)
  next
    case False
    obtain res r2 where again: "write_again d u 1 2 (r\<lparr>rn_world := w\<rparr>) = (res, r2)" by fastforce
    from write_again_writes [OF this] obtain k where k: "k \<le> 2"
      "r2 = r\<lparr>rn_world := write_all d (u_ID u) (replicate k (NewExternalIDPatch (u_ExternalID u))) w\<rparr>" by auto
    with 2(2) [of "replicate k (NewExternalIDPatch (u_ExternalID u))"] False obtain w' where
      "r2 = r\<lparr>rn_world := w'\<rparr>" "moves (rn_world r) w'" by (auto simp: probe_ops_def)
    with 2(1) False again show ?thesis
      by (simp add: case_defs addedI split: option.splits)
  qed
qed

lemma forbidden_added: "added moves PhaseTwo c203 r (checkForbiddenAttribute d opt r)"
  unfolding checkForbiddenAttribute_def
proof (rule with_target_added, goal_cases)
  case (1 w)
  then show ?case by (simp add: skip_case_def addedI)
next
  case (2 u w)
  show ?case
  proof (cases "u_Active u")
    case None
    with 2(1) 2(2) [of "[]"] show ?thesis by (simp add: skip_case_def addedI write_all_def)
  next
    case (Some b)
    obtain ru w' where p: "pd_Patch d (u_ID u) (active_patch b) w = (ru, w')" by fastforce
    have "moves (rn_world r) w'"
      using 2(2) [of "[active_patch b]"] Some p by (simp add: probe_ops_def write_all_def)
    with 2(1) Some p show ?thesis
      by (auto simp: ask_def case_defs intro: addedI split: sum.splits option.splits)
  qed
qed

end

section \<open>A whole run\<close>

definition all_criteria :: "(phase \<times> criterion) list" where
  "all_criteria =
     [(PhaseOne, c101), (PhaseOne, c102), (PhaseOne, c103), (PhaseOne, c104), (PhaseOne, c105), (PhaseOne, c106),
      (PhaseOne, c107), (PhaseOne, c108), (PhaseOne, c109), (PhaseOne, c110), (PhaseOne, c111),
      (PhaseTwo, c201), (PhaseTwo, c202), (PhaseTwo, c203)]"

text \<open>The criteria a list of cases is for, in order.\<close>

definition case_key :: "case_record \<Rightarrow> string \<times> string \<times> string \<times> string" where
  "case_key c = (cs_Phase c, cs_ID c, cs_Title c, cs_Criterion c)"

definition criterion_key :: "phase \<times> criterion \<Rightarrow> string \<times> string \<times> string \<times> string" where
  "criterion_key pc = (ph_Name (fst pc), cr_id (snd pc), cr_title (snd pc), cr_crit (snd pc))"

text \<open>From one runner to a later one: cases are appended, the world moves, the rest stays.\<close>

definition goes_on :: "('w \<Rightarrow> 'w \<Rightarrow> bool) \<Rightarrow> (phase \<times> criterion) list \<Rightarrow> 'w runner \<Rightarrow> 'w runner \<Rightarrow> bool" where
  "goes_on moves pcs r r' \<longleftrightarrow>
     (\<exists>cs. rn_cases r' = rn_cases r @ cs \<and> map case_key cs = map criterion_key pcs)
     \<and> moves (rn_world r) (rn_world r') \<and> rn_page r' = rn_page r \<and> rn_users r' = rn_users r
     \<and> rn_sample r' = rn_sample r \<and> rn_newest r' = rn_newest r \<and> rn_blocked r' = rn_blocked r"

lemma goes_onD:
  assumes "goes_on moves pcs r r'"
  shows "rn_page r' = rn_page r" "rn_users r' = rn_users r" "rn_sample r' = rn_sample r"
    "rn_newest r' = rn_newest r" "rn_blocked r' = rn_blocked r" "moves (rn_world r) (rn_world r')"
    "set (rn_cases r) \<subseteq> set (rn_cases r')"
    "map case_key (rn_cases r') = map case_key (rn_cases r) @ map criterion_key pcs"
  using assms by (auto simp: goes_on_def)

lemma last_status_ok:
  assumes "rn_cases r \<noteq> []" and "set (rn_cases r) \<subseteq> set (rn_cases r')" and "\<forall>c \<in> set (rn_cases r'). cs_Status c \<noteq> Fail"
  shows "last_status r \<noteq> Fail"
  using assms(2,3) last_in_set [OF assms(1)] unfolding last_status_def by blast

lemma goes_on_last:
  assumes "goes_on moves [pc] r r'" and "goes_on moves pcs r' r''" and "\<forall>c \<in> set (rn_cases r''). cs_Status c \<noteq> Fail"
  shows "last_status r' \<noteq> Fail"
proof -
  from assms(1) obtain cs where "rn_cases r' = rn_cases r @ cs" "map case_key cs = map criterion_key [pc]"
    by (auto simp: goes_on_def)
  then have "rn_cases r' \<noteq> []" by auto
  then show ?thesis by (rule last_status_ok [OF _ goes_onD(7) [OF assms(2)] assms(3)])
qed

context probe_contract begin

lemma added_goes_on: "added moves ph c r r' \<Longrightarrow> goes_on moves [(ph, c)] r r'"
  using added_keeps [of moves ph c r r'] by (auto simp: goes_on_def case_key_def criterion_key_def)

lemma goes_on_trans: "goes_on moves a r1 r2 \<Longrightarrow> goes_on moves b r2 r3 \<Longrightarrow> goes_on moves (a @ b) r1 r3"
  by (auto simp: goes_on_def intro: moves_trans)

text \<open>The runner after each check, and how each goes on from the one before.\<close>

lemma run_checks_steps:
  defines "q1 w \<equiv> checkCredential d opt (new_runner w)"
  defines "q2 w \<equiv> checkEnvelope (q1 w)"
  defines "q3 w \<equiv> checkStableIDs (q2 w)"
  defines "q4 w \<equiv> checkActiveFlag (q3 w)"
  defines "q5 w \<equiv> checkAlias opt (q4 w)"
  defines "q6 w \<equiv> checkMeta d (q5 w)"
  shows "goes_on moves [(PhaseOne, c102)] (q1 w) (q2 w)" and "goes_on moves [(PhaseOne, c103)] (q2 w) (q3 w)"
    and "goes_on moves [(PhaseOne, c104)] (q3 w) (q4 w)" and "goes_on moves [(PhaseOne, c105)] (q4 w) (q5 w)"
    and "goes_on moves [(PhaseOne, c106)] (q5 w) (q6 w)"
    and "goes_on moves (drop 6 all_criteria) (q6 w) (run_checks d opt w)"
proof -
  have page: "rn_blocked (q1 w) = [] \<Longrightarrow> rn_page (q1 w) \<noteq> None"
    unfolding q1_def by (rule credential_added(3)) (simp_all add: new_runner_def)
  show s2: "goes_on moves [(PhaseOne, c102)] (q1 w) (q2 w)"
    unfolding q2_def by (rule added_goes_on [OF envelope_added [OF page]])
  show s3: "goes_on moves [(PhaseOne, c103)] (q2 w) (q3 w)"
    unfolding q3_def by (rule added_goes_on [OF ids_added])
  show s4: "goes_on moves [(PhaseOne, c104)] (q3 w) (q4 w)"
    unfolding q4_def by (rule added_goes_on [OF active_added])
  show s5: "goes_on moves [(PhaseOne, c105)] (q4 w) (q5 w)"
    unfolding q5_def by (rule added_goes_on [OF alias_added])
  show s6: "goes_on moves [(PhaseOne, c106)] (q5 w) (q6 w)"
    unfolding q6_def by (rule added_goes_on [OF meta_added])
  have page6: "rn_blocked (q6 w) = [] \<Longrightarrow> rn_page (q6 w) \<noteq> None"
    using page goes_onD(1,5) [OF s2] goes_onD(1,5) [OF s3] goes_onD(1,5) [OF s4] goes_onD(1,5) [OF s5]
      goes_onD(1,5) [OF s6] by simp
  define q7 where "q7 = checkPagination d opt (q6 w)"
  have s7: "goes_on moves [(PhaseOne, c107)] (q6 w) q7"
    unfolding q7_def by (rule added_goes_on [OF pagination_added [OF page6]])
  have page7: "rn_blocked q7 = [] \<Longrightarrow> rn_page q7 \<noteq> None"
    using page6 goes_onD(1,5) [OF s7] by simp
  note tail = goes_on_trans [OF s7 added_goes_on [OF filtering_added [OF page7]]]
  show "goes_on moves (drop 6 all_criteria) (q6 w) (run_checks d opt w)"
    using goes_on_trans [OF goes_on_trans [OF goes_on_trans [OF goes_on_trans [OF goes_on_trans [OF goes_on_trans
      [OF tail added_goes_on [OF single_added]] added_goes_on [OF unknown_added]]
      added_goes_on [OF config_added]] added_goes_on [OF write_added]] added_goes_on [OF idempotent_added]]
      added_goes_on [OF forbidden_added], of opt]
    unfolding run_checks_def phaseOne_def phaseTwo_def Let_def all_criteria_def
      q1_def q2_def q3_def q4_def q5_def q6_def q7_def
    by simp
qed

lemma run_checks_complete:
  "map case_key (rn_cases (run_checks d opt w)) = map criterion_key all_criteria"
  "moves w (rn_world (run_checks d opt w))"
proof -
  define q1 where "q1 = checkCredential d opt (new_runner w)"
  have new: "rn_blocked (new_runner w) = []" "rn_cases (new_runner w) = []" "rn_world (new_runner w) = w"
    by (simp_all add: new_runner_def)
  note s = run_checks_steps [of w]
  have "goes_on moves (drop 1 all_criteria) q1 (run_checks d opt w)"
    using goes_on_trans [OF s(1) goes_on_trans [OF s(2) goes_on_trans [OF s(3) goes_on_trans [OF s(4)
      goes_on_trans [OF s(5) s(6)]]]]]
    by (simp add: q1_def all_criteria_def)
  note rest = goes_onD [OF this]
  have "map case_key (rn_cases q1) = [criterion_key (PhaseOne, c101)]"
    using credential_added(2) [OF new(1), of opt] new(2) by (auto simp: q1_def case_key_def criterion_key_def)
  with rest(8) show "map case_key (rn_cases (run_checks d opt w)) = map criterion_key all_criteria"
    by (simp add: all_criteria_def)
  show "moves w (rn_world (run_checks d opt w))"
    using credential_added(1) [OF new(1), of opt] rest(6) new(3) by (auto simp: q1_def intro: moves_trans)
qed

end

section \<open>What a case that did not fail says\<close>

lemma ids_from_ok:
  "ids_from seen us = Inr ids \<Longrightarrow>
     (\<forall>u \<in> set us. trim_space (u_ID u) \<noteq> []) \<and> distinct (map u_ID us) \<and> set (map u_ID us) \<inter> set seen = {}"
proof (induction us arbitrary: seen)
  case (Cons u us)
  then have u: "trim_space (u_ID u) \<noteq> []" "u_ID u \<notin> set seen" and rest: "ids_from (u_ID u # seen) us = Inr ids"
    by (auto split: if_splits)
  from Cons.IH [OF rest] u show ?case by auto
qed simp

lemma alias_complaint_None:
  "alias_complaint suffix us = None \<longleftrightarrow>
     (\<forall>u \<in> set us. has_suffix (to_lower (u_UserName u)) suffix
        \<and> (\<forall>e \<in> set (u_Emails u). has_suffix (to_lower (e_Value e)) suffix))"
  by (induction us) auto

lemma envelope_ok:
  assumes "rn_blocked r = []" and "rn_page r = Some page" and "last_status (checkEnvelope r) \<noteq> Fail"
  shows "int (length (lr_Resources page)) \<le> lr_TotalResults page"
    and "lr_Resources page \<noteq> [] \<Longrightarrow> lr_StartIndex page = 1"
  using assms by (auto simp: checkEnvelope_def unless_blocked_def case_defs split: if_splits)

lemma ids_ok:
  assumes "rn_blocked r = []" and "last_status (checkStableIDs r) \<noteq> Fail"
  shows "distinct (map u_ID (rn_users r)) \<and> (\<forall>u \<in> set (rn_users r). trim_space (u_ID u) \<noteq> [])"
  using assms
  by (auto simp: checkStableIDs_def unless_blocked_def case_defs split: if_splits sum.splits dest: ids_from_ok)

lemma active_ok:
  assumes "rn_blocked r = []" and "last_status (checkActiveFlag r) \<noteq> Fail"
  shows "\<forall>u \<in> set (rn_users r). u_Active u \<noteq> None"
  using assms
  by (auto simp: checkActiveFlag_def unless_blocked_def case_defs find_None_iff split: if_splits option.splits)

lemma alias_ok:
  assumes "rn_blocked r = []" and "last_status (checkAlias opt r) \<noteq> Fail" and "pb_AliasDomain opt \<noteq> []"
  shows "\<forall>u \<in> set (rn_users r). has_suffix (to_lower (u_UserName u)) (alias_suffix opt)
        \<and> (\<forall>e \<in> set (u_Emails u). has_suffix (to_lower (e_Value e)) (alias_suffix opt))"
proof -
  have "rn_users r \<noteq> [] \<Longrightarrow> alias_complaint (alias_suffix opt) (rn_users r) = None"
    using assms by (auto simp: checkAlias_def unless_blocked_def case_defs split: if_splits option.splits)
  then show ?thesis by (cases "rn_users r = []") (simp_all add: alias_complaint_None)
qed

lemma meta_ok:
  assumes "rn_blocked r = []" and "last_status (checkMeta d r) \<noteq> Fail"
  shows "\<forall>u \<in> set (rn_users r). \<not> is_zero (LastModified u)"
    and "rn_users r \<noteq> [] \<Longrightarrow> \<exists>t w w'. pd_Now d w = (t, w') \<and> time_sub (rn_newest r) t \<le> hour"
proof -
  have "rn_users r \<noteq> [] \<Longrightarrow> find (\<lambda>u. is_zero (LastModified u)) (rn_users r) = None
      \<and> (\<exists>t w w'. pd_Now d w = (t, w') \<and> time_sub (rn_newest r) t \<le> hour)"
    using assms
    by (fastforce simp: checkMeta_def unless_blocked_def case_defs ask_def Let_def split: if_splits option.splits prod.splits)
  then show "\<forall>u \<in> set (rn_users r). \<not> is_zero (LastModified u)"
    and "rn_users r \<noteq> [] \<Longrightarrow> \<exists>t w w'. pd_Now d w = (t, w') \<and> time_sub (rn_newest r) t \<le> hour"
    by (cases "rn_users r = []"; simp add: find_None_iff)+
qed

lemma credential_ok:
  assumes "last_status (checkCredential d opt (new_runner w)) \<noteq> Fail"
  obtains page w1 us where "pd_Page d [] 1 (pb_PageSize opt) w = (Inr page, w1)" "Users page = Inr us"
    "rn_blocked (checkCredential d opt (new_runner w)) = []" "rn_page (checkCredential d opt (new_runner w)) = Some page"
    "rn_users (checkCredential d opt (new_runner w)) = us"
    "rn_newest (checkCredential d opt (new_runner w)) = foldl newer zero_time us"
  using assms
  by (auto simp: checkCredential_def case_defs ask_def new_runner_def Let_def split: prod.splits sum.splits if_splits)

text \<open>The records of a page a run had nothing to say against.\<close>

definition page_conforms :: "probe_options \<Rightarrow> list_response \<Rightarrow> user list \<Rightarrow> bool" where
  "page_conforms opt page us \<longleftrightarrow>
     int (length (lr_Resources page)) \<le> lr_TotalResults page
     \<and> (lr_Resources page \<noteq> [] \<longrightarrow> lr_StartIndex page = 1)
     \<and> distinct (map u_ID us)
     \<and> (\<forall>u \<in> set us. trim_space (u_ID u) \<noteq> [] \<and> u_Active u \<noteq> None \<and> \<not> is_zero (LastModified u)
         \<and> (pb_AliasDomain opt \<noteq> [] \<longrightarrow> has_suffix (to_lower (u_UserName u)) (alias_suffix opt)
             \<and> (\<forall>e \<in> set (u_Emails u). has_suffix (to_lower (e_Value e)) (alias_suffix opt))))"

context probe_contract begin

lemma run_checks_pass:
  assumes "\<forall>c \<in> set (rn_cases (run_checks d opt w)). cs_Status c \<noteq> Fail"
  shows "\<exists>page us w1. pd_Page d [] 1 (pb_PageSize opt) w = (Inr page, w1) \<and> Users page = Inr us
    \<and> page_conforms opt page us"
proof -
  define q1 where "q1 = checkCredential d opt (new_runner w)"
  define q2 where "q2 = checkEnvelope q1"
  define q3 where "q3 = checkStableIDs q2"
  define q4 where "q4 = checkActiveFlag q3"
  define q5 where "q5 = checkAlias opt q4"
  define q6 where "q6 = checkMeta d q5"
  note s = run_checks_steps [of w, folded q1_def, folded q2_def, folded q3_def, folded q4_def, folded q5_def, folded q6_def]
  note t5 = goes_on_trans [OF s(5) s(6)]
  note t4 = goes_on_trans [OF s(4) t5]
  note t3 = goes_on_trans [OF s(3) t4]
  note t2 = goes_on_trans [OF s(2) t3]
  note t1 = goes_on_trans [OF s(1) t2]
  have "rn_cases q1 \<noteq> []"
    using credential_added(2) [of "new_runner w" opt] by (auto simp: q1_def new_runner_def)
  then have "last_status q1 \<noteq> Fail" by (rule last_status_ok [OF _ goes_onD(7) [OF t1] assms])
  then obtain page us w1 where page: "pd_Page d [] 1 (pb_PageSize opt) w = (Inr page, w1)" "Users page = Inr us"
    and q1: "rn_blocked q1 = []" "rn_page q1 = Some page" "rn_users q1 = us"
    unfolding q1_def by (rule credential_ok) blast
  note last = goes_on_last [OF s(1) t2 assms] goes_on_last [OF s(2) t3 assms] goes_on_last [OF s(3) t4 assms]
    goes_on_last [OF s(4) t5 assms] goes_on_last [OF s(5) s(6) assms]
  have same: "rn_blocked q2 = []" "rn_users q2 = us" "rn_blocked q3 = []" "rn_users q3 = us"
    "rn_blocked q4 = []" "rn_users q4 = us" "rn_blocked q5 = []" "rn_users q5 = us"
    using q1 goes_onD(2,5) [OF s(1)] goes_onD(2,5) [OF s(2)] goes_onD(2,5) [OF s(3)] goes_onD(2,5) [OF s(4)]
    by simp_all
  have "page_conforms opt page us"
    using envelope_ok [OF q1(1,2) last(1) [unfolded q2_def]] ids_ok [OF same(1) last(2) [unfolded q3_def]]
      active_ok [OF same(3) last(3) [unfolded q4_def]] alias_ok [OF same(5) last(4) [unfolded q5_def]]
      meta_ok(1) [OF same(7) last(5) [unfolded q6_def]]
    by (auto simp: page_conforms_def same)
  with page show ?thesis by blast
qed

end

section \<open>Counts\<close>

lemma count_cases_eq:
  "count_cases cs (p, f, s) = (p + length (filter (\<lambda>c. cs_Status c = Pass) cs),
     f + length (filter (\<lambda>c. cs_Status c = Fail) cs), s + length (filter (\<lambda>c. cs_Status c = Skip) cs))"
  by (induction cs arbitrary: p f s) (auto split: status.splits)

lemma Counts_total: "Counts r = (p, f, s) \<Longrightarrow> p + f + s = length (rp_Cases r)"
proof -
  have "length (filter (\<lambda>c. cs_Status c = Pass) cs) + length (filter (\<lambda>c. cs_Status c = Fail) cs)
      + length (filter (\<lambda>c. cs_Status c = Skip) cs) = length cs" for cs
    by (induction cs) (auto, metis status.exhaust)
  then show "Counts r = (p, f, s) \<Longrightarrow> p + f + s = length (rp_Cases r)"
    by (auto simp: Counts_def count_cases_eq)
qed

lemma OK_iff: "OK r \<longleftrightarrow> (\<forall>c \<in> set (rp_Cases r). cs_Status c \<noteq> Fail)"
  by (auto simp: OK_def Counts_def count_cases_eq filter_empty_conv)

section \<open>The client under test\<close>

lemma client_probe_simps [simp]:
  "pd_Page (client_probe c) = Page c" "pd_GetUser (client_probe c) = GetUser c"
  "pd_Patch (client_probe c) = Patch c" "pd_Config (client_probe c) = ServiceProviderConfig c"
  "pd_Now (client_probe c) = in_env (t_Now (cl_t c))"
  by (simp_all add: client_probe_def)

text \<open>A write of the suite as a request of the client.\<close>

definition patch_request :: "'n client \<Rightarrow> string \<times> patch_op \<Rightarrow> request" where
  "patch_request c write = build_request c ''PATCH'' (resolve (cl_base c) (''Users/'' @ PathEscape (fst write)))
     (Some (print_json (enc_patch_op (snd write))))"

definition suite_request :: "'n client \<Rightarrow> (string \<times> patch_op) list \<Rightarrow> request \<Rightarrow> bool" where
  "suite_request c ws rq \<longleftrightarrow> is_get rq \<or> rq \<in> patch_request c ` set ws"

lemma Config_steps: "ServiceProviderConfig c w = (res, w') \<Longrightarrow> env_steps c is_get (env w) (env w')"
  by (auto simp: ServiceProviderConfig_def is_get_def build_request_def dest!: do_request_steps [where P = is_get])

lemma get_steps_suite: "env_steps c is_get n n' \<Longrightarrow> env_steps c (suite_request c ws) n n'"
  by (erule env_steps_mono) (simp add: suite_request_def)

lemma more_writes: "env_steps c (suite_request c ws) n n' \<Longrightarrow> set ws \<subseteq> set ws' \<Longrightarrow> env_steps c (suite_request c ws') n n'"
  by (erule env_steps_mono) (auto simp: suite_request_def)

lemma write_all_steps:
  "set (map (Pair ident) ops) \<subseteq> set ws \<Longrightarrow>
     env_steps c (suite_request c ws) (env w) (env (write_all (client_probe c) ident ops w))"
proof (induction ops arbitrary: w)
  case Nil
  then show ?case by (simp add: write_all_def env_done)
next
  case (Cons op ops)
  obtain ru w1 where p: "Patch c ident op w = (ru, w1)" by fastforce
  have "suite_request c ws (patch_request c (ident, op))"
    using Cons.prems by (auto simp: suite_request_def)
  then have "env_steps c (suite_request c ws) (env w) (env w1)"
    using p unfolding Patch_def patch_request_def by (auto intro: do_request_steps)
  with Cons p show ?case by (auto simp: write_all_def intro: env_steps_trans)
qed

lemma trail_requests: "suite_trail (client_probe c) opt w ws w' \<Longrightarrow> env_steps c (suite_request c ws) (env w) (env w')"
proof (induction rule: suite_trail.induct)
  case (trail_target w u w1 ops ws w2)
  let ?ws = "map (Pair (u_ID u)) ops @ ws"
  have "env_steps c (suite_request c ?ws) (env w) (env w1)"
    using trail_target(2) by (auto intro: get_steps_suite GetUser_steps)
  moreover have "env_steps c (suite_request c ?ws) (env w1) (env (write_all (client_probe c) (u_ID u) ops w1))"
    by (rule write_all_steps) simp
  moreover have "env_steps c (suite_request c ?ws) (env (write_all (client_probe c) (u_ID u) ops w1)) (env w2)"
    by (rule more_writes [OF trail_target(5)]) simp
  ultimately show ?case by (blast intro: env_steps_trans)
next
  case (trail_now w t w1 ws w2)
  then show ?case by (auto simp: in_env_iff intro: env_clock)
qed (auto intro: env_done dest!: Page_steps GetUser_steps Config_steps get_steps_suite intro: env_steps_trans)

definition probe_moves :: "'n client \<Rightarrow> probe_options \<Rightarrow> 'n net \<Rightarrow> 'n net \<Rightarrow> bool" where
  "probe_moves c opt w w' \<longleftrightarrow> (\<exists>ws. suite_trail (client_probe c) opt w ws w')"

interpretation suite: probe_contract "client_probe c" opt "probe_moves c opt"
  for c opt
proof (unfold_locales, unfold probe_moves_def, goal_cases)
  case 1 show ?case by (blast intro: trail_done)
next
  case 2 then show ?case by (blast intro: trail_trans)
next
  case 3 then show ?case by (blast intro: trail_page trail_done)
next
  case 4 then show ?case by (blast intro: trail_get trail_done)
next
  case 5 then show ?case by (blast intro: trail_config trail_done)
next
  case 6 then show ?case by (blast intro: trail_now trail_done)
next
  case 7 then show ?case by (blast intro: trail_target trail_done)
qed

text \<open>The whole of \<open>Check\<close>, its two readings of the clock included.\<close>

lemma Check_trail: "\<exists>ws. suite_trail (client_probe c) opt w ws (snd (Check (client_probe c) opt baseURL w))"
proof -
  define opts where "opts = default_page_size opt"
  define d where "d = client_probe c"
  obtain t w1 where n1: "pd_Now d w = (t, w1)" by fastforce
  define r where "r = run_checks d opts w1"
  obtain t' w2 where n2: "pd_Now d (rn_world r) = (t', w2)" by fastforce
  have run: "snd (Check d opt baseURL w) = w2"
    using n1 n2 by (simp add: Check_def Let_def r_def opts_def)
  obtain ws where "suite_trail d opts w1 ws (rn_world r)"
    using suite.run_checks_complete(2) [of c opts w1] by (auto simp: probe_moves_def r_def d_def)
  then have "suite_trail d opt w1 ws (rn_world r)" unfolding opts_def by (rule trail_page_size)
  then have "suite_trail d opt w ([] @ ws @ []) w2"
    using n1 n2 by (intro trail_trans) (auto intro: trail_now trail_done)
  then show ?thesis unfolding run [symmetric] d_def by blast
qed

end
