(* ===== verification/Conformance_Properties.thy ===== *)
theory Conformance_Properties
  imports Conformance_Results
begin

text \<open>
  The properties of the conformance suite.
\<close>

section \<open>A run that cannot read the directory\<close>

lemma blocked_checks [simp]:
  assumes "rn_blocked r \<noteq> []"
  shows "checkEnvelope r = skip_case PhaseOne c102 (rn_blocked r) r"
    and "checkStableIDs r = skip_case PhaseOne c103 (rn_blocked r) r"
    and "checkActiveFlag r = skip_case PhaseOne c104 (rn_blocked r) r"
    and "checkAlias opt r = skip_case PhaseOne c105 (rn_blocked r) r"
    and "checkMeta d r = skip_case PhaseOne c106 (rn_blocked r) r"
    and "checkPagination d opt r = skip_case PhaseOne c107 (rn_blocked r) r"
    and "checkFiltering d opt r = skip_case PhaseOne c108 (rn_blocked r) r"
    and "checkSingleRead d r = skip_case PhaseOne c109 (rn_blocked r) r"
    and "checkUnknownID d r = skip_case PhaseOne c110 (rn_blocked r) r"
    and "checkProviderConfig d r = skip_case PhaseOne c111 (rn_blocked r) r"
    and "checkWriteBack d opt r = skip_case PhaseTwo c201 (rn_blocked r) r"
    and "checkWriteBackIdempotent d opt r = skip_case PhaseTwo c202 (rn_blocked r) r"
    and "checkForbiddenAttribute d opt r = skip_case PhaseTwo c203 (rn_blocked r) r"
  using assms
  by (simp_all add: checkEnvelope_def checkStableIDs_def checkActiveFlag_def checkAlias_def checkMeta_def
      checkPagination_def checkFiltering_def checkSingleRead_def checkUnknownID_def checkProviderConfig_def
      checkWriteBack_def checkWriteBackIdempotent_def checkForbiddenAttribute_def with_target_def unless_blocked_def)

lemma skip_case_simps [simp]:
  "rn_blocked (skip_case ph c reason r) = rn_blocked r" "rn_world (skip_case ph c reason r) = rn_world r"
  "map cs_Status (rn_cases (skip_case ph c reason r)) = map cs_Status (rn_cases r) @ [Skip]"
  by (simp_all add: skip_case_def add_case_def)

lemma Check_runner:
  "pd_Now d w = (started, w1) \<Longrightarrow>
     rp_Cases (fst (Check d opt baseURL w)) = rn_cases (run_checks d (default_page_size opt) w1)"
  by (simp add: Check_def Let_def split: prod.splits)

text \<open>C28: A run has its fourteen cases, each criterion exactly once and in the order of the
  phases, whatever the directory answers; the three counts add up to fourteen. In particular no
  check reads the first page when there is none.\<close>

theorem every_criterion_reported:
  "map case_key (rp_Cases (fst (Check d opt baseURL w))) = map criterion_key all_criteria
   \<and> (case Counts (fst (Check d opt baseURL w)) of (p, f, s) \<Rightarrow> p + f + s = 14)"
proof -
  obtain t w1 where now: "pd_Now d w = (t, w1)" by fastforce
  have "probe_contract d (default_page_size opt) (\<lambda>_ _. True)" by unfold_locales simp_all
  then have keys: "map case_key (rp_Cases (fst (Check d opt baseURL w))) = map criterion_key all_criteria"
    unfolding Check_runner [OF now] by (rule probe_contract.run_checks_complete(1))
  from arg_cong [OF this, of length] have "length (rp_Cases (fst (Check d opt baseURL w))) = 14"
    by (simp add: all_criteria_def)
  with keys Counts_total [of "fst (Check d opt baseURL w)"] show ?thesis
    by (auto split: prod.splits)
qed

text \<open>A directory that cannot be read, for whatever reason, is one failed case and thirteen
  skipped ones, after a single call.\<close>

lemma unreadable_directory_fails_once:
  assumes "pd_Now d w = (started, w1)"
    and "pd_Page d [] 1 (pb_PageSize (default_page_size opt)) w1 = (Inl err, w2)"
  shows "map cs_Status (rp_Cases (fst (Check d opt baseURL w))) = Fail # replicate 13 Skip
    \<and> exit_status (fst (Check d opt baseURL w)) = 1
    \<and> snd (Check d opt baseURL w) = snd (pd_Now d w2)"
proof -
  define r where "r = checkCredential d (default_page_size opt) (new_runner w1)"
  have r: "rn_blocked r \<noteq> []" "map cs_Status (rn_cases r) = [Fail]" "rn_world r = w2"
    using assms(2) by (auto simp: r_def checkCredential_def ask_def new_runner_def fail_case_def add_case_def)
  have run: "run_checks d (default_page_size opt) w1 = phaseTwo d (default_page_size opt)
      (phaseOne d (default_page_size opt) (new_runner w1))" by (simp add: run_checks_def)
  have st: "map cs_Status (rn_cases (run_checks d (default_page_size opt) w1)) = Fail # replicate 13 Skip"
    and world: "rn_world (run_checks d (default_page_size opt) w1) = w2"
    using r by (simp_all add: run phaseOne_def phaseTwo_def Let_def r_def [symmetric] numeral_eq_Suc)
  have "Fail \<in> set (map cs_Status (rn_cases (run_checks d (default_page_size opt) w1)))" unfolding st by simp
  then have "\<not> OK (fst (Check d opt baseURL w))"
    unfolding OK_iff Check_runner [OF assms(1)] by fastforce
  then show ?thesis
    using st world assms(1) by (simp add: Check_runner [OF assms(1)] exit_status_def) (simp add: Check_def Let_def split: prod.splits)
qed

definition down_dir :: "nat probe_dir" where
  "down_dir = \<lparr>pd_Page = (\<lambda>f i n w. (Inl (Plain ''connection refused''), Suc w)), pd_GetUser = (\<lambda>i w. (Inl (Plain ''down''), w)),
     pd_Patch = (\<lambda>i op w. (Inl (Plain ''down''), w)), pd_Config = (\<lambda>w. (Inl (Plain ''down''), w)), pd_Now = (\<lambda>w. (0, w))\<rparr>"

definition plain_options :: probe_options where
  "plain_options = \<lparr>pb_AliasDomain = [], pb_WriteID = [], pb_ProbeExternalID = [], pb_PageSize = 0\<rparr>"

lemma unreadable_directory_fails_once_witness:
  "map cs_Status (rp_Cases (fst (Check down_dir plain_options [] 0))) = Fail # replicate 13 Skip
   \<and> snd (Check down_dir plain_options [] 0) = 1"
  using unreadable_directory_fails_once [of down_dir 0 0 0 plain_options _ 1 "[]"]
  by (simp add: down_dir_def)

text \<open>Run against a directory through the client, without a record named for writing, the
  suite sends nothing but GET requests.\<close>

lemma suite_reads_only:
  assumes "pb_WriteID opt = []"
  shows "env_steps c is_get (env w) (env (snd (Check (client_probe c) opt baseURL w)))"
proof -
  obtain ws where "suite_trail (client_probe c) opt w ws (snd (Check (client_probe c) opt baseURL w))"
    using Check_trail by blast
  from trail_requests [OF this] trail_writes [OF this assms] show ?thesis
    by (auto simp: suite_request_def elim: env_steps_mono)
qed

definition quiet_client :: "nat client" where
  "quiet_client = \<lparr>cl_t = \<lparr>t_Do = (\<lambda>rq n. (Inl (Plain ''refused''), Suc n)), t_Err = (\<lambda>n. (None, n)),
       t_Timer = (\<lambda>d n. (True, n)), t_Now = (\<lambda>n. (0, n)), t_Rand = (\<lambda>b n. (0, n))\<rparr>,
     cl_base = ''https://directory.example/'', cl_token = ''secret'',
     cl_hc = (\<lambda>rq n. (Inl (Plain ''refused''), Suc n)), cl_maxRetries = 0, cl_userAgent = ''suite'', cl_interval = 0,
     cl_sleep = (\<lambda>d n. (None, n)), cl_backoff = (\<lambda>k n. (Inr 0, n))\<rparr>"

lemma suite_reads_only_witness:
  "env_steps quiet_client is_get 0 (env (snd (Check (client_probe quiet_client) plain_options [] \<lparr>lim_next = 0, env = 0\<rparr>)))"
  using suite_reads_only [of plain_options quiet_client "\<lparr>lim_next = 0, env = 0\<rparr>" "[]"]
  by (simp add: plain_options_def)

text \<open>C31: A run against a directory through the client is a sequence of reads, and of blocks of
  writes each of which follows, with no call between, a successful read of the record named for
  writing in this very run. They go to the id of the record that was read, with a value it has
  just been read with, or the probe value while it has none; no other request but these PATCH
  requests and GETs is sent.\<close>

theorem suite_writes_contained:
  "\<exists>ws. suite_trail (client_probe c) opt w ws (snd (Check (client_probe c) opt baseURL w))
    \<and> env_steps c (suite_request c ws) (env w) (env (snd (Check (client_probe c) opt baseURL w)))"
  using Check_trail [of c opt w baseURL] trail_requests by blast

text \<open>C29: A run without failures vouches for the first page: a list response whose total covers
  it and whose index is that asked for, of records with distinct ids that are not blank, each
  with its flag and its time stamp, and with aliases only when a domain was named.\<close>

theorem passing_run_vouches:
  assumes "pd_Now d w = (started, w1)" and "OK (fst (Check d opt baseURL w))"
  shows "\<exists>page us w2. pd_Page d [] 1 (pb_PageSize (default_page_size opt)) w1 = (Inr page, w2)
    \<and> Users page = Inr us \<and> page_conforms opt page us"
proof -
  have "probe_contract d (default_page_size opt) (\<lambda>_ _. True)" by unfold_locales simp_all
  moreover have "\<forall>c \<in> set (rn_cases (run_checks d (default_page_size opt) w1)). cs_Status c \<noteq> Fail"
    using assms(2) by (simp add: OK_iff Check_runner [OF assms(1)])
  moreover have "page_conforms (default_page_size opt) = page_conforms opt"
    by (simp add: page_conforms_def default_page_size_def alias_suffix_def fun_eq_iff)
  ultimately show ?thesis using probe_contract.run_checks_pass by metis
qed

definition good_record :: json where
  "good_record = JObj [(''id'', JStr ''d1''), (''userName'', JStr ''ana@separador.app''), (''active'', JBool True),
     (''meta'', JObj [(''lastModified'', JStr ''2026-01-02T03:04:05Z'')])]"

definition good_page :: "int \<Rightarrow> list_response" where
  "good_page n = \<lparr>lr_Schemas = [SchemaList], lr_TotalResults = n, lr_StartIndex = 1, lr_ItemsPerPage = n,
     lr_Resources = (if n = 0 then [] else [good_record])\<rparr>"

definition good_user :: user where
  "good_user = zero_user\<lparr>u_ID := ''d1'', u_UserName := ''ana@separador.app'', u_Active := Some True\<rparr>"

definition good_dir :: "unit probe_dir" where
  "good_dir = \<lparr>pd_Page = (\<lambda>f i n w. (Inr (good_page (if f = [] \<or> f = epoch_filter then 1 else 0)), w)),
     pd_GetUser = (\<lambda>i w. (if i = ''d1'' then Inr good_user else Inl (Scim (zero_scim_error\<lparr>se_HTTPStatus := 404\<rparr>)), w)),
     pd_Patch = (\<lambda>i op w. (Inl (Plain ''down''), w)),
     pd_Config = (\<lambda>w. (Inr \<lparr>pc_Schemas = [], pc_PatchSupported = True, pc_FilterSupported = True, pc_FilterMaxResults = 500\<rparr>, w)),
     pd_Now = (\<lambda>w. (63902919845000000000, w))\<rparr>"

definition alias_options :: probe_options where
  "alias_options = \<lparr>pb_AliasDomain = ''separador.app'', pb_WriteID = [], pb_ProbeExternalID = [], pb_PageSize = 0\<rparr>"

lemma passing_run_vouches_witness:
  "\<exists>page us. Users page = Inr us \<and> page_conforms alias_options page us \<and> page = good_page 1"
proof -
  have ok: "OK (fst (Check good_dir alias_options [] ()))" by code_simp
  have now: "pd_Now good_dir () = (63902919845000000000, ())" by (simp add: good_dir_def)
  from passing_run_vouches [OF now ok] show ?thesis by (auto simp: good_dir_def)
qed

section \<open>Names of subtests\<close>

lemma has_prefix_appendI: "has_prefix s p \<Longrightarrow> has_prefix (s @ t) p"
  by (metis append.assoc append_take_drop_id has_prefix_append has_prefix_def)

lemma contains_appendI: "contains s p \<Longrightarrow> contains (s @ t) p"
proof (induction s)
  case Nil
  then show ?case using contains_append [of "[]" "[]" t] by simp
next
  case (Cons c s)
  then show ?case using has_prefix_appendI [of "c # s" p t] by auto
qed

lemma contains_dropWhile: "contains (dropWhile P s) p \<Longrightarrow> contains s p"
  by (induction s) (auto split: if_splits)

lemma contains_trim:
  assumes "contains (trim_char c s) p"
  shows "contains s p"
proof -
  define t where "t = dropWhile ((=) c) s"
  have "t = rev (dropWhile ((=) c) (rev t)) @ rev (takeWhile ((=) c) (rev t))"
    by (metis rev_append rev_rev_ident takeWhile_dropWhile_id)
  with assms contains_appendI have "contains t p"
    unfolding trim_char_def t_def [symmetric] by metis
  then show ?thesis unfolding t_def by (rule contains_dropWhile)
qed

lemma collapse_single: "\<not> contains (collapse s) ''__''"
proof (induction s rule: collapse.induct)
  case (1 s)
  then show ?case by (subst collapse.simps) auto
qed

lemma set_replace_double: "set (replace_double s) \<subseteq> set s"
  by (induction s rule: replace_double.induct) auto

lemma set_collapse: "set (collapse s) \<subseteq> set s"
proof (induction s rule: collapse.induct)
  case (1 s)
  then show ?case using set_replace_double [of s] by (subst collapse.simps) auto
qed

lemma set_trim_char: "set (trim_char c s) \<subseteq> set s"
  by (auto simp: trim_char_def dest!: set_dropWhileD)

lemma trim_char_ends: "\<not> has_prefix (trim_char c s) [c] \<and> \<not> has_suffix (trim_char c s) [c]"
proof -
  define t where "t = dropWhile ((=) c) s"
  define x where "x = rev (dropWhile ((=) c) (rev t))"
  have x: "trim_char c s = x" by (simp add: trim_char_def x_def t_def)
  have "x = [] \<or> hd (rev x) \<noteq> c" unfolding x_def rev_rev_ident
    by (metis (full_types) hd_dropWhile rev_is_Nil_conv)
  then have suf: "x = [] \<or> last x \<noteq> c" by (metis hd_rev)
  have "t = [] \<or> hd t \<noteq> c" unfolding t_def by (metis (full_types) hd_dropWhile)
  moreover have "t = x @ rev (takeWhile ((=) c) (rev t))"
    unfolding x_def by (metis rev_append rev_rev_ident takeWhile_dropWhile_id)
  ultimately have pre: "x = [] \<or> hd x \<noteq> c" by (metis append_is_Nil_conv hd_append2)
  show ?thesis
  proof
    show "\<not> has_prefix (trim_char c s) [c]" unfolding x using pre by (cases x) (auto simp: has_prefix_def)
    show "\<not> has_suffix (trim_char c s) [c]"
      unfolding x using suf by (cases x rule: rev_cases) (auto simp: has_suffix_def)
  qed
qed

text \<open>The name of a subtest is made of lower-case letters, digits and single underscores, with
  none at either end.\<close>

lemma slug_is_clean:
  "set (slug s) \<subseteq> {CHR ''a'' .. CHR ''z''} \<union> {CHR ''0'' .. CHR ''9''} \<union> {CHR ''_''} \<and> \<not> contains (slug s) ''__''
   \<and> \<not> has_prefix (slug s) ''_'' \<and> \<not> has_suffix (slug s) ''_''"
proof -
  have "set (slug s) \<subseteq> set (map slug_char (to_lower s))"
    unfolding slug_def using set_trim_char set_collapse by fast
  moreover have "slug_char ch \<in> {CHR ''a'' .. CHR ''z''} \<union> {CHR ''0'' .. CHR ''9''} \<union> {CHR ''_''}" for ch
    by (auto simp: slug_char_def)
  ultimately have "set (slug s) \<subseteq> {CHR ''a'' .. CHR ''z''} \<union> {CHR ''0'' .. CHR ''9''} \<union> {CHR ''_''}"
    by (auto simp only: set_map)
  moreover have "\<not> contains (slug s) ''__''"
    unfolding slug_def using collapse_single contains_trim by blast
  ultimately show ?thesis using trim_char_ends unfolding slug_def by blast
qed

section \<open>The alias domain\<close>

lemma map_of_zip_range: "map_of (zip xs ys) c = Some d \<Longrightarrow> d \<in> set ys"
  by (meson map_of_SomeD set_zip_rightD)

lemma to_lower_char_idem: "to_lower_char (to_lower_char c) = to_lower_char c"
proof (cases "map_of (zip ''ABCDEFGHIJKLMNOPQRSTUVWXYZ'' ''abcdefghijklmnopqrstuvwxyz'') c")
  case None
  have "to_lower_char c = c" unfolding to_lower_char_def None by (rule option.case(1))
  then show ?thesis by simp
next
  case (Some ch)
  then have "ch \<in> set ''abcdefghijklmnopqrstuvwxyz''" by (rule map_of_zip_range)
  moreover have "\<forall>ch \<in> set ''abcdefghijklmnopqrstuvwxyz''. to_lower_char ch = ch" by code_simp
  ultimately have "to_lower_char ch = ch" by blast
  moreover have "to_lower_char c = ch" unfolding to_lower_char_def Some by (rule option.case(2))
  ultimately show ?thesis by simp
qed

lemma has_suffix_subset: "has_suffix s p \<Longrightarrow> set p \<subseteq> set s"
  unfolding has_suffix_def using set_drop_subset [of "length s - length p" s] by simp

text \<open>The names and addresses are compared in lower case, the domain as it was given: with a
  capital in the domain the alias check fails on every record, whatever its aliases.\<close>

lemma capital_domain_always_fails:
  assumes "rn_blocked r = []" and "rn_users r \<noteq> []" and "pb_AliasDomain opt \<noteq> []"
    and "ch \<in> set (alias_suffix opt)" and "to_lower_char ch \<noteq> ch"
  shows "last_status (checkAlias opt r) = Fail"
proof -
  have no: "\<not> has_suffix (to_lower x) (alias_suffix opt)" for x
  proof
    assume "has_suffix (to_lower x) (alias_suffix opt)"
    from has_suffix_subset [OF this] assms(4) have "ch \<in> to_lower_char ` set x"
      by (auto simp: to_lower_def)
    then obtain c where "ch = to_lower_char c" by blast
    with assms(5) to_lower_char_idem [of c] show False by simp
  qed
  obtain u us where "rn_users r = u # us" using assms(2) by (cases "rn_users r") auto
  then have "alias_complaint (alias_suffix opt) (rn_users r) \<noteq> None"
    by (simp add: no)
  then obtain msg where "alias_complaint (alias_suffix opt) (rn_users r) = Some msg" by blast
  with assms(1-3) show ?thesis
    by (simp add: checkAlias_def unless_blocked_def case_defs)
qed

lemma capital_domain_always_fails_witness:
  "last_status (checkAlias (alias_options\<lparr>pb_AliasDomain := ''Separador.app''\<rparr>) ((new_runner ())\<lparr>rn_users := [good_user]\<rparr>)) = Fail"
proof -
  have "CHR ''S'' \<in> set (alias_suffix (alias_options\<lparr>pb_AliasDomain := ''Separador.app''\<rparr>))"
    "to_lower_char (CHR ''S'') \<noteq> CHR ''S''" by code_simp+
  from capital_domain_always_fails [OF _ _ _ this, of "(new_runner ())\<lparr>rn_users := [good_user]\<rparr>"] show ?thesis
    by (simp add: new_runner_def alias_options_def)
qed

end
