(* ===== verification/Store_Suite.thy ===== *)
theory Store_Suite
  imports Memory_Store Go_Time
begin

text \<open>
  \<open>store/storetest/storetest.go\<close>: the contract test suite for implementations of
  \<open>store.Store\<close>. Each test is a function of the implementation and a fresh store that says
  whether the test fails (\<open>t.Failed()\<close>); the wording of its complaints is left out. A
  \<open>Fatal\<close> ends a test, an \<open>Error\<close> does not.

  The locale \<open>available_store\<close> adds to the contract what a test needs: that the store does
  what it is asked unless the contract says otherwise. Under it the whole suite passes.
\<close>

section \<open>The tests\<close>

definition fixture :: "string \<Rightarrow> new_helpper" where
  "fixture i = \<lparr>nh_DirectoryID = i, nh_Login = i @ ''@separador.app'', nh_DisplayName = ''Test '' @ i\<rparr>"

definition missingIsNotFound :: "'w store_ops \<Rightarrow> 'w \<Rightarrow> bool" where
  "missingIsNotFound s w =
     (case HelpperByDirectoryID s ''hlp_nobody'' w of
        (Inr _, _) \<Rightarrow> True
      | (Inl e, _) \<Rightarrow> \<not> err_is e ErrNotFound)"

definition createThenRead :: "'w store_ops \<Rightarrow> 'w \<Rightarrow> bool" where
  "createThenRead s w =
     (case CreateHelpper s (fixture ''hlp_a'') w of
        (Inl _, _) \<Rightarrow> True
      | (Inr created, w1) \<Rightarrow>
          if h_ID created = [] then True
          else
            (\<not> h_Enabled created) \<or>
            (case HelpperByDirectoryID s ''hlp_a'' w1 of
               (Inl _, _) \<Rightarrow> True
             | (Inr got, _) \<Rightarrow>
                 (h_ID got \<noteq> h_ID created \<or> h_DirectoryID got \<noteq> ''hlp_a'')
                 \<or> (h_Login got \<noteq> ''hlp_a@separador.app'' \<or> h_DisplayName got \<noteq> ''Test hlp_a'')))"

definition duplicateRejected :: "'w store_ops \<Rightarrow> 'w \<Rightarrow> bool" where
  "duplicateRejected s w =
     (case CreateHelpper s (fixture ''hlp_dup'') w of
        (Inl _, _) \<Rightarrow> True
      | (Inr _, w1) \<Rightarrow>
          (case CreateHelpper s (fixture ''hlp_dup'') w1 of
             (Inr _, _) \<Rightarrow> True
           | (Inl e, _) \<Rightarrow> \<not> err_is e ErrAlreadyExists))"

text \<open>
  The goroutines of \<open>concurrentCreate\<close>, in the order in which the store takes their calls:
  the ids of those that won, and whether an unknown error was met.
\<close>

fun race_creates :: "'w store_ops \<Rightarrow> nat \<Rightarrow> 'w \<Rightarrow> string list \<Rightarrow> bool \<Rightarrow> string list \<times> bool" where
  "race_creates s 0 w ids unknown = (ids, unknown)"
| "race_creates s (Suc n) w ids unknown =
     (case CreateHelpper s (fixture ''hlp_race'') w of
        (Inr p, w1) \<Rightarrow> race_creates s n w1 (ids @ [h_ID p]) unknown
      | (Inl e, w1) \<Rightarrow> race_creates s n w1 ids (unknown \<or> \<not> err_is e ErrAlreadyExists))"

definition concurrentCreate :: "'w store_ops \<Rightarrow> 'w \<Rightarrow> bool" where
  "concurrentCreate s w =
     (case race_creates s 8 w [] False of (ids, unknown) \<Rightarrow>
        unknown \<or> length ids \<noteq> 1 \<or> length (remdups ids) \<noteq> 1)"

definition updateApplies :: "'w store_ops \<Rightarrow> 'w \<Rightarrow> bool" where
  "updateApplies s w =
     (case CreateHelpper s (fixture ''hlp_upd'') w of
        (Inl _, _) \<Rightarrow> True
      | (Inr p, w1) \<Rightarrow>
          (case UpdateHelpper s (h_ID p)
              \<lparr>hu_Enabled = False, hu_DisplayName = ''Renamed R.'', hu_Login = ''new@separador.app''\<rparr> w1 of
             (Some _, _) \<Rightarrow> True
           | (None, w2) \<Rightarrow>
               (case HelpperByDirectoryID s ''hlp_upd'' w2 of
                  (Inl _, _) \<Rightarrow> True
                | (Inr got, _) \<Rightarrow>
                    h_Enabled got
                    \<or> (h_DisplayName got \<noteq> ''Renamed R.'' \<or> h_Login got \<noteq> ''new@separador.app'')
                    \<or> (h_ID got \<noteq> h_ID p \<or> h_DirectoryID got \<noteq> ''hlp_upd''))))"

definition updateMissing :: "'w store_ops \<Rightarrow> 'w \<Rightarrow> bool" where
  "updateMissing s w =
     (case UpdateHelpper s ''no-such-id'' \<lparr>hu_Enabled = True, hu_DisplayName = [], hu_Login = []\<rparr> w of
        (None, _) \<Rightarrow> True
      | (Some e, _) \<Rightarrow> \<not> err_is e ErrNotFound)"

definition enabledExcludesDisabled :: "'w store_ops \<Rightarrow> 'w \<Rightarrow> bool" where
  "enabledExcludesDisabled s w =
     (case CreateHelpper s (fixture ''hlp_on'') w of
        (Inl _, _) \<Rightarrow> True
      | (Inr on, w1) \<Rightarrow>
          (case CreateHelpper s (fixture ''hlp_off'') w1 of
             (Inl _, _) \<Rightarrow> True
           | (Inr off, w2) \<Rightarrow>
               (case UpdateHelpper s (h_ID off)
                   \<lparr>hu_Enabled = False, hu_DisplayName = ''Test hlp_off'', hu_Login = ''hlp_off@separador.app''\<rparr> w2 of
                  (Some _, _) \<Rightarrow> True
                | (None, w3) \<Rightarrow>
                    (case EnabledHelppers s w3 of
                       (Inl _, _) \<Rightarrow> True
                     | (Inr [p], _) \<Rightarrow> h_ID p \<noteq> h_ID on
                     | (Inr _, _) \<Rightarrow> True))))"

text \<open>27 August 2026, 20:15:32 UTC.\<close>

definition test_instant :: time where
  "test_instant = (86400 * day_of_civil 2026 8 27 + (20 * 60 + 15) * 60 + 32) * second"

definition checkpointRoundTrips :: "'w store_ops \<Rightarrow> 'w \<Rightarrow> bool" where
  "checkpointRoundTrips s w =
     (case SetCheckpoint s test_instant w of
        (Some _, _) \<Rightarrow> True
      | (None, w1) \<Rightarrow>
          (case Checkpoint s w1 of
             (Inl _, _) \<Rightarrow> True
           | (Inr got, _) \<Rightarrow> got \<noteq> test_instant))"

definition checkpointStartsZero :: "'w store_ops \<Rightarrow> 'w \<Rightarrow> bool" where
  "checkpointStartsZero s w =
     (case Checkpoint s w of
        (Inl _, _) \<Rightarrow> True
      | (Inr cp, _) \<Rightarrow> \<not> is_zero cp)"

text \<open>\<open>Run\<close>: the names of the tests that fail; each gets a store of its own.\<close>

definition failed_tests :: "'w store_ops \<Rightarrow> 'w \<Rightarrow> string list" where
  "failed_tests s w =
     map fst (filter (\<lambda>(name, test). test s w)
       [(''MissingHelpperIsNotFound'', missingIsNotFound),
        (''CreateThenRead'', createThenRead),
        (''DuplicateDirectoryIDIsRejected'', duplicateRejected),
        (''ConcurrentCreateYieldsExactlyOne'', concurrentCreate),
        (''UpdateAppliesEveryField'', updateApplies),
        (''UpdateOfMissingHelpperIsNotFound'', updateMissing),
        (''EnabledHelppersExcludesDisabled'', enabledExcludesDisabled),
        (''CheckpointRoundTrips'', checkpointRoundTrips),
        (''CheckpointStartsZero'', checkpointStartsZero)])"

section \<open>A store that is available\<close>

locale available_store = store_contract st ok accounts saved rnd
  for st :: "'w store_ops" and ok accounts saved rnd +
  assumes lookup_answers: "ok w \<Longrightarrow> HelpperByDirectoryID st d w = (Inl e, w') \<Longrightarrow> accounts w d = None \<and> err_is e ErrNotFound"
    and create_answers: "ok w \<Longrightarrow> CreateHelpper st nh w = (Inl e, w') \<Longrightarrow>
      accounts w (nh_DirectoryID nh) \<noteq> None \<and> err_is e ErrAlreadyExists"
    and update_answers: "ok w \<Longrightarrow> accounts w d = Some h \<Longrightarrow> UpdateHelpper st (h_ID h) upd w = (oe, w') \<Longrightarrow> oe = None"
    and update_unknown: "ok w \<Longrightarrow> (\<And>d h. accounts w d = Some h \<Longrightarrow> h_ID h \<noteq> i) \<Longrightarrow>
      \<exists>e w'. UpdateHelpper st i upd w = (Some e, w') \<and> err_is e ErrNotFound"
    and enabled_answers: "ok w \<Longrightarrow> \<exists>hs w'. EnabledHelppers st w = (Inr hs, w')"
    and checkpoint_answers: "ok w \<Longrightarrow> \<exists>t w'. Checkpoint st w = (Inr t, w')"
    and set_answers: "ok w \<Longrightarrow> \<exists>w'. SetCheckpoint st t w = (None, w')"

definition fresh_store :: "('w \<Rightarrow> string \<Rightarrow> helpper option) \<Rightarrow> ('w \<Rightarrow> time) \<Rightarrow> 'w \<Rightarrow> bool" where
  "fresh_store accounts saved w \<longleftrightarrow> accounts w = (\<lambda>_. None) \<and> saved w = zero_time"

context available_store begin

lemma created:
  assumes "ok w" and "accounts w (nh_DirectoryID nh) = None"
  obtains h w' where "CreateHelpper st nh w = (Inr h, w')" "ok w'"
    "accounts w' = (accounts w)(nh_DirectoryID nh \<mapsto> h)" "h_ID h \<noteq> []" "h_DirectoryID h = nh_DirectoryID nh"
    "h_Login h = nh_Login nh" "h_DisplayName h = nh_DisplayName nh" "h_Enabled h"
proof -
  obtain r w' where r: "CreateHelpper st nh w = (r, w')" by fastforce
  have "\<not> (\<exists>e. r = Inl e)" using create_answers [OF assms(1)] assms(2) r by blast
  then obtain h where "r = Inr h" by (cases r) auto
  note r = r [unfolded this]
  note w' = create_frame [OF assms(1) r] and new = create_fresh [OF assms(1) r]
  then have "accounts w' (nh_DirectoryID nh) = Some h" by simp
  with account_key [of w'] w' have "h_ID h \<noteq> []" "h_DirectoryID h = nh_DirectoryID nh" by auto
  with that r w' new show ?thesis by blast
qed

lemma taken:
  assumes "ok w" and "accounts w (nh_DirectoryID nh) \<noteq> None"
  obtains e w' where "CreateHelpper st nh w = (Inl e, w')" "err_is e ErrAlreadyExists" "ok w'" "accounts w' = accounts w"
proof -
  obtain r w' where r: "CreateHelpper st nh w = (r, w')" by fastforce
  have "\<not> (\<exists>h. r = Inr h)" using create_fresh [OF assms(1), of nh] assms(2) r by auto
  then obtain e where "r = Inl e" by (cases r) auto
  note r = r [unfolded this]
  with that create_answers [OF assms(1) r] create_frame [OF assms(1) r] create_failed [OF assms(1) r]
  show ?thesis by blast
qed

lemma created_fixture:
  assumes "ok w" and "accounts w i = None"
  obtains h w' where "CreateHelpper st (fixture i) w = (Inr h, w')" "ok w'"
    "accounts w' = (accounts w)(i \<mapsto> h)" "h_ID h \<noteq> []" "h_DirectoryID h = i"
    "h_Login h = i @ ''@separador.app''" "h_DisplayName h = ''Test '' @ i" "h_Enabled h"
proof -
  have f: "nh_DirectoryID (fixture i) = i" "nh_Login (fixture i) = i @ ''@separador.app''"
    "nh_DisplayName (fixture i) = ''Test '' @ i"
    by (simp_all add: fixture_def)
  from assms f have "accounts w (nh_DirectoryID (fixture i)) = None" by simp
  from created [OF assms(1) this] that show ?thesis unfolding f by blast
qed

lemma found:
  assumes "ok w" and "accounts w d = Some h"
  obtains w' where "HelpperByDirectoryID st d w = (Inr h, w')" "ok w'" "accounts w' = accounts w"
proof -
  obtain r w' where r: "HelpperByDirectoryID st d w = (r, w')" by fastforce
  with lookup_answers [OF assms(1)] assms(2) obtain h' where "r = Inr h'" by (cases r) auto
  note r = r [unfolded this]
  with lookup_found [OF assms(1) r] lookup_frame [OF assms(1) r] assms(2) that show ?thesis by auto
qed

lemma updated:
  assumes "ok w" and "accounts w d = Some h"
  obtains t w' where "UpdateHelpper st (h_ID h) upd w = (None, w')" "ok w'"
    "accounts w' = (accounts w)(d \<mapsto> apply_update upd t h)"
proof -
  obtain oe w' where r: "UpdateHelpper st (h_ID h) upd w = (oe, w')" by fastforce
  note r = r [unfolded update_answers [OF assms r]]
  with update_frame [OF assms(1) r] update_done [OF assms r] that show ?thesis by blast
qed

lemma missing_passes: "ok w \<Longrightarrow> fresh_store accounts saved w \<Longrightarrow> \<not> missingIsNotFound st w"
  by (auto simp: missingIsNotFound_def fresh_store_def split: prod.splits sum.splits
      dest: lookup_answers lookup_found)

lemma create_passes:
  assumes "ok w" and "fresh_store accounts saved w"
  shows "\<not> createThenRead st w"
proof -
  have "accounts w ''hlp_a'' = None" using assms(2) by (simp add: fresh_store_def)
  from created_fixture [OF assms(1) this] obtain h w1 where h: "CreateHelpper st (fixture ''hlp_a'') w = (Inr h, w1)" "ok w1"
    "accounts w1 = (accounts w)(''hlp_a'' \<mapsto> h)" "h_ID h \<noteq> []" "h_DirectoryID h = ''hlp_a''"
    "h_Login h = ''hlp_a'' @ ''@separador.app''" "h_DisplayName h = ''Test '' @ ''hlp_a''" "h_Enabled h" .
  from h(3) have "accounts w1 ''hlp_a'' = Some h" by simp
  from found [OF h(2) this] obtain w2 where "HelpperByDirectoryID st ''hlp_a'' w1 = (Inr h, w2)" .
  with h show ?thesis by (simp add: createThenRead_def)
qed

lemma duplicate_passes:
  assumes "ok w" and "fresh_store accounts saved w"
  shows "\<not> duplicateRejected st w"
proof -
  have "accounts w ''hlp_dup'' = None" using assms(2) by (simp add: fresh_store_def)
  from created_fixture [OF assms(1) this] obtain h w1 where h: "CreateHelpper st (fixture ''hlp_dup'') w = (Inr h, w1)" "ok w1"
    "accounts w1 = (accounts w)(''hlp_dup'' \<mapsto> h)" .
  from h(3) have "accounts w1 (nh_DirectoryID (fixture ''hlp_dup'')) \<noteq> None" by (simp add: fixture_def)
  from taken [OF h(2) this] obtain e w2 where "CreateHelpper st (fixture ''hlp_dup'') w1 = (Inl e, w2)"
    "err_is e ErrAlreadyExists" .
  with h(1) show ?thesis by (simp add: duplicateRejected_def)
qed

lemma race_lost:
  assumes "ok w" and "accounts w ''hlp_race'' \<noteq> None"
  shows "race_creates st n w ids unknown = (ids, unknown)"
  using assms
proof (induction n arbitrary: w)
  case (Suc n)
  from Suc.prems(2) have "accounts w (nh_DirectoryID (fixture ''hlp_race'')) \<noteq> None" by (simp add: fixture_def)
  from taken [OF Suc.prems(1) this] obtain e w1 where t: "CreateHelpper st (fixture ''hlp_race'') w = (Inl e, w1)"
    "err_is e ErrAlreadyExists" "ok w1" "accounts w1 = accounts w" .
  have "race_creates st n w1 ids unknown = (ids, unknown)"
    by (rule Suc.IH [OF t(3)]) (simp only: t(4) Suc.prems(2) not_False_eq_True)
  with t(1,2) show ?case by simp
qed simp

lemma race_passes:
  assumes "ok w" and "fresh_store accounts saved w"
  shows "\<not> concurrentCreate st w"
proof -
  have "accounts w ''hlp_race'' = None" using assms(2) by (simp add: fresh_store_def)
  from created_fixture [OF assms(1) this] obtain h w1 where h: "CreateHelpper st (fixture ''hlp_race'') w = (Inr h, w1)" "ok w1"
    "accounts w1 = (accounts w)(''hlp_race'' \<mapsto> h)" .
  from h(3) have "race_creates st 7 w1 [h_ID h] False = ([h_ID h], False)" by (intro race_lost [OF h(2)]) simp
  then have "race_creates st (Suc 7) w [] False = ([h_ID h], False)" by (simp only: race_creates.simps h(1)) simp
  moreover have "Suc 7 = (8 :: nat)" by simp
  ultimately show ?thesis by (simp only: concurrentCreate_def) simp
qed

lemma update_passes:
  assumes "ok w" and "fresh_store accounts saved w"
  shows "\<not> updateApplies st w"
proof -
  have "accounts w ''hlp_upd'' = None" using assms(2) by (simp add: fresh_store_def)
  from created_fixture [OF assms(1) this] obtain h w1 where h: "CreateHelpper st (fixture ''hlp_upd'') w = (Inr h, w1)" "ok w1"
    "accounts w1 = (accounts w)(''hlp_upd'' \<mapsto> h)" "h_DirectoryID h = ''hlp_upd''" .
  from h(3) have key: "accounts w1 ''hlp_upd'' = Some h" by simp
  let ?upd = "\<lparr>hu_Enabled = False, hu_DisplayName = ''Renamed R.'', hu_Login = ''new@separador.app''\<rparr>"
  from updated [OF h(2) key] obtain t w2 where u: "UpdateHelpper st (h_ID h) ?upd w1 = (None, w2)" "ok w2"
    "accounts w2 ''hlp_upd'' = Some (apply_update ?upd t h)" by (metis fun_upd_same)
  from found [OF u(2,3)] obtain w3 where "HelpperByDirectoryID st ''hlp_upd'' w2 = (Inr (apply_update ?upd t h), w3)" .
  with h u show ?thesis by (simp add: updateApplies_def)
qed

lemma update_missing_passes:
  assumes "ok w" and "fresh_store accounts saved w"
  shows "\<not> updateMissing st w"
proof -
  have "\<exists>e w'. UpdateHelpper st ''no-such-id'' \<lparr>hu_Enabled = True, hu_DisplayName = [], hu_Login = []\<rparr> w = (Some e, w')
      \<and> err_is e ErrNotFound"
    by (rule update_unknown [OF assms(1)]) (use assms(2) in \<open>simp add: fresh_store_def\<close>)
  then show ?thesis by (auto simp: updateMissing_def)
qed

lemma enabled_passes:
  assumes "ok w" and "fresh_store accounts saved w"
  shows "\<not> enabledExcludesDisabled st w"
proof -
  have none: "accounts w = (\<lambda>_. None)" using assms(2) by (simp add: fresh_store_def)
  have "accounts w ''hlp_on'' = None" by (simp add: none)
  from created_fixture [OF assms(1) this] obtain on w1 where on: "CreateHelpper st (fixture ''hlp_on'') w = (Inr on, w1)" "ok w1"
    "accounts w1 = (accounts w)(''hlp_on'' \<mapsto> on)" "h_Enabled on" .
  have "accounts w1 ''hlp_off'' = None" by (simp add: on(3) none)
  from created_fixture [OF on(2) this] obtain off w2 where off: "CreateHelpper st (fixture ''hlp_off'') w1 = (Inr off, w2)" "ok w2"
    "accounts w2 = (accounts w1)(''hlp_off'' \<mapsto> off)" .
  let ?upd = "\<lparr>hu_Enabled = False, hu_DisplayName = ''Test hlp_off'', hu_Login = ''hlp_off@separador.app''\<rparr>"
  have "accounts w2 ''hlp_off'' = Some off" by (simp add: off(3))
  from updated [OF off(2) this] obtain t w3 where u: "UpdateHelpper st (h_ID off) ?upd w2 = (None, w3)" "ok w3"
    "accounts w3 = (accounts w2)(''hlp_off'' \<mapsto> apply_update ?upd t off)" .
  obtain hs w4 where hs: "EnabledHelppers st w3 = (Inr hs, w4)" using enabled_answers [OF u(2)] by blast
  note list = enabled_list [OF u(2) hs]
  have "set hs = {on}" using list on(4) by (auto simp: u(3) off(3) on(3) none split: if_splits)
  moreover have "distinct hs" using list by (simp add: distinct_map)
  ultimately have "hs = [on]" by (cases hs; cases "tl hs") auto
  with on(1) off(1) u(1) hs show ?thesis by (simp add: enabledExcludesDisabled_def)
qed

lemma checkpoint_passes:
  assumes "ok w" and "rnd test_instant = test_instant"
  shows "\<not> checkpointRoundTrips st w"
proof -
  obtain w1 where s: "SetCheckpoint st test_instant w = (None, w1)" using set_answers [OF assms(1)] by blast
  then have "ok w1" "saved w1 = test_instant"
    using set_frame [OF assms(1) s] set_done [OF assms(1) s] assms(2) by simp_all
  moreover obtain t w2 where "Checkpoint st w1 = (Inr t, w2)" using checkpoint_answers [OF \<open>ok w1\<close>] by blast
  ultimately show ?thesis using checkpoint_read [OF \<open>ok w1\<close>] s by (auto simp: checkpointRoundTrips_def)
qed

lemma starts_zero_passes:
  assumes "ok w" and "fresh_store accounts saved w"
  shows "\<not> checkpointStartsZero st w"
proof -
  obtain t w2 where c: "Checkpoint st w = (Inr t, w2)" using checkpoint_answers [OF assms(1)] by blast
  with checkpoint_read [OF assms(1) c] assms(2) show ?thesis
    by (auto simp: checkpointStartsZero_def fresh_store_def is_zero_def)
qed

lemma suite_passes:
  assumes "ok w" and "fresh_store accounts saved w" and "rnd test_instant = test_instant"
  shows "failed_tests st w = []"
  using missing_passes create_passes duplicate_passes race_passes update_passes update_missing_passes
    enabled_passes checkpoint_passes starts_zero_passes assms
  by (simp add: failed_tests_def)

end

section \<open>The memory store\<close>

lemma mem_account_pointer:
  assumes "mem_ok s" and "mem_accounts s d = Some h"
  shows "ms_byID s (h_ID h) \<noteq> None"
  using assms mem_ok_entry(3) by (auto simp: mem_accounts_def)

lemma mem_unknown_id:
  assumes "mem_ok s" and "\<And>d h. mem_accounts s d = Some h \<Longrightarrow> h_ID h \<noteq> i"
  shows "ms_byID s i = None"
proof (rule ccontr)
  assume "ms_byID s i \<noteq> None"
  then obtain p where p: "ms_byID s i = Some p" by blast
  from mem_ok_byID [OF assms(1) p] assms(2) show False by (auto simp: mem_accounts_def)
qed

interpretation mem_suite: available_store mem_ops mem_ok mem_accounts ms_checkpoint "\<lambda>t. t"
proof (unfold_locales, unfold mem_ops_simps, goal_cases)
  case (3 w d h upd oe w')
  with mem_account_pointer [OF 3(1,2)] show ?case by (auto simp: mem_UpdateHelpper_def)
next
  case (4 w i upd)
  with mem_unknown_id [of w i] show ?case by (simp add: mem_UpdateHelpper_def)
qed (auto simp: mem_defs mem_accounts_def Let_def split: option.splits)

lemma mem_New_fresh: "mem_ok (mem_New now)" "fresh_store mem_accounts ms_checkpoint (mem_New now)"
  by (rule mem_ok_New) (simp add: fresh_store_def mem_accounts_def mem_New_def fun_eq_iff)

section \<open>The suite accepts every store that keeps the contract\<close>

text \<open>C35: Every implementation of the store that keeps the contract and answers every
  call passes the whole contract suite on a fresh store.\<close>

theorem available_store_passes_suite:
  assumes "available_store st ok accounts saved rnd"
    and "ok w" and "fresh_store accounts saved w" and "rnd test_instant = test_instant"
  shows "failed_tests st w = []"
  by (rule available_store.suite_passes [OF assms])

theorem available_store_passes_suite_witness: "failed_tests mem_ops (mem_New int) = []"
  by (rule available_store_passes_suite [OF mem_suite.available_store_axioms mem_New_fresh refl])

end
