(* ===== verification/Create_Race.thy ===== *)
theory Create_Race
  imports Reconciler Store_Suite
begin

text \<open>
  \<open>directory/directory.go\<close> under several workers: the way one active record takes through
  \<open>apply\<close> and \<open>ensureHelpper\<close> up to the moment its account is known, cut at every call of the
  store, so that the calls of many workers for the same identity may interleave. Each move is
  the code between two calls; the store takes the calls one at a time.
\<close>

section \<open>One worker\<close>

text \<open>
  Before the lookup, before the create, before the re-read, and the two ways to end;
  \<open>Got won p\<close> remembers whether this worker's create made the account.
\<close>

datatype race_pc = Looking | Creating | Rereading | Got bool helpper | Gave goerror

definition new_from :: "user \<Rightarrow> new_helpper" where
  "new_from u = \<lparr>nh_DirectoryID = u_ID u, nh_Login = PrimaryEmail u, nh_DisplayName = u_DisplayName u\<rparr>"

definition race_move :: "'w store_ops \<Rightarrow> user \<Rightarrow> race_pc \<Rightarrow> 'w \<Rightarrow> race_pc \<times> 'w" where
  "race_move s u pc w =
     (case pc of
        Looking \<Rightarrow>
          (case HelpperByDirectoryID s (u_ID u) w of
             (Inl e, w') \<Rightarrow>
               (if err_is e ErrNotFound then Creating else Gave (Wrapped (''lookup '' @ u_ID u) e), w')
           | (Inr p, w') \<Rightarrow> (Got False p, w'))
      | Creating \<Rightarrow>
          (case CreateHelpper s (new_from u) w of
             (Inl e, w') \<Rightarrow>
               (if err_is e ErrAlreadyExists then Rereading
                else Gave (Wrapped (''create helpper for '' @ u_ID u) e), w')
           | (Inr p, w') \<Rightarrow> (Got True p, w'))
      | Rereading \<Rightarrow>
          (case HelpperByDirectoryID s (u_ID u) w of
             (Inl e, w') \<Rightarrow>
               (Gave (Wrapped (''re-read '' @ u_ID u @ '' after create conflict'') e), w')
           | (Inr p, w') \<Rightarrow> (Got False p, w'))
      | Got won p \<Rightarrow> (Got won p, w)
      | Gave e \<Rightarrow> (Gave e, w))"

fun race_moves :: "'w store_ops \<Rightarrow> user \<Rightarrow> nat \<Rightarrow> race_pc \<Rightarrow> 'w \<Rightarrow> race_pc \<times> 'w" where
  "race_moves s u 0 pc w = (pc, w)"
| "race_moves s u (Suc n) pc w = (case race_move s u pc w of (pc', w') \<Rightarrow> race_moves s u n pc' w')"

lemma race_move_settled [simp]:
  "race_move s u (Got won p) w = (Got won p, w)" "race_move s u (Gave e) w = (Gave e, w)"
  by (simp_all add: race_move_def)

text \<open>What \<open>ensureHelpper\<close> hands back to \<open>apply\<close> and counts once the worker has settled.\<close>

fun race_outcome :: "race_pc \<Rightarrow> helpper result" where
  "race_outcome (Got won p) = Inr p"
| "race_outcome (Gave e) = Inl e"
| "race_outcome _ = Inl (Plain ''not settled'')"

definition won_race :: "race_pc \<Rightarrow> bool" where
  "won_race pc = (case pc of Got won p \<Rightarrow> won | _ \<Rightarrow> False)"

text \<open>\<open>ensureHelpper\<close> is two moves from the create on, with no other worker in between.\<close>

lemma ensureHelpper_moves:
  assumes "\<not> dryRun s"
  shows "ensureHelpper s u r =
    (case race_moves (st s) u 2 Creating (r_world r) of
       (pc, w) \<Rightarrow> (race_outcome pc, if won_race pc then Reconciler.count (Created_update Suc) (at_world w r) else at_world w r))"
proof -
  obtain q w where q: "CreateHelpper (st s) (new_from u) (r_world r) = (q, w)" by fastforce
  obtain q' w' where q': "HelpperByDirectoryID (st s) (u_ID u) w = (q', w')" by fastforce
  have two: "race_moves (st s) u 2 Creating (r_world r) =
      (case race_move (st s) u Creating (r_world r) of (pc, v) \<Rightarrow> race_move (st s) u pc v)"
    by (simp add: numeral_2_eq_2 split: prod.splits)
  show ?thesis unfolding two ensureHelpper_def new_from_def [symmetric]
    using assms by (cases q; cases q') (simp_all add: race_move_def won_race_def q q')
qed

section \<open>Many workers\<close>

text \<open>
  Every worker has the record of the identity as it was served to it. Beside the moves, a
  worker that knows the account may bring its state in line (\<open>syncState\<close>), and accounts of
  other identities come into being.
\<close>

record 'w race =
  rc_pc :: "nat \<Rightarrow> race_pc"
  rc_world :: 'w

definition race_start :: "'w \<Rightarrow> 'w race" where
  "race_start w = \<lparr>rc_pc = (\<lambda>_. Looking), rc_world = w\<rparr>"

definition race_turn :: "'w store_ops \<Rightarrow> (nat \<Rightarrow> user) \<Rightarrow> nat \<Rightarrow> 'w race \<Rightarrow> 'w race" where
  "race_turn s us i c =
     (case race_move s (us i) (rc_pc c i) (rc_world c) of
        (pc, w) \<Rightarrow> \<lparr>rc_pc = (rc_pc c)(i := pc), rc_world = w\<rparr>)"

definition race_run :: "'w store_ops \<Rightarrow> (nat \<Rightarrow> user) \<Rightarrow> nat list \<Rightarrow> 'w race \<Rightarrow> 'w race" where
  "race_run s us schedule c = fold (race_turn s us) schedule c"

inductive race_step :: "'w store_ops \<Rightarrow> (nat \<Rightarrow> user) \<Rightarrow> string \<Rightarrow> 'w race \<Rightarrow> 'w race \<Rightarrow> bool"
  for s us d where
  turn: "race_step s us d c (race_turn s us i c)"
| sync: "rc_pc c i = Got won p \<Longrightarrow> UpdateHelpper s (h_ID p) upd (rc_world c) = (oe, w) \<Longrightarrow>
    race_step s us d c (c\<lparr>rc_world := w\<rparr>)"
| other: "nh_DirectoryID nh \<noteq> d \<Longrightarrow> CreateHelpper s nh (rc_world c) = (r, w) \<Longrightarrow>
    race_step s us d c (c\<lparr>rc_world := w\<rparr>)"

inductive_cases race_step_elim: "race_step s us d c c'"

definition race_reaches :: "'w store_ops \<Rightarrow> (nat \<Rightarrow> user) \<Rightarrow> string \<Rightarrow> 'w race \<Rightarrow> 'w race \<Rightarrow> bool" where
  "race_reaches s us d = (race_step s us d)\<^sup>*\<^sup>*"

lemma race_run_reaches: "race_reaches s us d c (race_run s us schedule c)"
  unfolding race_reaches_def race_run_def
  by (induction schedule arbitrary: c) (auto intro: converse_rtranclp_into_rtranclp race_step.turn)

lemma race_turn_other: "j \<noteq> i \<Longrightarrow> rc_pc (race_turn s us i c) j = rc_pc c j"
  by (simp add: race_turn_def split: prod.splits)

lemma race_turn_self:
  "race_move s (us i) (rc_pc c i) (rc_world c) = (pc, w) \<Longrightarrow>
    race_turn s us i c = \<lparr>rc_pc = (rc_pc c)(i := pc), rc_world = w\<rparr>"
  by (simp add: race_turn_def)

section \<open>One account\<close>

context store_contract begin

text \<open>
  Until someone's create succeeds there is no account; afterwards there is one, of a single
  winner, and whoever got an account got that one.
\<close>

definition account_id :: "string \<Rightarrow> 'w \<Rightarrow> string option" where
  "account_id d w = map_option h_ID (accounts w d)"

definition race_inv :: "string \<Rightarrow> 'w race \<Rightarrow> bool" where
  "race_inv d c \<longleftrightarrow> ok (rc_world c)
     \<and> (\<forall>i won p. rc_pc c i = Got won p \<longrightarrow> account_id d (rc_world c) = Some (h_ID p))
     \<and> (\<forall>i. rc_pc c i = Rereading \<longrightarrow> account_id d (rc_world c) \<noteq> None)
     \<and> (\<forall>i j. won_race (rc_pc c i) \<longrightarrow> won_race (rc_pc c j) \<longrightarrow> i = j)
     \<and> (account_id d (rc_world c) \<noteq> None \<longrightarrow> (\<exists>i. won_race (rc_pc c i)))"

lemma race_inv_D:
  assumes "race_inv d c"
  shows "ok (rc_world c)"
    and "rc_pc c i = Got won p \<Longrightarrow> account_id d (rc_world c) = Some (h_ID p)"
    and "rc_pc c i = Rereading \<Longrightarrow> account_id d (rc_world c) \<noteq> None"
    and "won_race (rc_pc c i) \<Longrightarrow> won_race (rc_pc c j) \<Longrightarrow> i = j"
    and "account_id d (rc_world c) \<noteq> None \<Longrightarrow> \<exists>i. won_race (rc_pc c i)"
  using assms unfolding race_inv_def by blast+

lemma race_inv_world:
  assumes "race_inv d c" and "ok w" and "account_id d w = account_id d (rc_world c)"
  shows "race_inv d (c\<lparr>rc_world := w\<rparr>)"
  using assms by (simp add: race_inv_def)

lemma race_inv_start: "ok w \<Longrightarrow> accounts w d = None \<Longrightarrow> race_inv d (race_start w)"
  by (simp add: race_inv_def race_start_def won_race_def account_id_def)

lemma race_move_ok:
  assumes "ok w" and "race_move st u pc w = (pc', w')"
  shows "ok w'"
  using assms by (cases pc) (auto simp: race_move_def split: prod.splits sum.splits dest: lookup_frame create_frame)

lemma race_move_cases:
  assumes "race_move st u pc w = (pc', w')" and "ok w"
  obtains (won) p where "pc = Creating" "pc' = Got True p" "accounts w (u_ID u) = None"
      "accounts w' = (accounts w)(u_ID u \<mapsto> p)"
  | (found) p where "pc \<in> {Looking, Rereading}" "pc' = Got False p" "accounts w (u_ID u) = Some p" "accounts w' = accounts w"
  | (lost) "pc = Creating" "pc' = Rereading" "accounts w (u_ID u) \<noteq> None" "accounts w' = accounts w"
  | (missing) "pc = Looking" "pc' = Creating" "accounts w (u_ID u) = None" "accounts w' = accounts w"
  | (gave) e where "pc \<in> {Looking, Creating, Rereading}" "pc' = Gave e" "accounts w' = accounts w"
  | (settled) "pc' = pc" "w' = w" "pc \<notin> {Looking, Creating, Rereading}"
proof (cases pc)
  case Looking
  obtain r w1 where r: "HelpperByDirectoryID st (u_ID u) w = (r, w1)" by fastforce
  with Looking assms lookup_frame [OF assms(2) r] lookup_found [OF assms(2)] lookup_missing [OF assms(2)] that(2,4,5)
  show ?thesis by (cases r) (auto simp: race_move_def split: if_splits)
next
  case Creating
  obtain r w1 where r: "CreateHelpper st (new_from u) w = (r, w1)" by fastforce
  have key: "nh_DirectoryID (new_from u) = u_ID u" by (simp add: new_from_def)
  show ?thesis
  proof (cases r)
    case (Inl e)
    note r = r [unfolded Inl]
    from create_failed [OF assms(2) r] create_exists [OF assms(2) r] Creating assms(1) r that(3,5) key show ?thesis
      by (auto simp: race_move_def split: if_splits)
  next
    case (Inr p)
    note r = r [unfolded Inr]
    from Creating assms(1) r have "pc' = Got True p" "w1 = w'" by (auto simp: race_move_def)
    with create_fresh [OF assms(2) r] that(1) [OF Creating] key show ?thesis by auto
  qed
next
  case Rereading
  obtain r w1 where r: "HelpperByDirectoryID st (u_ID u) w = (r, w1)" by fastforce
  with Rereading assms lookup_frame [OF assms(2) r] lookup_found [OF assms(2)] that(2,5)
  show ?thesis by (cases r) (auto simp: race_move_def split: if_splits)
qed (use assms that(6) in auto)

text \<open>A worker that does not make the account, and has not, keeps the invariant by what it read.\<close>

lemma race_inv_read:
  assumes "race_inv d c" and "ok w" and "accounts w = accounts (rc_world c)"
    and "\<not> won_race (rc_pc c i)" and "\<not> won_race pc"
    and "\<And>won p. pc = Got won p \<Longrightarrow> accounts w d = Some p" and "pc = Rereading \<Longrightarrow> accounts w d \<noteq> None"
  shows "race_inv d \<lparr>rc_pc = (rc_pc c)(i := pc), rc_world = w\<rparr>"
proof -
  have won: "won_race (((rc_pc c)(i := pc)) k) = won_race (rc_pc c k)" for k
    using assms(4,5) by simp
  from assms have "account_id d w = account_id d (rc_world c)" "\<And>won p. pc = Got won p \<Longrightarrow> account_id d w = Some (h_ID p)"
    "pc = Rereading \<Longrightarrow> account_id d w \<noteq> None"
    by (simp_all add: account_id_def)
  with assms(1,2) show ?thesis
    unfolding race_inv_def race.simps won by (intro conjI allI impI) (auto split: if_splits)
qed

lemma race_inv_turn:
  assumes "race_inv d c" and "u_ID (us i) = d"
  shows "race_inv d (race_turn st us i c)"
proof -
  obtain pc w where m: "race_move st (us i) (rc_pc c i) (rc_world c) = (pc, w)" by fastforce
  have "ok (rc_world c)" using assms(1) by (simp add: race_inv_def)
  note ok = race_move_ok [OF this m] and move = m this
  have t: "race_turn st us i c = \<lparr>rc_pc = (rc_pc c)(i := pc), rc_world = w\<rparr>"
    using m by (simp add: race_turn_def)
  note read = race_inv_read [OF assms(1) ok, of i pc]
  from move show ?thesis
  proof (cases rule: race_move_cases)
    case (won p)
    with assms have "\<forall>j won q. rc_pc c j \<noteq> Got won q" "\<forall>j. rc_pc c j \<noteq> Rereading"
      by (auto simp: account_id_def dest: race_inv_D(2,3))
    with won assms(2) ok show ?thesis by (auto simp: t race_inv_def account_id_def won_race_def split: race_pc.splits)
  next
    case settled
    then have "race_turn st us i c = c" by (simp add: t)
    with assms(1) show ?thesis by simp
  qed (unfold t, (rule read; use assms(2) in \<open>auto simp: won_race_def\<close>)+)
qed

lemma race_inv_step:
  assumes "race_step st us d c c'" and "race_inv d c" and "\<And>i. u_ID (us i) = d"
  shows "race_inv d c'"
  using assms(1)
proof (cases rule: race_step.cases)
  case (turn i)
  with race_inv_turn [OF assms(2), of us i] assms(3) show ?thesis by simp
next
  case (sync i won p upd oe w)
  note ok = race_inv_D(1) [OF assms(2)]
  obtain h where h: "accounts (rc_world c) d = Some h" "h_ID h = h_ID p"
    using race_inv_D(2) [OF assms(2) sync(2)] by (auto simp: account_id_def)
  have "account_id d w = account_id d (rc_world c)"
  proof (cases oe)
    case None
    from update_done [OF ok h(1), of upd w] sync(3) None h(2) show ?thesis by (auto simp: account_id_def h(1))
  next
    case (Some e)
    from update_failed [OF ok sync(3) [unfolded Some]] show ?thesis by (simp add: account_id_def)
  qed
  with race_inv_world [OF assms(2)] update_frame [OF ok sync(3)] sync(1) show ?thesis by simp
next
  case (other nh r w)
  note ok = race_inv_D(1) [OF assms(2)]
  have "accounts w d = accounts (rc_world c) d"
  proof (cases r)
    case (Inl e)
    show ?thesis using create_failed [OF ok other(3) [unfolded Inl]] by simp
  next
    case (Inr p)
    show ?thesis using create_fresh [OF ok other(3) [unfolded Inr]] other(2) by simp
  qed
  then have "account_id d w = account_id d (rc_world c)" by (simp add: account_id_def)
  with race_inv_world [OF assms(2)] create_frame [OF ok other(3)] other(1) show ?thesis by simp
qed

lemma race_inv_reaches:
  assumes "race_reaches st us d c c'" and "race_inv d c" and "\<And>i. u_ID (us i) = d"
  shows "race_inv d c'"
  using assms(1,2) unfolding race_reaches_def
  by (induction rule: rtranclp_induct) (simp, metis race_inv_step assms(3))

end

section \<open>Every worker settles\<close>

fun race_rank :: "race_pc \<Rightarrow> nat" where
  "race_rank Looking = 3"
| "race_rank Creating = 2"
| "race_rank Rereading = 1"
| "race_rank _ = 0"

lemma race_rank_move: "race_move s u pc w = (pc', w') \<Longrightarrow> race_rank pc' \<le> race_rank pc - 1"
  by (cases pc) (auto simp: race_move_def split: prod.splits sum.splits if_splits)

lemma race_rank_turn:
  "race_rank (rc_pc (race_turn s us j c) i) \<le> race_rank (rc_pc c i) - (if i = j then 1 else 0)"
  using race_rank_move [of s "us i" "rc_pc c i" "rc_world c"]
  by (cases "i = j") (auto simp: race_turn_def split: prod.splits)

lemma race_rank_run:
  "race_rank (rc_pc (race_run s us schedule c) i) \<le> race_rank (rc_pc c i) - count_list schedule i"
proof (induction schedule arbitrary: c)
  case (Cons j schedule)
  from Cons [of "race_turn s us j c"] race_rank_turn [of s us j c i] show ?case
    by (simp add: race_run_def split: if_splits)
qed (simp add: race_run_def)

fun still_hopes :: "race_pc \<Rightarrow> bool" where
  "still_hopes (Gave e) = False"
| "still_hopes _ = True"

context available_store begin

lemma race_move_hopes:
  assumes "race_inv d c" and "u_ID u = d" and "still_hopes (rc_pc c i)"
    and m: "race_move st u (rc_pc c i) (rc_world c) = (pc, w)"
  shows "still_hopes pc"
proof -
  note ok = race_inv_D(1) [OF assms(1)]
  have known: "accounts (rc_world c) d \<noteq> None" if "rc_pc c i = Rereading"
    using race_inv_D(3) [OF assms(1) that] by (auto simp: account_id_def)
  show ?thesis
  proof (cases "rc_pc c i")
    case Looking
    with m ok show ?thesis
      by (auto simp: race_move_def split: prod.splits sum.splits if_splits dest: lookup_answers)
  next
    case Creating
    with m ok show ?thesis
      by (auto simp: race_move_def split: prod.splits sum.splits if_splits dest: create_answers)
  next
    case Rereading
    with m ok known assms(2) show ?thesis
      by (auto simp: race_move_def split: prod.splits sum.splits if_splits dest: lookup_answers)
  qed (use m assms(3) in auto)
qed

lemma race_run_hopes:
  assumes "race_inv d c" and "\<And>i. u_ID (us i) = d" and "\<And>i. still_hopes (rc_pc c i)"
  shows "still_hopes (rc_pc (race_run st us schedule c) i)"
  using assms(1,3)
proof (induction schedule arbitrary: c)
  case (Cons j schedule)
  obtain pc w where m: "race_move st (us j) (rc_pc c j) (rc_world c) = (pc, w)" by fastforce
  with race_move_hopes [OF Cons.prems(1) assms(2) Cons.prems(2) m] Cons.prems(2)
  have "still_hopes (rc_pc (race_turn st us j c) k)" for k by (simp add: race_turn_def)
  from Cons.IH [OF race_inv_turn [OF Cons.prems(1) assms(2)] this] show ?case by (simp add: race_run_def)
qed (simp add: race_run_def)

lemma race_settled:
  assumes "ok w" and "accounts w d = None" and "\<And>i. u_ID (us i) = d" and "3 \<le> count_list schedule i"
  defines "c \<equiv> race_run st us schedule (race_start w)"
  obtains won p where "rc_pc c i = Got won p" "account_id d (rc_world c) = Some (h_ID p)"
proof -
  have start: "race_inv d (race_start w)" by (rule race_inv_start [OF assms(1,2)])
  have inv: "race_inv d c" unfolding c_def by (rule race_inv_reaches [OF race_run_reaches start assms(3)])
  have "still_hopes (rc_pc c i)" unfolding c_def
    by (rule race_run_hopes [OF start assms(3)]) (simp add: race_start_def)
  moreover have "race_rank (rc_pc c i) = 0"
    using race_rank_run [of st us schedule "race_start w" i] assms(4) by (simp add: c_def race_start_def)
  ultimately obtain won p where "rc_pc c i = Got won p" by (cases "rc_pc c i") auto
  with race_inv_D(2) [OF inv this] that show ?thesis by blast
qed

end

section \<open>The properties\<close>

text \<open>C33: However many workers apply an active record of the same new identity and however their
  store calls interleave, all that get an account get the same one, exactly one of them made it, and it is
  the account the store has.\<close>

theorem race_yields_one_account:
  assumes "store_contract store ok accounts saved rnd"
    and "ok w" and "accounts w d = None" and "\<And>k. u_ID (us k) = d"
    and "race_reaches store us d (race_start w) c"
    and "rc_pc c i = Got a p" and "rc_pc c j = Got b q"
  shows "h_ID p = h_ID q \<and> (\<exists>!k. won_race (rc_pc c k))
    \<and> (\<exists>h. accounts (rc_world c) d = Some h \<and> h_ID h = h_ID p)"
proof -
  have inv: "store_contract.race_inv ok accounts d c"
    by (rule store_contract.race_inv_reaches [OF assms(1,5) store_contract.race_inv_start [OF assms(1-3)] assms(4)])
  note facts = store_contract.race_inv_D [OF assms(1) inv] store_contract.account_id_def [OF assms(1)]
  from facts(2) [OF assms(6)] facts(2) [OF assms(7)] facts(4) facts(5) show ?thesis
    by (auto simp: facts(6))
qed

lemma mem_New_empty: "mem_accounts (mem_New clock) d = None"
  using mem_New_fresh(2) [of clock] by (simp add: fresh_store_def)

definition race_users :: "nat \<Rightarrow> user" where
  "race_users k = zero_user\<lparr>u_ID := ''hlp_1'', u_UserName := ''a@x.se'', u_Active := Some True\<rparr>"

theorem race_yields_one_account_witness:
  "\<exists>c p q. race_reaches mem_ops race_users ''hlp_1'' (race_start (mem_New int)) c
    \<and> rc_pc c 0 = Got False p \<and> rc_pc c 1 = Got True q \<and> h_ID p = h_ID q"
proof -
  define c where "c = race_run mem_ops race_users [0, 1, 1, 0, 0] (race_start (mem_New int))"
  have "race_outcome (rc_pc c 0) = race_outcome (rc_pc c 1)" and "won_race (rc_pc c 1)" and "\<not> won_race (rc_pc c 0)"
    and "\<not> isl (race_outcome (rc_pc c 0))" "\<not> isl (race_outcome (rc_pc c 1))"
    unfolding c_def by code_simp+
  then obtain p q where "rc_pc c 0 = Got False p" "rc_pc c 1 = Got True q"
    by (cases "rc_pc c 0"; cases "rc_pc c 1") (auto simp: won_race_def)
  moreover have "race_reaches mem_ops race_users ''hlp_1'' (race_start (mem_New int)) c"
    unfolding c_def by (rule race_run_reaches)
  ultimately show ?thesis
    using race_yields_one_account [OF mem.store_contract_axioms, of "mem_New int" "''hlp_1''" race_users c 0 False p 1 True q]
    by (auto simp: mem_New_fresh mem_New_empty race_users_def)
qed

text \<open>C34: With a store that answers every call, each worker with an active record of the new identity
  has its account after three turns, whatever the others do in between.\<close>

theorem race_settles:
  assumes "available_store store ok accounts saved rnd"
    and "ok w" and "accounts w d = None" and "\<And>k. u_ID (us k) = d"
    and "3 \<le> count_list schedule i"
  shows "\<exists>won p h. rc_pc (race_run store us schedule (race_start w)) i = Got won p
    \<and> accounts (rc_world (race_run store us schedule (race_start w))) d = Some h \<and> h_ID h = h_ID p"
proof -
  have contract: "store_contract store ok accounts saved rnd"
    using assms(1) by (simp add: available_store_def)
  from available_store.race_settled [OF assms] obtain won p
    where "rc_pc (race_run store us schedule (race_start w)) i = Got won p"
      "store_contract.account_id accounts d (rc_world (race_run store us schedule (race_start w))) = Some (h_ID p)" .
  then show ?thesis by (auto simp: store_contract.account_id_def [OF contract])
qed

theorem race_settles_witness:
  "\<exists>won p. rc_pc (race_run mem_ops race_users [0, 1, 1, 0, 0] (race_start (mem_New int))) 0 = Got won p"
  using race_settles [OF mem_suite.available_store_axioms, of "mem_New int" "''hlp_1''" race_users "[0, 1, 1, 0, 0]" 0]
  by (auto simp: mem_New_fresh mem_New_empty race_users_def)

end
