(* ===== verification/Rfc3339_Nano.thy ===== *)
theory Rfc3339_Nano
  imports Rfc3339
begin

text \<open>
  \<open>time.RFC3339Nano\<close>, the form in which \<open>encoding/json\<close> writes a time: the fraction of a
  second with its trailing zeros dropped, and nothing at all when it is zero. A time is an
  instant here, so it is written in UTC whatever zone it was read with.
\<close>

definition civil_year :: "time \<Rightarrow> int" where
  "civil_year t = fst (civil_of_day (t div second div seconds_per_day))"

text \<open>\<open>Time.MarshalJSON\<close> refuses a year of other than four digits.\<close>

definition four_digit_year :: "time \<Rightarrow> bool" where
  "four_digit_year t = (0 \<le> civil_year t \<and> civil_year t \<le> 9999)"

definition drop_trailing_zeros :: "string \<Rightarrow> string" where
  "drop_trailing_zeros s = rev (dropWhile (\<lambda>c. c = CHR ''0'') (rev s))"

definition format_fraction :: "nat \<Rightarrow> string" where
  "format_fraction ns = (if ns = 0 then [] else CHR ''.'' # drop_trailing_zeros (pad 9 ns))"

definition format_rfc3339_nano :: "time \<Rightarrow> string" where
  "format_rfc3339_nano t = format_clock t @ format_fraction (nat (t mod second)) @ ''Z''"

section \<open>Round trip\<close>

lemma drop_trailing_zeros_append: "\<exists>k. s = drop_trailing_zeros s @ replicate k CHR ''0''"
proof -
  define z where "z = takeWhile (\<lambda>c. c = CHR ''0'') (rev s)"
  have "z = replicate (length z) CHR ''0''"
    by (rule replicate_eqI [symmetric, THEN sym]) (auto simp: z_def dest: set_takeWhileD)
  moreover have "rev s = z @ dropWhile (\<lambda>c. c = CHR ''0'') (rev s)" by (simp add: z_def)
  then have "s = drop_trailing_zeros s @ rev z"
    unfolding drop_trailing_zeros_def by (metis rev_append rev_rev_ident)
  ultimately show ?thesis by (metis rev_replicate)
qed

lemma digit_is_digit: "d < 10 \<Longrightarrow> is_digit (digit d)"
  by (simp add: is_digit_def)

lemma nat_digits_are_digits: "c \<in> set (nat_digits n) \<Longrightarrow> is_digit c"
proof (induction n rule: nat_digits.induct)
  case (1 n)
  then show ?case
    by (subst (asm) (2) nat_digits.simps) (auto simp: digit_is_digit split: if_splits)
qed

lemma pad_digits: "c \<in> set (pad w n) \<Longrightarrow> is_digit c"
  using nat_digits_are_digits by (auto simp: pad_def Let_def is_digit_def)

lemma pad_not_zeros:
  assumes "0 < n"
  shows "drop_trailing_zeros (pad w n) \<noteq> []"
proof
  assume "drop_trailing_zeros (pad w n) = []"
  with drop_trailing_zeros_append obtain k where "pad w n = replicate k CHR ''0''" by (metis append_Nil)
  then have "parse_digits 0 (pad w n) = parse_digits 0 (replicate k CHR ''0'' @ [])" by simp
  moreover have "parse_digits 0 (pad w n) = Some n"
    by (simp add: pad_def Let_def parse_digits_zeros parse_digits_nat_digits)
  ultimately show False using assms by (simp only: parse_digits_zeros) simp
qed

lemma parse_format_fraction:
  assumes "ns < 10 ^ 9" and "s = [] \<or> \<not> is_digit (hd s)" and "\<not> has_prefix s ''.''"
  shows "parse_fraction (format_fraction ns @ s) = Some (int ns, s)"
proof (cases "ns = 0")
  case True
  with assms(3) show ?thesis by (simp add: format_fraction_def parse_fraction_def)
next
  case False
  define ds where "ds = drop_trailing_zeros (pad 9 ns)"
  obtain k where k: "pad 9 ns = ds @ replicate k CHR ''0''"
    using drop_trailing_zeros_append unfolding ds_def by blast
  have len: "length (pad 9 ns) = 9" using assms(1) by (intro length_pad) simp_all
  have "set ds \<subseteq> set (pad 9 ns)" unfolding k by auto
  then have digits: "\<forall>c \<in> set ds. is_digit c" using pad_digits by blast
  have "ds \<noteq> []" unfolding ds_def using False by (intro pad_not_zeros) simp
  have tw: "takeWhile is_digit (ds @ s) = ds" "dropWhile is_digit (ds @ s) = s"
    using digits assms(2) by (cases s; simp)+
  have "take 9 (ds @ replicate 9 CHR ''0'') = pad 9 ns"
    using len unfolding k by (simp add: take_replicate min_def)
  moreover have "parse_digits 0 (pad 9 ns) = Some ns"
    by (simp add: pad_def Let_def parse_digits_zeros parse_digits_nat_digits)
  ultimately show ?thesis
    using False \<open>ds \<noteq> []\<close> by (simp add: format_fraction_def parse_fraction_def has_prefix_def Let_def
        ds_def [symmetric] tw)
qed

text \<open>\<open>json.Unmarshal\<close> reads back the instant that \<open>json.Marshal\<close> wrote.\<close>

lemma parse_format_rfc3339_nano:
  assumes "0 \<le> t" and "t < max_rfc3339"
  shows "parse_rfc3339 (format_rfc3339_nano t) = Some t"
proof -
  have ns: "0 \<le> t mod second" "t mod second < 10 ^ 9" by (simp_all add: second_def)
  then have "nat (t mod second) < 10 ^ 9" by (simp add: nat_less_iff)
  then have "parse_fraction (format_fraction (nat (t mod second)) @ ''Z'') = Some (t mod second, ''Z'')"
    using ns by (subst parse_format_fraction) (auto simp: has_prefix_def is_digit_def digit_val_def)
  from parse_format_clock [OF assms this] show ?thesis by (simp add: format_rfc3339_nano_def)
qed

lemma civil_year_bounds:
  assumes "0 \<le> t" and "t < max_rfc3339"
  shows "four_digit_year t"
proof -
  define day where "day = t div second div seconds_per_day"
  obtain y m d where civil: "civil_of_day day = (y, m, d)" by (metis prod_cases3)
  have "0 \<le> day" "day < days_before_year 10000"
    using assms by (simp_all add: day_def max_rfc3339_def unit_defs seconds_per_day_def pos_imp_zdiv_nonneg_iff
        div_less_iff_less_mult)
  from civil_year_range [OF civil this] show ?thesis
    by (auto simp: four_digit_year_def civil_year_def day_def [symmetric] civil)
qed

end
