(* ===== verification/Scim_Encode.thy ===== *)
theory Scim_Encode
  imports Scim_Json Rfc3339_Nano
begin

text \<open>
  The server's side of the wire, as the fake directory has it: \<open>json.Marshal\<close> of the
  structures of \<open>scim/types.go\<close> and \<open>scim/errors.go\<close> by their struct tags, the decoding of a
  \<open>PatchOp\<close>, and the round trips with the decoders of the client.

  \<open>omitempty\<close> drops an empty string, a false flag and an empty slice, but neither a struct nor a
  time; an empty list stands for a nil slice, which is written as \<open>null\<close>. Marshalling fails
  when a time has no four-digit year. Strings are taken as valid UTF-8.
\<close>

section \<open>Encoders\<close>

definition omit_empty :: "bool \<Rightarrow> string \<Rightarrow> json \<Rightarrow> (string \<times> json) list" where
  "omit_empty absent k v = (if absent then [] else [(k, v)])"

definition enc_strings :: "string list \<Rightarrow> json" where
  "enc_strings ss = (if ss = [] then JNull else JArr (map JStr ss))"

definition enc_name :: "name \<Rightarrow> json" where
  "enc_name n = JObj
     (omit_empty (n_GivenName n = []) ''givenName'' (JStr (n_GivenName n))
      @ omit_empty (n_FamilyName n = []) ''familyName'' (JStr (n_FamilyName n)))"

definition enc_email :: "email \<Rightarrow> json" where
  "enc_email e = JObj
     ([(''value'', JStr (e_Value e))]
      @ omit_empty (\<not> e_Primary e) ''primary'' (JBool (e_Primary e))
      @ omit_empty (e_Type e = []) ''type'' (JStr (e_Type e)))"

definition enc_time :: "time \<Rightarrow> json" where
  "enc_time t = JStr (format_rfc3339_nano t)"

definition enc_meta :: "meta \<Rightarrow> json" where
  "enc_meta m = JObj
     (omit_empty (m_ResourceType m = []) ''resourceType'' (JStr (m_ResourceType m))
      @ [(''created'', enc_time (m_Created m)), (''lastModified'', enc_time (m_LastModified m))])"

definition enc_active :: "bool option \<Rightarrow> json" where
  "enc_active a = (case a of None \<Rightarrow> JNull | Some b \<Rightarrow> JBool b)"

definition user_json :: "user \<Rightarrow> json" where
  "user_json u = JObj
     ([(''schemas'', enc_strings (u_Schemas u)), (''id'', JStr (u_ID u))]
      @ omit_empty (u_ExternalID u = []) ''externalId'' (JStr (u_ExternalID u))
      @ [(''userName'', JStr (u_UserName u))]
      @ omit_empty (u_DisplayName u = []) ''displayName'' (JStr (u_DisplayName u))
      @ [(''name'', enc_name (u_Name u))]
      @ omit_empty (u_Emails u = []) ''emails'' (JArr (map enc_email (u_Emails u)))
      @ [(''active'', enc_active (u_Active u)), (''meta'', enc_meta (u_Meta u))])"

definition enc_user :: "user \<Rightarrow> json option" where
  "enc_user u =
     (if four_digit_year (m_Created (u_Meta u)) \<and> four_digit_year (m_LastModified (u_Meta u))
      then Some (user_json u) else None)"

definition enc_list_response :: "list_response \<Rightarrow> json" where
  "enc_list_response lr = JObj
     [(''schemas'', enc_strings (lr_Schemas lr)), (''totalResults'', JNum (lr_TotalResults lr)),
      (''startIndex'', JNum (lr_StartIndex lr)), (''itemsPerPage'', JNum (lr_ItemsPerPage lr)),
      (''Resources'', JArr (lr_Resources lr))]"

definition enc_scim_error :: "scim_error \<Rightarrow> json" where
  "enc_scim_error e = JObj
     ([(''schemas'', enc_strings (se_Schemas e)), (''status'', JStr (se_Status e))]
      @ omit_empty (se_ScimType e = []) ''scimType'' (JStr (se_ScimType e))
      @ omit_empty (se_Detail e = []) ''detail'' (JStr (se_Detail e)))"

section \<open>The decoder of a PatchOp\<close>

text \<open>A value of type \<open>any\<close>: what is decoded replaces what was there.\<close>

definition dec_any :: "op_value decoder" where
  "dec_any v old =
     Some (case v of JNull \<Rightarrow> VNil | JStr s \<Rightarrow> VStr s | JBool b \<Rightarrow> VBool b | _ \<Rightarrow> VAny v)"

definition zero_operation :: operation where
  "zero_operation = \<lparr>op_Op = [], op_Path = [], op_Value = VNil\<rparr>"

definition dec_operation :: "operation decoder" where
  "dec_operation = dec_struct
     [field ''op'' dec_string op_Op op_Op_update,
      field ''path'' dec_string op_Path op_Path_update,
      field ''value'' dec_any op_Value op_Value_update]"

definition zero_patch_op :: patch_op where
  "zero_patch_op = \<lparr>po_Schemas = [], po_Operations = []\<rparr>"

definition dec_patch_op :: "patch_op decoder" where
  "dec_patch_op = dec_struct
     [field ''schemas'' (dec_list dec_string []) po_Schemas po_Schemas_update,
      field ''Operations'' (dec_list dec_operation zero_operation) po_Operations po_Operations_update]"

section \<open>Round trips\<close>

lemma dec_members_append:
  "dec_members fs (xs @ ys) r = (case dec_members fs xs r of None \<Rightarrow> None | Some r' \<Rightarrow> dec_members fs ys r')"
  by (induction xs arbitrary: r) (auto split: option.splits)

lemma dec_members_omit:
  "dec_members fs (omit_empty absent k v) r = (if absent then Some r else dec_members fs [(k, v)] r)"
  by (simp add: omit_empty_def)

lemma all_some_map: "(\<And>x. x \<in> set xs \<Longrightarrow> f x = Some (g x)) \<Longrightarrow> all_some (map f xs) = Some (map g xs)"
  by (simp add: all_some_iff)

lemma dec_list_map:
  assumes "\<And>x. x \<in> set xs \<Longrightarrow> d (f x) z = Some x"
  shows "dec_list d z (JArr (map f xs)) old = Some xs"
  using assms by (simp add: comp_def all_some_iff)

lemma dec_enc_strings [simp]: "dec_list dec_string [] (enc_strings ss) [] = Some ss"
  by (auto simp: enc_strings_def comp_def all_some_iff)

text \<open>The names of the fields, in lower case.\<close>

lemma lower_names:
  "to_lower ''givenName'' = ''givenname''" "to_lower ''familyName'' = ''familyname''"
  "to_lower ''value'' = ''value''" "to_lower ''primary'' = ''primary''" "to_lower ''type'' = ''type''"
  "to_lower ''resourceType'' = ''resourcetype''" "to_lower ''created'' = ''created''"
  "to_lower ''lastModified'' = ''lastmodified''" "to_lower ''schemas'' = ''schemas''" "to_lower ''id'' = ''id''"
  "to_lower ''externalId'' = ''externalid''" "to_lower ''userName'' = ''username''"
  "to_lower ''displayName'' = ''displayname''" "to_lower ''name'' = ''name''" "to_lower ''emails'' = ''emails''"
  "to_lower ''active'' = ''active''" "to_lower ''meta'' = ''meta''" "to_lower ''totalResults'' = ''totalresults''"
  "to_lower ''startIndex'' = ''startindex''" "to_lower ''itemsPerPage'' = ''itemsperpage''"
  "to_lower ''Resources'' = ''resources''" "to_lower ''status'' = ''status''" "to_lower ''scimType'' = ''scimtype''"
  "to_lower ''detail'' = ''detail''" "to_lower ''op'' = ''op''" "to_lower ''path'' = ''path''"
  "to_lower ''Operations'' = ''operations''"
  by code_simp+

lemma dec_enc_name: "dec_name (enc_name n) zero_name = Some n"
  by (cases "n_GivenName n = []"; cases "n_FamilyName n = []")
    (simp_all add: dec_name_def enc_name_def zero_name_def field_def lower_names dec_members_append dec_members_omit)

lemma dec_enc_email: "dec_email (enc_email e) zero_email = Some e"
  by (cases "e_Primary e"; cases "e_Type e = []")
    (simp_all add: dec_email_def enc_email_def zero_email_def field_def lower_names dec_members_append dec_members_omit)

lemma dec_enc_active: "dec_bool_ptr (enc_active a) None = Some a"
  by (cases a) (simp_all add: enc_active_def)

lemma dec_enc_time: "0 \<le> t \<Longrightarrow> t < max_rfc3339 \<Longrightarrow> dec_time (enc_time t) old = Some t"
  by (simp add: enc_time_def parse_format_rfc3339_nano)

definition dated :: "user \<Rightarrow> bool" where
  "dated u = (\<forall>t \<in> {m_Created (u_Meta u), m_LastModified (u_Meta u)}. 0 \<le> t \<and> t < max_rfc3339)"

lemma dec_enc_meta:
  assumes "0 \<le> m_Created m" "m_Created m < max_rfc3339" "0 \<le> m_LastModified m" "m_LastModified m < max_rfc3339"
  shows "dec_meta (enc_meta m) zero_meta = Some m"
  using assms by (cases "m_ResourceType m = []")
    (simp_all add: dec_meta_def enc_meta_def zero_meta_def field_def lower_names dec_members_append dec_members_omit
      dec_enc_time)

lemma dec_enc_emails: "dec_list dec_email zero_email (JArr (map enc_email es)) old = Some es"
  by (rule dec_list_map) (rule dec_enc_email)

lemma dec_user_json:
  assumes "dated u"
  shows "dec_user (user_json u) zero_user = Some u"
proof -
  have meta: "dec_meta (enc_meta (u_Meta u)) zero_meta = Some (u_Meta u)"
    using assms by (intro dec_enc_meta) (simp_all add: dated_def)
  show ?thesis
    by (cases "u_ExternalID u = []"; cases "u_DisplayName u = []"; cases "u_Emails u = []")
      (simp_all add: dec_user_def user_json_def zero_user_def user_fields_def field_def lower_names
        dec_members_append dec_members_omit meta dec_enc_name dec_enc_active dec_enc_emails del: dec_list.simps)
qed

lemma dated_four_digits: "dated u \<Longrightarrow> enc_user u = Some (user_json u)"
  by (simp add: dated_def enc_user_def civil_year_bounds)

lemma dec_enc_list_response:
  assumes "in_int64 (lr_TotalResults lr)" "in_int64 (lr_StartIndex lr)" "in_int64 (lr_ItemsPerPage lr)"
  shows "dec_list_response (enc_list_response lr) zero_list_response = Some lr"
proof -
  have raws: "dec_list dec_raw JNull (JArr vs) [] = Some vs" for vs
    by (simp add: dec_raw_def all_some_iff)
  show ?thesis using assms
    by (simp add: dec_list_response_def enc_list_response_def zero_list_response_def list_response_fields_def
        field_def lower_names raws del: dec_list.simps)
qed

lemma dec_enc_scim_error: "dec_scim_error (enc_scim_error e) zero_scim_error = Some (e\<lparr>se_HTTPStatus := 0\<rparr>)"
  by (cases "se_ScimType e = []"; cases "se_Detail e = []")
    (simp_all add: dec_scim_error_def enc_scim_error_def zero_scim_error_def field_def lower_names
      dec_members_append dec_members_omit del: dec_list.simps)

text \<open>Values of \<open>any\<close> that are read back as they were written.\<close>

definition plain_value :: "op_value \<Rightarrow> bool" where
  "plain_value v = (case v of VAny j \<Rightarrow> \<not> (j = JNull \<or> (\<exists>s. j = JStr s) \<or> (\<exists>b. j = JBool b)) | _ \<Rightarrow> True)"

lemma dec_enc_value: "plain_value v \<Longrightarrow> dec_any (enc_value v) old = Some v"
  by (cases v) (auto simp: dec_any_def plain_value_def split: json.splits)

lemma dec_enc_operation: "plain_value (op_Value x) \<Longrightarrow> dec_operation (enc_operation x) zero_operation = Some x"
  by (cases "op_Path x = []"; cases "op_Value x = VNil")
    (simp_all add: dec_operation_def enc_operation_def zero_operation_def field_def lower_names dec_enc_value)

lemma dec_enc_patch_op:
  assumes "\<And>x. x \<in> set (po_Operations p) \<Longrightarrow> plain_value (op_Value x)"
  shows "dec_patch_op (enc_patch_op p) zero_patch_op = Some p"
proof -
  have "dec_list dec_operation zero_operation (JArr (map enc_operation (po_Operations p))) [] = Some (po_Operations p)"
    by (intro dec_list_map dec_enc_operation assms)
  moreover have "dec_list dec_string [] (JArr (map JStr (po_Schemas p))) [] = Some (po_Schemas p)"
    by (intro dec_list_map) simp
  ultimately show ?thesis
    by (simp add: dec_patch_op_def enc_patch_op_def zero_patch_op_def field_def lower_names del: dec_list.simps)
qed

section \<open>What is printed can be parsed\<close>

lemma printable_omit: "list_all (\<lambda>(k, v). printable v) (omit_empty absent k v) \<longleftrightarrow> absent \<or> printable v"
  by (simp add: omit_empty_def)

lemma printable_strings [simp]: "printable (enc_strings ss)"
  by (simp add: enc_strings_def list_all_length)

lemma printable_parts [simp]:
  "printable (enc_name n)" "printable (enc_email e)" "printable (enc_time t)" "printable (enc_active a)"
  by (simp_all add: enc_name_def enc_email_def enc_time_def enc_active_def printable_omit split: option.splits)

lemma printable_emails [simp]: "list_all printable (map enc_email es)"
  by (simp add: list_all_length)

lemma printable_user [simp]: "printable (user_json u)"
  by (simp add: user_json_def enc_meta_def printable_omit)

lemma printable_scim_error [simp]: "printable (enc_scim_error e)"
  by (simp add: enc_scim_error_def printable_omit)

lemma printable_list_response:
  "list_all printable (lr_Resources lr) \<Longrightarrow> printable (enc_list_response lr)"
  by (simp add: enc_list_response_def)

end
