(* ===== verification/Fake_Directory.thy ===== *)
theory Fake_Directory
  imports Scim_Encode Transport
begin

text \<open>
  \<open>scimtest/scimtest.go\<close>: the fake directory, a SCIM server with fault injection. Its state
  is the record \<open>fake\<close>; a request is served by \<open>handle\<close> in one step (the source takes its mutex
  several times within a request, requests that overlap are not modelled). The HTTP server
  around it is left out: the answer is what the handler writes, for a status it may write.
  \<open>sniff\<close> stands for \<open>http.DetectContentType\<close>, which the server applies to a body written
  without a content type.
\<close>

section \<open>State\<close>

definition Token :: string where "Token = ''scim_test_0000000000''"

record patch_record =
  pk_ID :: string
  pk_ExternalID :: string

record fault =
  ft_status :: int
  ft_retryAfter :: string

record raw_response =
  rr_status :: int
  rr_contentType :: string
  rr_body :: string

record fake =
  fk_users :: "user list"
  fk_bound :: "string \<rightharpoonup> string"
  fk_faults :: "fault list"
  fk_raws :: "raw_response list"
  fk_requests :: nat
  fk_patches :: "patch_record list"
  fk_ignoreStartIndex :: bool

definition bind_user :: "user \<Rightarrow> (string \<rightharpoonup> string) \<Rightarrow> (string \<rightharpoonup> string)" where
  "bind_user u bound = (if u_ExternalID u \<noteq> [] then bound(u_ExternalID u \<mapsto> u_ID u) else bound)"

definition Start :: "user list \<Rightarrow> fake" where
  "Start users =
     \<lparr>fk_users = users, fk_bound = fold bind_user users Map.empty, fk_faults = [], fk_raws = [],
      fk_requests = 0, fk_patches = [], fk_ignoreStartIndex = False\<rparr>"

text \<open>\<open>Load\<close>, on what reading the fixture gave: \<open>None\<close> is a fatal error of the test.\<close>

definition Load :: "string option \<Rightarrow> user list option" where
  "Load contents =
     (case contents of
        None \<Rightarrow> None
      | Some raw \<Rightarrow> (case json_whole raw of None \<Rightarrow> None | Some v \<Rightarrow> dec_list dec_user zero_user v []))"

definition RespondNextRaw :: "int \<Rightarrow> string \<Rightarrow> string \<Rightarrow> fake \<Rightarrow> fake" where
  "RespondNextRaw status contentType body d =
     d\<lparr>fk_raws := fk_raws d @ [\<lparr>rr_status = status, rr_contentType = contentType, rr_body = body\<rparr>]\<rparr>"

definition IgnoreStartIndex :: "bool \<Rightarrow> fake \<Rightarrow> fake" where
  "IgnoreStartIndex v d = d\<lparr>fk_ignoreStartIndex := v\<rparr>"

definition FailNext :: "int \<Rightarrow> string \<Rightarrow> fake \<Rightarrow> fake" where
  "FailNext status retryAfter d =
     d\<lparr>fk_faults := fk_faults d @ [\<lparr>ft_status = status, ft_retryAfter = retryAfter\<rparr>]\<rparr>"

definition Requests :: "fake \<Rightarrow> nat" where "Requests d = fk_requests d"

definition Patches :: "fake \<Rightarrow> patch_record list" where "Patches d = fk_patches d"

definition User :: "string \<Rightarrow> fake \<Rightarrow> user option" where
  "User ident d = find (\<lambda>u. u_ID u = ident) (fk_users d)"

definition set_modified :: "time \<Rightarrow> user \<Rightarrow> user" where
  "set_modified t u = u\<lparr>u_Meta := (u_Meta u)\<lparr>m_LastModified := t\<rparr>\<rparr>"

fun touch_first :: "string \<Rightarrow> (user \<Rightarrow> user) \<Rightarrow> user list \<Rightarrow> user list" where
  "touch_first ident f [] = []"
| "touch_first ident f (u # us) = (if u_ID u \<noteq> ident then u # touch_first ident f us else f u # us)"

definition Touch :: "string \<Rightarrow> time \<Rightarrow> (user \<Rightarrow> user) \<Rightarrow> fake \<Rightarrow> fake" where
  "Touch ident t mutate d =
     d\<lparr>fk_users := touch_first ident (\<lambda>u. set_modified t (mutate u)) (fk_users d)\<rparr>"

definition Bind :: "string \<Rightarrow> string \<Rightarrow> fake \<Rightarrow> fake" where
  "Bind externalID directoryID d = d\<lparr>fk_bound := (fk_bound d)(externalID \<mapsto> directoryID)\<rparr>"

section \<open>Reading a request\<close>

text \<open>\<open>url.ParseQuery\<close>: pieces that are empty, hold a semicolon or a bad escape are dropped.\<close>

definition query_pair :: "string \<Rightarrow> (string \<times> string) option" where
  "query_pair p =
     (if CHR '';'' \<in> set p \<or> p = [] then None
      else
        let k = takeWhile (\<lambda>c. c \<noteq> CHR ''='') p; v = drop 1 (dropWhile (\<lambda>c. c \<noteq> CHR ''='') p) in
        if bad_escape k \<or> bad_escape v then None else Some (unescape True k, unescape True v))"

definition url_query :: "string \<Rightarrow> (string \<times> string) list" where
  "url_query u = List.map_filter query_pair (split_at CHR ''&'' (drop 1 (dropWhile (\<lambda>c. c \<noteq> CHR ''?'') u)))"

definition query_get :: "(string \<times> string) list \<Rightarrow> string \<Rightarrow> string" where
  "query_get q k = (case map_of q k of None \<Rightarrow> [] | Some v \<Rightarrow> v)"

text \<open>\<open>strconv.Atoi\<close> with its error ignored: zero for a syntax error, the nearest bound for a
  value out of range.\<close>

definition signed_text :: "string \<Rightarrow> int option" where
  "signed_text s =
     (case s of
        [] \<Rightarrow> None
      | c # cs \<Rightarrow>
          if c = CHR ''-'' then map_option (\<lambda>n. - int n) (parse_nat cs)
          else if c = CHR ''+'' then map_option int (parse_nat cs)
          else map_option int (parse_nat s))"

definition atoi_lax :: "string \<Rightarrow> int" where
  "atoi_lax s = (case signed_text s of None \<Rightarrow> 0 | Some n \<Rightarrow> max int64_min (min int64_max n))"

text \<open>\<open>filterRE\<close>, a search: the first place where it matches, and its only group.\<close>

definition is_re_space :: "char \<Rightarrow> bool" where
  "is_re_space c = (c \<in> {CHR '' '', CHR 0x09, CHR 0x0A, CHR 0x0C, CHR 0x0D})"

definition re_spaces :: "string \<Rightarrow> string option" where
  "re_spaces s = (if s = [] \<or> \<not> is_re_space (hd s) then None else Some (dropWhile is_re_space s))"

definition filter_here :: "string \<Rightarrow> string option" where
  "filter_here s = do {
     s1 \<leftarrow> expect ''meta.lastModified'' s;
     s2 \<leftarrow> re_spaces s1;
     s3 \<leftarrow> expect ''gt'' s2;
     s4 \<leftarrow> re_spaces s3;
     s5 \<leftarrow> expect [CHR 0x22] s4;
     (let v = takeWhile (\<lambda>c. c \<noteq> CHR 0x22) s5 in
      if v = [] \<or> dropWhile (\<lambda>c. c \<noteq> CHR 0x22) s5 = [] then None else Some v)
   }"

fun filterRE :: "string \<Rightarrow> string option" where
  "filterRE [] = None"
| "filterRE (c # s) = (case filter_here (c # s) of Some v \<Rightarrow> Some v | None \<Rightarrow> filterRE s)"

definition filter_since :: "string \<Rightarrow> time" where
  "filter_since filt =
     (case filterRE filt of
        None \<Rightarrow> zero_time
      | Some m \<Rightarrow> (case parse_rfc3339 m of None \<Rightarrow> zero_time | Some t \<Rightarrow> t))"

section \<open>Writing an answer\<close>

text \<open>\<open>writeJSON\<close>: the header is out before the body is marshalled; what fails leaves no body.\<close>

definition writeJSON :: "(string \<times> string) list \<Rightarrow> int \<Rightarrow> json option \<Rightarrow> response" where
  "writeJSON headers status body =
     \<lparr>rs_StatusCode = status, rs_Header = headers @ [(''Content-Type'', ContentType)],
      rs_Body = (case body of None \<Rightarrow> [] | Some v \<Rightarrow> print_json v @ [CHR 0x0A]), rs_Broken = False\<rparr>"

definition writeError :: "(string \<times> string) list \<Rightarrow> int \<Rightarrow> string \<Rightarrow> string \<Rightarrow> response" where
  "writeError headers status scimType detail =
     writeJSON headers status (Some (enc_scim_error
       \<lparr>se_Schemas = [SchemaError], se_Status = itoa status, se_ScimType = scimType, se_Detail = detail,
        se_HTTPStatus = 0\<rparr>))"

definition write_raw :: "(string \<Rightarrow> string) \<Rightarrow> raw_response \<Rightarrow> response" where
  "write_raw sniff raw =
     \<lparr>rs_StatusCode = rr_status raw,
      rs_Header =
        (if rr_contentType raw \<noteq> [] then [(''Content-Type'', rr_contentType raw)]
         else if rr_body raw \<noteq> [] then [(''Content-Type'', sniff (rr_body raw))] else []),
      rs_Body = rr_body raw, rs_Broken = False\<rparr>"

definition unknown_id :: response where
  "unknown_id = writeError [] 404 [] ''unknown identifier for this partner''"

definition served :: "user \<Rightarrow> user" where
  "served u = u\<lparr>u_Schemas := [SchemaUser]\<rparr>"

section \<open>The operations\<close>

definition matched :: "time \<Rightarrow> user list \<Rightarrow> user list" where
  "matched since users = filter (\<lambda>u. is_zero since \<or> after (LastModified u) since) users"

definition page_of :: "int \<Rightarrow> int \<Rightarrow> 'a list \<Rightarrow> 'a list" where
  "page_of startIndex cnt xs =
     (let page = (if startIndex - 1 < int (length xs) then drop (nat (startIndex - 1)) xs else []) in
      if cnt < int (length page) then take (nat cnt) page else page)"

definition list_answer :: "int \<Rightarrow> int \<Rightarrow> time \<Rightarrow> user list \<Rightarrow> list_response" where
  "list_answer startIndex cnt since users =
     (let resources = map (\<lambda>u. case enc_user (served u) of None \<Rightarrow> JNull | Some v \<Rightarrow> v)
            (page_of startIndex cnt (matched since users)) in
      \<lparr>lr_Schemas = [SchemaList], lr_TotalResults = int (length (matched since users)),
       lr_StartIndex = startIndex, lr_ItemsPerPage = int (length resources), lr_Resources = resources\<rparr>)"

definition fake_list :: "string \<Rightarrow> fake \<Rightarrow> response" where
  "fake_list target d =
     (let q = url_query target;
          asked = atoi_lax (query_get q ''startIndex'');
          startIndex = (if asked < 1 \<or> fk_ignoreStartIndex d then 1 else asked);
          wanted = atoi_lax (query_get q ''count'');
          cnt = (if wanted \<le> 0 then 100 else wanted) in
      writeJSON [] 200 (Some (enc_list_response
        (list_answer startIndex cnt (filter_since (query_get q ''filter'')) (fk_users d)))))"

definition fake_get :: "string \<Rightarrow> fake \<Rightarrow> response" where
  "fake_get ident d =
     (case User ident d of
        None \<Rightarrow> unknown_id
      | Some u \<Rightarrow> writeJSON [] 200 (enc_user (served u)))"

text \<open>An accepted operation: the identity gives up its other values, takes the new one, and its
  record changes.\<close>

definition assign :: "string \<Rightarrow> string \<Rightarrow> fake \<Rightarrow> fake" where
  "assign ident val d =
     d\<lparr>fk_bound := (\<lambda>old. if fk_bound d old = Some ident \<and> old \<noteq> val then None else fk_bound d old)(val \<mapsto> ident),
       fk_users := map (\<lambda>u. if u_ID u = ident
         then set_modified (LastModified u + second) (u\<lparr>u_ExternalID := val\<rparr>) else u) (fk_users d),
       fk_patches := fk_patches d @ [\<lparr>pk_ID = ident, pk_ExternalID = val\<rparr>]\<rparr>"

definition string_value :: "op_value \<Rightarrow> string" where
  "string_value v = (case v of VStr s \<Rightarrow> s | _ \<Rightarrow> [])"

fun patch_ops :: "string \<Rightarrow> operation list \<Rightarrow> fake \<Rightarrow> response option \<times> fake" where
  "patch_ops ident [] d = (None, d)"
| "patch_ops ident (x # xs) d =
     (if op_Path x \<noteq> ''externalId'' then
        (Some (writeError [] 403 ''mutability''
           ''attribute is read-only for this partner; writable attributes: externalId''), d)
      else if fk_bound d (string_value (op_Value x)) \<notin> {None, Some ident} then
        (Some (writeError [] 409 ''uniqueness'' ''externalId already assigned to another identity''), d)
      else patch_ops ident xs (assign ident (string_value (op_Value x)) d))"

definition read_patch :: "string option \<Rightarrow> patch_op option" where
  "read_patch body =
     (case body of
        None \<Rightarrow> None
      | Some text \<Rightarrow> (case json_first text of None \<Rightarrow> None | Some v \<Rightarrow> dec_patch_op v zero_patch_op))"

definition fake_patch :: "string option \<Rightarrow> string \<Rightarrow> fake \<Rightarrow> response \<times> fake" where
  "fake_patch body ident d =
     (case read_patch body of
        None \<Rightarrow> (writeError [] 400 ''invalidSyntax'' ''malformed PatchOp'', d)
      | Some p \<Rightarrow>
          if User ident d = None then (unknown_id, d)
          else
            case patch_ops ident (po_Operations p) d of
              (Some refusal, d') \<Rightarrow> (refusal, d')
            | (None, d') \<Rightarrow>
                (writeJSON [] 200 (case User ident d' of
                   None \<Rightarrow> enc_user (served zero_user) | Some u \<Rightarrow> enc_user (served u)), d'))"

definition provider_json :: json where
  "provider_json = JObj
     [(''filter'', JObj [(''maxResults'', JNum 500), (''supported'', JBool True)]),
      (''patch'', JObj [(''supported'', JBool True)])]"

text \<open>\<open>handle\<close>. Either queue gives up its head to the request, whichever is used.\<close>

definition route :: "request \<Rightarrow> fake \<Rightarrow> response \<times> fake" where
  "route r d =
     (let path = trim_prefix (url_path (rq_URL r)) ''/'' in
      if rq_Method r = ''GET'' \<and> path = ''Users'' then (fake_list (rq_URL r) d, d)
      else if rq_Method r = ''GET'' \<and> has_prefix path ''Users/'' then (fake_get (trim_prefix path ''Users/'') d, d)
      else if rq_Method r = ''PATCH'' \<and> has_prefix path ''Users/'' then
        fake_patch (rq_Body r) (trim_prefix path ''Users/'') d
      else if rq_Method r = ''GET'' \<and> path = ''ServiceProviderConfig'' then
        (writeJSON [] 200 (Some provider_json), d)
      else (writeError [] 403 ''mutability''
             ''this partner may only read; the sole writable attribute is externalId'', d))"

definition handle :: "(string \<Rightarrow> string) \<Rightarrow> request \<Rightarrow> fake \<Rightarrow> response \<times> fake" where
  "handle sniff r d0 =
     (let d = d0\<lparr>fk_requests := Suc (fk_requests d0), fk_faults := drop 1 (fk_faults d0),
                 fk_raws := drop 1 (fk_raws d0)\<rparr> in
      case fk_raws d0 of
        raw # _ \<Rightarrow> (write_raw sniff raw, d)
      | [] \<Rightarrow>
          (case fk_faults d0 of
             f # _ \<Rightarrow>
               (writeError (if ft_retryAfter f \<noteq> [] then [(''Retry-After'', ft_retryAfter f)] else [])
                  (ft_status f) [] ''synthetic failure'', d)
           | [] \<Rightarrow>
               if header_get (rq_Header r) ''Authorization'' \<noteq> ''Bearer '' @ Token then
                 (writeError [] 401 [] ''invalid credential'', d)
               else route r d))"

end
