(* ===== verification/Fake_Results.thy ===== *)
theory Fake_Results
  imports Fake_Directory Url_Lemmas Client
begin

text \<open>
  The client against the fake directory: what the fake reads of a request the client built, what
  the client reads of the fake's answers, and the calls end to end. The URL of the test server
  is \<open>http://\<close>, a host and a slash.
\<close>

section \<open>What the fake keeps\<close>

text \<open>A value that some record carries is bound to that record's identity.\<close>

definition coherent :: "fake \<Rightarrow> bool" where
  "coherent d = (\<forall>u \<in> set (fk_users d). u_ExternalID u \<noteq> [] \<longrightarrow> fk_bound d (u_ExternalID u) = Some (u_ID u))"

lemma coherent_counters [simp]:
  "coherent (d\<lparr>fk_requests := n\<rparr>) = coherent d" "coherent (d\<lparr>fk_faults := fs\<rparr>) = coherent d"
  "coherent (d\<lparr>fk_raws := rs\<rparr>) = coherent d"
  by (simp_all add: coherent_def)

lemma set_modified_simps [simp]:
  "u_ID (set_modified t u) = u_ID u" "u_ExternalID (set_modified t u) = u_ExternalID u"
  by (simp_all add: set_modified_def)

lemma assign_coherent:
  assumes "coherent d" and "fk_bound d val \<in> {None, Some ident}"
  shows "coherent (assign ident val d)"
  using assms by (auto simp: coherent_def assign_def)

lemma patch_ops_coherent: "patch_ops ident xs d = (r, d') \<Longrightarrow> coherent d \<Longrightarrow> coherent d'"
  by (induction xs arbitrary: d) (auto simp: assign_coherent split: if_splits)

lemma fake_patch_coherent: "fake_patch body ident d = (r, d') \<Longrightarrow> coherent d \<Longrightarrow> coherent d'"
  by (auto simp: fake_patch_def split: option.splits if_splits prod.splits dest: patch_ops_coherent)

lemma handle_coherent: "handle sniff r d = (resp, d') \<Longrightarrow> coherent d \<Longrightarrow> coherent d'"
  by (auto simp: handle_def route_def Let_def split: list.splits if_splits dest: fake_patch_coherent)

text \<open>At the start this is so when no two records carry the same value.\<close>

lemma bound_other:
  "k \<notin> u_ExternalID ` {u \<in> set us. u_ExternalID u \<noteq> []} \<Longrightarrow> fold bind_user us m k = m k"
proof (induction us arbitrary: m)
  case (Cons v us)
  then have "fold bind_user us (bind_user v m) k = bind_user v m k" by auto
  moreover have "bind_user v m k = m k" using Cons.prems by (auto simp: bind_user_def)
  ultimately show ?case by simp
qed simp

lemma bound_fold:
  assumes "distinct (map u_ExternalID (filter (\<lambda>u. u_ExternalID u \<noteq> []) us))"
    and "u \<in> set us" and "u_ExternalID u \<noteq> []"
  shows "fold bind_user us m (u_ExternalID u) = Some (u_ID u)"
  using assms
proof (induction us arbitrary: m)
  case (Cons v us)
  show ?case
  proof (cases "u \<in> set us")
    case True
    with Cons show ?thesis by (auto split: if_splits)
  next
    case False
    with Cons.prems have v: "v = u" "u_ExternalID u \<notin> u_ExternalID ` {x \<in> set us. u_ExternalID x \<noteq> []}" by auto
    from bound_other [OF v(2), of "bind_user u m"] Cons.prems(3) have
      "fold bind_user us (bind_user u m) (u_ExternalID u) = Some (u_ID u)" by (simp add: bind_user_def)
    with v(1) show ?thesis by simp
  qed
qed simp

lemma Start_coherent:
  "distinct (map u_ExternalID (filter (\<lambda>u. u_ExternalID u \<noteq> []) us)) \<Longrightarrow> coherent (Start us)"
  by (simp add: coherent_def Start_def bound_fold)

definition serve_all :: "(string \<Rightarrow> string) \<Rightarrow> request list \<Rightarrow> fake \<Rightarrow> fake" where
  "serve_all sniff rs d = fold (\<lambda>r d. snd (handle sniff r d)) rs d"

lemma serve_all_coherent: "coherent d \<Longrightarrow> coherent (serve_all sniff rs d)"
  unfolding serve_all_def
  by (induction rs arbitrary: d) (auto intro: handle_coherent surjective_pairing)

section \<open>The query\<close>

lemma url_path_host:
  assumes "CHR ''/'' \<notin> set host"
  shows "url_path (''http://'' @ host @ ''/'' @ rest) = CHR ''/'' # unescape False (takeWhile (\<lambda>c. c \<noteq> CHR ''?'') rest)"
proof -
  have "after_scheme (''http://'' @ host @ ''/'' @ rest) = host @ ''/'' @ rest"
    by (simp add: after_scheme_def has_prefix_def)
  moreover have "dropWhile (\<lambda>c. c \<noteq> CHR ''/'') (host @ ''/'' @ rest) = ''/'' @ rest"
    using assms by (subst dropWhile_append2) auto
  ultimately show ?thesis by (simp add: url_path_def unescape_keep del: unescape.simps)
qed

lemma unescape_plain: "\<forall>c \<in> set s. c \<noteq> CHR ''%'' \<and> c \<noteq> CHR ''+'' \<Longrightarrow> unescape q s = s"
  by (induction s) (simp_all add: unescape_keep unescape_Nil del: unescape.simps)

lemma bad_escape_plain: "CHR ''%'' \<notin> set s \<Longrightarrow> \<not> bad_escape s"
  by (induction s) auto

lemma bad_escape_percent: "bad_escape (percent c @ s) = bad_escape s"
proof -
  have h: "upper_hex (upper_digits ! k) \<noteq> None" "upper_digits ! k \<noteq> CHR ''%''" if "k < 16" for k
  proof -
    show "upper_hex (upper_digits ! k) \<noteq> None" using upper_hex_digit [OF that] by simp
    have "\<forall>k \<in> set [0..<16]. upper_digits ! k \<noteq> CHR ''%''" by code_simp
    with that show "upper_digits ! k \<noteq> CHR ''%''" by simp
  qed
  note hi = h [OF nibbles(1) [of c]] and lo = h [OF nibbles(2) [of c]]
  with hi(2) lo(2) show ?thesis
    by (cases "upper_hex (upper_digits ! (of_char c div 16))"; cases "upper_hex (upper_digits ! (of_char c mod 16))")
      (simp_all add: percent_def)
qed

lemma bad_escape_QueryEscape: "\<not> bad_escape (QueryEscape s)"
proof (induction s)
  case (Cons c s)
  have "QueryEscape (c # s) = (if unreserved c then [c] else if c = CHR '' '' then ''+'' else percent c) @ QueryEscape s"
    by (simp add: QueryEscape_def)
  with Cons unreserved_plain [of c] show ?case by (auto simp: bad_escape_percent)
qed (simp add: QueryEscape_def)

lemma QueryEscape_no_semicolon: "CHR '';'' \<notin> set (QueryEscape s)"
proof
  assume "CHR '';'' \<in> set (QueryEscape s)"
  then obtain c where "CHR '';'' \<in> set (if unreserved c then [c] else if c = CHR '' '' then ''+'' else percent c)"
    unfolding QueryEscape_def by (rule escaped_chars)
  then show False
    using percent_chars [of "CHR '';''" c] by (auto simp: unreserved_def upper_digits_def split: if_splits)
qed

lemma itoa_digits: "0 \<le> n \<Longrightarrow> c \<in> set (itoa n) \<Longrightarrow> is_digit c"
  by (auto simp: itoa_def dest: nat_digits_are_digits)

lemma digit_plain: "is_digit c \<Longrightarrow> c \<notin> set ''%+&;=?/''"
  by (auto simp: is_digit_def digit_val_def)

lemma itoa_plain:
  assumes "0 \<le> n"
  shows "unescape q (itoa n) = itoa n" and "\<not> bad_escape (itoa n)"
    and "CHR ''&'' \<notin> set (itoa n)" and "CHR '';'' \<notin> set (itoa n)" and "CHR ''?'' \<notin> set (itoa n)"
proof -
  have plain: "c \<notin> set ''%+&;=?/''" if "c \<in> set (itoa n)" for c
    using digit_plain [OF itoa_digits [OF assms that]] .
  then show "unescape q (itoa n) = itoa n" by (intro unescape_plain) auto
  show "\<not> bad_escape (itoa n)" by (rule bad_escape_plain) (use plain in auto)
  show "CHR ''&'' \<notin> set (itoa n)" "CHR '';'' \<notin> set (itoa n)" "CHR ''?'' \<notin> set (itoa n)"
    using plain by auto
qed

lemma query_pair_assign:
  assumes "\<forall>c \<in> set k. c \<notin> set ''%+=;''" and "CHR '';'' \<notin> set v" and "\<not> bad_escape v"
  shows "query_pair (k @ CHR ''='' # v) = Some (k, unescape True v)"
proof -
  have "takeWhile (\<lambda>c. c \<noteq> CHR ''='') (k @ CHR ''='' # v) = k"
    "dropWhile (\<lambda>c. c \<noteq> CHR ''='') (k @ CHR ''='' # v) = CHR ''='' # v"
    using assms(1) by (simp_all add: takeWhile_append2 dropWhile_append2)
  moreover have "unescape True k = k" by (rule unescape_plain) (use assms(1) in auto)
  moreover have "\<not> bad_escape k" by (rule bad_escape_plain) (use assms(1) in auto)
  ultimately show ?thesis using assms by (auto simp: query_pair_def Let_def)
qed

lemma query_pair_names [simp]:
  assumes "CHR '';'' \<notin> set v" and "\<not> bad_escape v"
  shows "query_pair (''count='' @ v) = Some (''count'', unescape True v)"
    and "query_pair (''filter='' @ v) = Some (''filter'', unescape True v)"
    and "query_pair (''startIndex='' @ v) = Some (''startIndex'', unescape True v)"
  using query_pair_assign [of "''count''", OF _ assms] query_pair_assign [of "''filter''", OF _ assms]
    query_pair_assign [of "''startIndex''", OF _ assms] by simp_all

lemma url_query_page:
  assumes "CHR ''?'' \<notin> set base" and "0 \<le> k" and "0 \<le> n"
  shows "url_query (base @ ''Users?'' @ page_query filt k n) =
    [(''count'', itoa n)] @ (if filt = [] then [] else [(''filter'', filt)]) @ [(''startIndex'', itoa k)]"
proof -
  have "dropWhile (\<lambda>c. c \<noteq> CHR ''?'') (base @ ''Users?'' @ page_query filt k n) = CHR ''?'' # page_query filt k n"
    using assms(1) by (subst dropWhile_append2) auto
  then have u: "url_query (base @ ''Users?'' @ page_query filt k n) =
      List.map_filter query_pair (split_at CHR ''&'' (page_query filt k n))"
    by (simp add: url_query_def)
  have amp: "CHR ''&'' \<notin> set (''count='' @ itoa n)" "CHR ''&'' \<notin> set (''filter='' @ QueryEscape filt)"
    "CHR ''&'' \<notin> set (''startIndex='' @ itoa k)"
    using itoa_plain(3) [OF assms(2)] itoa_plain(3) [OF assms(3)] QueryEscape_chars(1) by auto
  have parts: "split_at CHR ''&'' (page_query filt k n) =
      [''count='' @ itoa n] @ (if filt = [] then [] else [''filter='' @ QueryEscape filt]) @ [''startIndex='' @ itoa k]"
    using split_at_append [OF amp(1)] split_at_append [OF amp(2)] split_at_none [OF amp(3)]
    by (simp add: page_query_def)
  define x y z where "x = ''count='' @ itoa n" and "y = ''filter='' @ QueryEscape filt" and "z = ''startIndex='' @ itoa k"
  have "query_pair x = Some (''count'', itoa n)" "query_pair z = Some (''startIndex'', itoa k)"
    using query_pair_names(1) [OF itoa_plain(4,2) [OF assms(3)]] query_pair_names(3) [OF itoa_plain(4,2) [OF assms(2)]]
      itoa_plain(1) [OF assms(2)] itoa_plain(1) [OF assms(3)]
    by (simp_all only: x_def z_def)
  moreover have "query_pair y = Some (''filter'', filt)"
    using query_pair_names(2) [OF QueryEscape_no_semicolon bad_escape_QueryEscape] unescape_QueryEscape
    by (simp only: y_def)
  ultimately show ?thesis
    unfolding u parts x_def [symmetric] y_def [symmetric] z_def [symmetric] by (simp add: map_filter_simps)
qed

lemma atoi_lax_itoa: "in_int64 n \<Longrightarrow> atoi_lax (itoa n) = n"
proof -
  assume "in_int64 n"
  then have "atoi (itoa n) = Some n" by simp
  then have "signed_text (itoa n) = Some n" by (auto simp: atoi_def signed_text_def Let_def split: option.splits if_splits)
  with \<open>in_int64 n\<close> show ?thesis by (auto simp: atoi_lax_def in_int64_def)
qed

lemma query_get_page:
  assumes "q = [(''count'', itoa n)] @ (if filt = [] then [] else [(''filter'', filt)]) @ [(''startIndex'', itoa k)]"
  shows "query_get q ''count'' = itoa n" and "query_get q ''filter'' = filt" and "query_get q ''startIndex'' = itoa k"
  by (simp_all add: assms query_get_def)

section \<open>One call\<close>

text \<open>A client of the fake, and a fake with nothing queued.\<close>

definition talks_to_fake :: "(string \<Rightarrow> string) \<Rightarrow> string \<Rightarrow> fake client \<Rightarrow> bool" where
  "talks_to_fake sniff host c \<longleftrightarrow>
     (\<forall>ch \<in> set host. ch \<notin> set ''/?#'') \<and> cl_base c = ''http://'' @ host @ ''/'' \<and> cl_token c = Token
     \<and> cl_interval c = 0 \<and> cl_hc c = (\<lambda>r d. case handle sniff r d of (resp, d') \<Rightarrow> (Inr resp, d'))
     \<and> t_Err (cl_t c) = (\<lambda>d. (None, d))"

definition quiet :: "fake \<Rightarrow> bool" where
  "quiet d \<longleftrightarrow> fk_faults d = [] \<and> fk_raws d = []"

definition counted :: "fake \<Rightarrow> fake" where
  "counted d = d\<lparr>fk_requests := Suc (fk_requests d)\<rparr>"

lemma handle_quiet:
  assumes "quiet d" and "header_get (rq_Header r) ''Authorization'' = ''Bearer '' @ Token"
  shows "handle sniff r d = route r (counted d)"
  using assms by (cases d) (simp add: handle_def quiet_def counted_def)

lemma build_request_token: "header_get (rq_Header (build_request c meth target body)) ''Authorization'' = ''Bearer '' @ cl_token c"
proof -
  have "to_lower ''Content-Type'' = ''content-type''" "to_lower ''Accept'' = ''accept''"
    "to_lower ''Authorization'' = ''authorization''"
    by code_simp+
  then show ?thesis by (simp add: build_request_def)
qed

lemma base_talks:
  assumes "talks_to_fake sniff host c"
  shows "base_dir (cl_base c) = ''http://'' @ host @ ''/''" and "CHR ''?'' \<notin> set (base_dir (cl_base c))"
    and "CHR ''/'' \<notin> set host"
proof -
  from assms have host: "\<forall>ch \<in> set host. ch \<notin> set ''/?#''" and base: "cl_base c = ''http://'' @ host @ ''/''"
    unfolding talks_to_fake_def by blast+
  have "\<forall>c \<in> set (''http://'' @ host). c \<notin> set ''?#''" using host by auto
  from base_dir_slash [OF this] show b: "base_dir (cl_base c) = ''http://'' @ host @ ''/''"
    unfolding base append_assoc .
  show "CHR ''?'' \<notin> set (base_dir (cl_base c))" "CHR ''/'' \<notin> set host"
    unfolding b using host by auto
qed

lemma do_from_fake:
  assumes "talks_to_fake sniff host c" and "quiet (env w)"
    and "route (build_request c meth (resolve (cl_base c) ref) body) (counted (env w)) = (resp, d')"
    and "rs_StatusCode resp \<noteq> 429" and "rs_StatusCode resp < 500"
  shows "do_from c meth (resolve (cl_base c) ref) body dec z k w =
    (if 400 \<le> rs_StatusCode resp then Inl (Scim (decodeError resp))
     else read_success meth (resolve (cl_base c) ref) dec z resp, w\<lparr>env := d'\<rparr>)"
proof -
  define target where "target = resolve (cl_base c) ref"
  have t: "cl_interval c = 0" "t_Err (cl_t c) = (\<lambda>d. (None, d))" "cl_token c = Token"
    "cl_hc c = (\<lambda>r d. case handle sniff r d of (resp, d') \<Rightarrow> (Inr resp, d'))"
    using assms(1) by (simp_all add: talks_to_fake_def)
  have "handle sniff (build_request c meth target body) (env w) = (resp, d')"
    using handle_quiet [OF assms(2)] build_request_token [of c] t(3) assms(3) by (simp add: target_def)
  then have "in_env (attempt_once c meth target body dec z) w =
      ((0, False, if 400 \<le> rs_StatusCode resp then Inl (Scim (decodeError resp)) else read_success meth target dec z resp),
       w\<lparr>env := d'\<rparr>)"
    using assms(4,5) by (simp add: in_env_def attempt_once_def t(4))
  moreover have "limiter_wait (cl_t c) (cl_interval c) (cl_sleep c) w = (None, w)"
    by (simp add: limiter_wait_def t(1,2) in_env_def)
  ultimately show ?thesis
    unfolding target_def [symmetric] by (subst do_from.simps) simp
qed

lemmas do_request_fake = do_from_fake [where k = 0, folded do_request_def]

text \<open>What the client reads of an answer written by \<open>writeJSON\<close>.\<close>

lemma json_first_printed: "printable v \<Longrightarrow> json_first (print_json v @ [CHR 0x0A]) = Some v"
  using parse_value_print [of v "Suc (length (print_json v @ [CHR 0x0A]))" "[CHR 0x0A]"]
  by (simp add: json_first_def delimited_def del: parse_value.simps)

lemma read_written:
  assumes "printable v" and "dec v z = Some a"
  shows "read_success meth target dec z (writeJSON [] 200 (Some v)) = Inr a"
proof -
  have "header_get [(''Content-Type'', ContentType)] ''Content-Type'' = ContentType" by simp
  moreover have "contains (to_lower ContentType) ''json''" by code_simp
  ultimately show ?thesis
    using assms by (simp add: read_success_def writeJSON_def Let_def json_first_printed unmarshal_def)
qed

end
