(* ===== verification/Fake_Walk.thy ===== *)
theory Fake_Walk
  imports Fake_Results
begin

text \<open>
  The client's walk end to end over the fake directory: a page, and an invariant rule for the whole
  loop over pages, for any callback, also one that writes to the directory while it is walked.
\<close>

section \<open>A page\<close>

lemma list_answer_printable: "printable (enc_list_response (list_answer i n since users))"
  by (intro printable_list_response)
    (auto simp: list_answer_def Let_def list_all_iff enc_user_def split: option.splits)

lemma page_of_length: "length (page_of i n xs) \<le> length xs"
  by (auto simp: page_of_def Let_def nat_le_iff)

lemma list_answer_ints:
  assumes "in_int64 i" and "int (length users) \<le> int64_max"
  shows "in_int64 (lr_TotalResults (list_answer i n since users))" "in_int64 (lr_StartIndex (list_answer i n since users))"
    "in_int64 (lr_ItemsPerPage (list_answer i n since users))"
proof -
  have m: "int (length (matched since users)) \<le> int (length users)" by (simp add: matched_def)
  moreover have "int (length (page_of i n (matched since users))) \<le> int (length (matched since users))"
    by (simp add: page_of_length)
  ultimately show "in_int64 (lr_TotalResults (list_answer i n since users))"
    "in_int64 (lr_StartIndex (list_answer i n since users))" "in_int64 (lr_ItemsPerPage (list_answer i n since users))"
    using assms by (simp_all add: list_answer_def Let_def in_int64_def int64_min_def)
qed

lemma fake_list_page:
  assumes "CHR ''?'' \<notin> set base" and "in_int64 i" "1 \<le> i" and "in_int64 n" "1 \<le> n" and "\<not> fk_ignoreStartIndex d"
  shows "fake_list (base @ ''Users?'' @ page_query filt i n) d =
    writeJSON [] 200 (Some (enc_list_response (list_answer i n (filter_since filt) (fk_users d))))"
proof -
  have q: "url_query (base @ ''Users?'' @ page_query filt i n) =
      [(''count'', itoa n)] @ (if filt = [] then [] else [(''filter'', filt)]) @ [(''startIndex'', itoa i)]"
    by (rule url_query_page [OF assms(1)]) (use assms in simp_all)
  show ?thesis
    using assms unfolding fake_list_def Let_def query_get_page [OF q] by (simp add: atoi_lax_itoa)
qed

lemma Page_fake:
  assumes talks: "talks_to_fake sniff host c" and "quiet (env w)" and "\<not> fk_ignoreStartIndex (env w)"
    and "in_int64 i" "1 \<le> i" "in_int64 n" "1 \<le> n" and "int (length (fk_users (env w))) \<le> int64_max"
  shows "Page c filt i n w =
    (Inr (list_answer i n (filter_since filt) (fk_users (env w))), w\<lparr>env := counted (env w)\<rparr>)"
proof -
  define base where "base = base_dir (cl_base c)"
  define target where "target = base @ ''Users?'' @ page_query filt i n"
  define lr where "lr = list_answer i n (filter_since filt) (fk_users (env w))"
  have "CHR ''?'' \<notin> set (page_query filt i n)"
    using itoa_plain(5) assms(5,7) QueryEscape_chars(3) [of "CHR ''?''" filt] by (auto simp: page_query_def)
  from resolve_query [OF this] have r: "resolve (cl_base c) (''Users?'' @ page_query filt i n) = target"
    by (simp add: target_def base_def)
  note b = base_talks [OF talks, folded base_def]
  have "takeWhile (\<lambda>c. c \<noteq> CHR ''?'') (''Users?'' @ page_query filt i n) = ''Users''" by simp
  moreover have "unescape False ''Users'' = ''Users''" by code_simp
  ultimately have path: "trim_prefix (url_path target) ''/'' = ''Users''"
    unfolding target_def b(1) append_assoc url_path_host [OF b(3)] by (simp add: trim_prefix_def has_prefix_def)
  have "fake_list target (counted (env w)) = writeJSON [] 200 (Some (enc_list_response lr))"
    unfolding target_def lr_def by (subst fake_list_page [OF b(2)]) (use assms in \<open>simp_all add: counted_def\<close>)
  then have route: "route (build_request c ''GET'' target None) (counted (env w)) =
      (writeJSON [] 200 (Some (enc_list_response lr)), counted (env w))"
    using path by (simp add: route_def build_request_def)
  have status: "rs_StatusCode (writeJSON [] 200 v) = 200" for v by (simp add: writeJSON_def)
  have "dec_list_response (enc_list_response lr) zero_list_response = Some lr"
    unfolding lr_def by (rule dec_enc_list_response) (use list_answer_ints assms(4,8) in blast)+
  then have "do_request c ''GET'' (''Users?'' @ page_query filt i n) None dec_list_response zero_list_response w =
      (Inr lr, w\<lparr>env := counted (env w)\<rparr>)"
    by (subst do_request_fake [OF talks assms(2) route [folded r]])
      (simp_all add: status read_written lr_def list_answer_printable)
  moreover have "SchemaList \<in> set (lr_Schemas lr)" by (simp add: lr_def list_answer_def Let_def)
  ultimately show ?thesis using assms(5,7) by (simp add: Page_def lr_def)
qed

section \<open>The walk\<close>

lemma served_simps [simp]: "u_ID (served u) = u_ID u" "dated (served u) = dated u"
  by (simp_all add: served_def dated_def)

text \<open>
  A walk is proved with an invariant \<open>I j k\<close> of the whole state, for a walk that has sent \<open>j\<close> requests
  and passed \<open>k\<close> of the records \<open>M\<close>. What the callback does to the fake between two pages is its own
  affair, as long as the records it has not passed yet stay as they were.
\<close>

definition untouched_from :: "nat \<Rightarrow> user list \<Rightarrow> string \<Rightarrow> fake \<Rightarrow> bool" where
  "untouched_from k M filt d \<longleftrightarrow> quiet d \<and> \<not> fk_ignoreStartIndex d \<and> (\<forall>u \<in> set (fk_users d). dated u)
     \<and> int (length (fk_users d)) + 8 \<le> int64_max
     \<and> length (matched (filter_since filt) (fk_users d)) = length M
     \<and> drop k (matched (filter_since filt) (fk_users d)) = drop k M"

lemma visit_records_invariant:
  assumes step: "\<And>k s. I k s \<Longrightarrow> k < length M \<Longrightarrow> \<exists>s'. fn (served (M ! k)) s = (None, s') \<and> I (Suc k) s'"
    and "drop k M = us @ rest" and "\<forall>u \<in> set us. dated u" and "I k s"
  shows "\<exists>s'. visit_records fn i n first (map (\<lambda>u. user_json (served u)) us) s =
      (Inr (if n = 0 \<and> us \<noteq> [] then u_ID (hd us) else first), s') \<and> I (k + length us) s'"
  using assms(2-4)
proof (induction us arbitrary: k n first s)
  case (Cons u us)
  have k: "k < length M" using Cons.prems(1) by (rule contrapos_pp) simp
  then have u: "M ! k = u" and rest: "drop (Suc k) M = us @ rest"
    using Cons.prems(1) Cons_nth_drop_Suc [OF k] by simp_all
  obtain s1 where s1: "fn (served u) s = (None, s1)" "I (Suc k) s1" using step [OF Cons.prems(3) k] u by blast
  have dec: "dec_user (user_json (served u)) zero_user = Some (served u)" using Cons.prems(2) by (simp add: dec_user_json)
  obtain s2 where "visit_records fn i (Suc n) (if n = 0 then u_ID u else first) (map (\<lambda>u. user_json (served u)) us) s1 =
      (Inr (if n = 0 then u_ID u else first), s2)" "I (Suc k + length us) s2"
    using Cons.IH [OF rest _ s1(2), of "Suc n" "if n = 0 then u_ID u else first"] Cons.prems(2) by auto
  with s1(1) dec show ?case by (intro exI [of _ s2]) (simp add: unmarshal_def split: if_splits)
qed auto

lemma page_of_take_drop: "page_of (1 + int m) (int p) xs = take p (drop m xs)"
  by (auto simp: page_of_def Let_def)

lemma page_resources:
  assumes "untouched_from m M filt d"
  shows "lr_Resources (list_answer (1 + int m) (int p) (filter_since filt) (fk_users d)) =
    map (\<lambda>u. user_json (served u)) (take p (drop m M))"
    and "\<forall>u \<in> set (take p (drop m M)). dated u"
proof -
  have eq: "drop m (matched (filter_since filt) (fk_users d)) = drop m M" using assms by (simp add: untouched_from_def)
  have "set (take p (drop m M)) \<subseteq> set (fk_users d)"
    unfolding eq [symmetric] by (auto simp: matched_def dest!: in_set_takeD in_set_dropD)
  with assms show dated: "\<forall>u \<in> set (take p (drop m M)). dated u" by (auto simp: untouched_from_def)
  then show "lr_Resources (list_answer (1 + int m) (int p) (filter_since filt) (fk_users d)) =
    map (\<lambda>u. user_json (served u)) (take p (drop m M))"
    by (simp add: list_answer_def Let_def page_of_take_drop eq dated_four_digits)
qed

text \<open>How many requests the rest of a walk takes.\<close>

definition pages_of :: "nat \<Rightarrow> nat \<Rightarrow> nat" where
  "pages_of p n = (if n = 0 then 1 else (n + p - 1) div p)"

lemma pages_of_last: "0 < n \<Longrightarrow> n \<le> p \<Longrightarrow> pages_of p n = 1"
  by (simp add: pages_of_def div_nat_eqI)

lemma pages_of_more: "0 < p \<Longrightarrow> p < n \<Longrightarrow> pages_of p n = Suc (pages_of p (n - p))"
  by (simp add: pages_of_def le_div_geq)

lemma counted_more: "(counted d)\<lparr>fk_requests := fk_requests (counted d) + k\<rparr> = d\<lparr>fk_requests := fk_requests d + Suc k\<rparr>"
  by (simp add: counted_def)

lemma Page_untouched:
  assumes "talks_to_fake sniff host c" and "untouched_from m M filt (env w)" and "0 < p" "int p \<le> int64_max"
    and "m < length M \<or> m = 0"
  obtains lr where "Page c filt (1 + int m) (int p) w = (Inr lr, w\<lparr>env := counted (env w)\<rparr>)"
    "lr_Resources lr = map (\<lambda>u. user_json (served u)) (take p (drop m M))" "lr_TotalResults lr = int (length M)"
proof
  define lr where "lr = list_answer (1 + int m) (int p) (filter_since filt) (fk_users (env w))"
  have total: "length (matched (filter_since filt) (fk_users (env w))) = length M"
    using assms(2) by (simp add: untouched_from_def)
  moreover have "length (matched (filter_since filt) (fk_users (env w))) \<le> length (fk_users (env w))"
    by (simp add: matched_def)
  ultimately have "in_int64 (1 + int m)" "in_int64 (int p)"
    using assms by (auto simp: untouched_from_def in_int64_def int64_min_def)
  then show "Page c filt (1 + int m) (int p) w = (Inr lr, w\<lparr>env := counted (env w)\<rparr>)"
    unfolding lr_def using assms by (intro Page_fake) (simp_all add: untouched_from_def)
  show "lr_Resources lr = map (\<lambda>u. user_json (served u)) (take p (drop m M))"
    unfolding lr_def by (rule page_resources [OF assms(2)])
  show "lr_TotalResults lr = int (length M)" by (simp add: lr_def list_answer_def Let_def total)
qed

lemma untouched_small:
  assumes "untouched_from k M filt d"
  shows "int (length M) + 8 \<le> int64_max"
proof -
  have "length (matched (filter_since filt) (fk_users d)) \<le> length (fk_users d)" by (simp add: matched_def)
  with assms show ?thesis unfolding untouched_from_def by linarith
qed

text \<open>The page limit the first page sets is out of reach of a directory that pages faithfully.\<close>

lemma page_limit:
  fixes p n :: nat
  assumes "0 < p" and "p * pages < n" and "int n + 8 \<le> int64_max"
  shows "wrap64 (int n div int p + 8) = int n div int p + 8" and "int pages + 1 < int n div int p + 8"
proof -
  have "int n div int p \<le> int n" "0 \<le> int n div int p" by (simp_all add: zdiv_int [symmetric] div_le_dividend)
  then show "wrap64 (int n div int p + 8) = int n div int p + 8"
    using assms(3) by (intro wrap64_id) (simp add: in_int64_def int64_min_def)
  have "pages \<le> n div p" using assms(1,2) by (simp add: less_eq_div_iff_mult_less_eq mult.commute)
  then show "int pages + 1 < int n div int p + 8" by (simp add: zdiv_int [symmetric])
qed

lemma first_ids_differ:
  assumes "distinct (map u_ID M)" and "m < length M" and "0 < p"
  shows "u_ID (M ! m) \<notin> u_ID ` set (drop (m + p) M)"
proof -
  have "M ! m \<notin> set (drop (m + p) M)" "inj_on u_ID (set M)"
    using assms by (auto simp: distinct_map in_set_conv_nth nth_eq_iff_index_eq)
  then show ?thesis using assms(2) set_drop_subset [of "m + p" M] by (auto dest: inj_onD)
qed

lemma list_from_invariant:
  fixes p m :: nat and I :: "nat \<Rightarrow> nat \<Rightarrow> 'x \<times> fake net \<times> 's \<Rightarrow> bool"
  assumes talks: "talks_to_fake sniff host c"
    and untouched: "\<And>j k s. I j k s \<Longrightarrow> untouched_from k M filt (env (fst (snd s)))"
    and count: "\<And>j k x w r. I j k (x, w, r) \<Longrightarrow> I (Suc j) k (x, w\<lparr>env := counted (env w)\<rparr>, r)"
    and step: "\<And>j k s. I j k s \<Longrightarrow> k < length M \<Longrightarrow> \<exists>s'. fn (served (M ! k)) s = (None, s') \<and> I j (Suc k) s'"
    and ids: "distinct (map u_ID M)" "\<forall>u \<in> set M. u_ID u \<noteq> []" and p: "0 < p" "int p \<le> int64_max"
    and "m = p * pages" "m < length M \<or> m = 0" and "prev \<notin> u_ID ` set (drop m M)"
    and "maxPages = (if pages = 0 then 0 else int (length M) div int p + 8)" and "I j m s"
  shows "\<exists>s'. list_from c filt (int p) fn (1 + int m) (int pages) maxPages prev scanned s = (None, s')
    \<and> I (j + pages_of p (length M - m)) (length M) s'"
  using assms(9-13)
proof (induction "length M - m" arbitrary: j m pages maxPages prev scanned s rule: less_induct)
  case less
  note m = less.prems(1,2) and prev = less.prems(3) and maxp = less.prems(4) and I = less.prems(5)
  obtain x w r where s: "s = (x, w, r)" by (cases s) auto
  define page where "page = take p (drop m M)"
  note un = untouched [OF I [unfolded s], simplified]
  obtain lr where page_read: "Page c filt (1 + int m) (int p) w = (Inr lr, w\<lparr>env := counted (env w)\<rparr>)"
    and raws: "lr_Resources lr = map (\<lambda>u. user_json (served u)) page" and total: "lr_TotalResults lr = int (length M)"
    unfolding page_def by (rule Page_untouched [OF talks un p m(2)])
  define s1 where "s1 = (x, w\<lparr>env := counted (env w)\<rparr>, r)"
  have fetched: "at_net (Page c filt (1 + int m) (int p)) s = (Inr lr, s1)"
    by (simp add: at_net_def s s1_def page_read)
  have I1: "I (Suc j) m s1" unfolding s1_def by (rule count [OF I [unfolded s]])
  note unfold = list_from.simps [of c filt "int p" fn "1 + int m" "int pages" maxPages prev scanned s, unfolded fetched]
  show ?case
  proof (cases "page = []")
    case True
    then have "m = 0" "M = []" using m(2) p by (auto simp: page_def)
    then show ?thesis using True raws I1 unfolding unfold by (simp add: pages_of_def)
  next
    case False
    have lt: "m < length M" using False by (auto simp: page_def not_less)
    have split: "drop m M = page @ drop (m + p) M"
      using append_take_drop_id [of p "drop m M"] by (simp add: page_def add.commute)
    have dated: "\<forall>u \<in> set page. dated u" unfolding page_def by (rule page_resources(2) [OF un])
    obtain s2 where visit: "visit_records fn (1 + int m) 0 [] (lr_Resources lr) s1 = (Inr (u_ID (hd page)), s2)"
      and I2: "I (Suc j) (m + length page) s2"
      using visit_records_invariant [where I = "I (Suc j)" and fn = fn and i = "1 + int m" and n = 0 and first = "[]",
          OF _ split dated I1] step False unfolding raws by fastforce
    have hd: "hd page = M ! m" using False lt p(1) by (simp add: page_def hd_drop_conv_nth hd_take)
    have "M ! m \<in> set (drop m M)" using lt by (metis Cons_nth_drop_Suc list.set_intros(1))
    then have first: "u_ID (hd page) \<noteq> []" "u_ID (hd page) \<noteq> prev" using ids(2) lt prev by (auto simp: hd)
    have len: "length page = min p (length M - m)" by (simp add: page_def)
    define room where "room = int (length M) div int p + 8"
    have "p * pages < length M" using lt m(1) by simp
    from page_limit [OF p(1) this untouched_small [OF un]] have room: "wrap64 room = room" "int pages + 1 < room"
      by (simp_all add: room_def)
    have cap: "(if maxPages = 0 \<and> 0 < lr_TotalResults lr then wrap64 (lr_TotalResults lr div int p + 8) else maxPages) = room"
      using room(1) lt by (auto simp: maxp total room_def)
    have loop: "list_from c filt (int p) fn (1 + int m) (int pages) maxPages prev scanned s =
      (if int (length page) < int p \<or> int (length M) < 1 + int m + int (length page) then (None, s2)
       else list_from c filt (int p) fn (1 + int m + int (length page)) (int pages + 1) room (u_ID (hd page))
         (scanned + int (length page)) s2)"
      unfolding unfold using False visit first room(2) cap by (simp add: raws Let_def total)
    show ?thesis
    proof (cases "length M - m \<le> p")
      case True
      then have "int (length M) < 1 + int m + int (length page)" "m + length page = length M"
        using lt by (simp_all add: len)
      then show ?thesis using pages_of_last [of "length M - m" p] True lt I2 by (simp add: loop)
    next
      case more: False
      then have n: "length page = p" by (simp add: len)
      have shorter: "length M - (m + p) < length M - m" using lt p(1) by simp
      have next_m: "m + p = p * Suc pages" "m + p < length M \<or> m + p = 0" using m(1) more lt by (simp, linarith)
      have fresh: "u_ID (hd page) \<notin> u_ID ` set (drop (m + p) M)" unfolding hd by (rule first_ids_differ [OF ids(1) lt p(1)])
      have cap': "room = (if Suc pages = 0 then 0 else int (length M) div int p + 8)" by (simp add: room_def)
      from less.hyps [OF shorter next_m fresh cap' I2 [unfolded n], of "scanned + int (length page)"]
      obtain s3 where "list_from c filt (int p) fn (1 + int (m + p)) (int (Suc pages)) room (u_ID (hd page))
          (scanned + int (length page)) s2 = (None, s3)"
        and "I (Suc j + pages_of p (length M - (m + p))) (length M) s3" by blast
      moreover have "pages_of p (length M - m) = Suc (pages_of p (length M - (m + p)))"
        using pages_of_more [of p "length M - m"] more p(1) by simp
      moreover have "\<not> int (length M) < 1 + (int m + int p)" using more lt by linarith
      ultimately show ?thesis by (simp add: loop n add.assoc add.commute [of 1 "int pages"])
    qed
  qed
qed

text \<open>The same for the whole walk, whatever page size the caller asks for.\<close>

definition page_size :: "int \<Rightarrow> int" where
  "page_size psize = (if psize \<le> 0 then client_DefaultPageSize else psize)"

lemma client_ListUsers_invariant:
  assumes talks: "talks_to_fake sniff host c"
    and untouched: "\<And>j k s. I j k s \<Longrightarrow> untouched_from k M filt (env (fst (snd s)))"
    and count: "\<And>j k x w r. I j k (x, w, r) \<Longrightarrow> I (Suc j) k (x, w\<lparr>env := counted (env w)\<rparr>, r)"
    and step: "\<And>j k s. I j k s \<Longrightarrow> k < length M \<Longrightarrow> \<exists>s'. fn (served (M ! k)) s = (None, s') \<and> I j (Suc k) s'"
    and ids: "distinct (map u_ID M)" "\<forall>u \<in> set M. u_ID u \<noteq> []" and "psize \<le> int64_max" and "I 0 0 s"
  shows "\<exists>s'. client_ListUsers c filt psize fn s = (None, s')
    \<and> I (pages_of (nat (page_size psize)) (length M)) (length M) s'"
proof -
  define p where "p = nat (page_size psize)"
  have p: "int p = page_size psize" "0 < p" "int p \<le> int64_max"
    using assms(7) by (simp_all add: p_def page_size_def client_DefaultPageSize_def int64_max_def)
  have "[] \<notin> u_ID ` set (drop 0 M)" using ids(2) by auto
  from list_from_invariant [where I = I and m = 0 and pages = 0 and maxPages = 0 and scanned = 0,
      OF talks untouched count step ids p(2,3) _ _ this _ assms(8)]
  have "\<exists>s'. list_from c filt (int p) fn 1 0 0 [] 0 s = (None, s') \<and> I (pages_of p (length M)) (length M) s'"
    by simp
  then show ?thesis by (simp add: client_ListUsers_def page_size_def [symmetric] p(1) p_def [symmetric])
qed

end
