(* ===== verification/Fake_Records.thy ===== *)
theory Fake_Records
  imports Fake_Walk
begin

text \<open>
  One record end to end: what the client's \<open>GetUser\<close> and \<open>PatchExternalID\<close> return and do over the
  fake directory, refusals included.
\<close>

section \<open>Error answers\<close>

lemma json_whole_printed: "printable v \<Longrightarrow> json_whole (print_json v @ [CHR 0x0A]) = Some v"
  using parse_value_print [of v "Suc (length (print_json v @ [CHR 0x0A]))" "[CHR 0x0A]"]
  by (simp add: json_whole_def delimited_def token_def is_ws_def del: parse_value.simps)

lemma decodeError_written:
  fixes status scimType detail
  defines "e \<equiv> \<lparr>se_Schemas = [SchemaError], se_Status = itoa status, se_ScimType = scimType, se_Detail = detail,
    se_HTTPStatus = 0\<rparr>"
  assumes "length (print_json (enc_scim_error e)) < body_limit"
  shows "decodeError (writeError [] status scimType detail) = e\<lparr>se_HTTPStatus := status\<rparr>"
proof -
  have body: "rs_Body (writeError [] status scimType detail) = print_json (enc_scim_error e) @ [CHR 0x0A]"
    by (simp add: writeError_def writeJSON_def e_def)
  have "read_limited (writeError [] status scimType detail) = Some (print_json (enc_scim_error e) @ [CHR 0x0A])"
    using assms(2) by (simp add: read_limited_def body) (simp add: writeError_def writeJSON_def)
  moreover have "looksLikeSCIM (e\<lparr>se_HTTPStatus := 0\<rparr>)" by (simp add: looksLikeSCIM_def e_def)
  moreover have "rs_StatusCode (writeError [] status scimType detail) = status"
    by (simp add: writeError_def writeJSON_def)
  ultimately show ?thesis
    by (simp add: decodeError_def Let_def json_whole_printed dec_enc_scim_error)
qed

definition unknown_error :: scim_error where
  "unknown_error = \<lparr>se_Schemas = [SchemaError], se_Status = ''404'', se_ScimType = [],
     se_Detail = ''unknown identifier for this partner'', se_HTTPStatus = 404\<rparr>"

definition taken_error :: scim_error where
  "taken_error = \<lparr>se_Schemas = [SchemaError], se_Status = ''409'', se_ScimType = ''uniqueness'',
     se_Detail = ''externalId already assigned to another identity'', se_HTTPStatus = 409\<rparr>"

lemma short_body: "length s < 300 \<Longrightarrow> length s < body_limit"
  by (simp add: body_limit_def)

lemma unknown_NotFound: "NotFound unknown_error"
  by code_simp

lemma decode_unknown: "decodeError unknown_id = unknown_error"
proof -
  have i: "itoa 404 = ''404''" by code_simp
  have "length (print_json (enc_scim_error \<lparr>se_Schemas = [SchemaError], se_Status = ''404'', se_ScimType = [],
      se_Detail = ''unknown identifier for this partner'', se_HTTPStatus = 0\<rparr>)) < 300"
    by code_simp
  from decodeError_written [of 404, unfolded i, OF short_body, OF this] show ?thesis
    by (simp add: unknown_id_def unknown_error_def)
qed

definition taken_answer :: response where
  "taken_answer = writeError [] 409 ''uniqueness'' ''externalId already assigned to another identity''"

lemma taken_Conflict: "Conflict taken_error"
  by code_simp

lemma decode_taken: "decodeError taken_answer = taken_error"
proof -
  have i: "itoa 409 = ''409''" by code_simp
  have "length (print_json (enc_scim_error \<lparr>se_Schemas = [SchemaError], se_Status = ''409'',
      se_ScimType = ''uniqueness'', se_Detail = ''externalId already assigned to another identity'',
      se_HTTPStatus = 0\<rparr>)) < 300"
    by code_simp
  from decodeError_written [of 409, unfolded i, OF short_body, OF this] show ?thesis
    by (simp add: taken_answer_def taken_error_def)
qed

section \<open>A record's address\<close>

lemma record_target:
  assumes "talks_to_fake sniff host c" and "ident \<notin> {''.'', ''..''}"
  shows "trim_prefix (url_path (resolve (cl_base c) (''Users/'' @ PathEscape ident))) ''/'' = ''Users/'' @ ident"
proof -
  have "CHR ''?'' \<notin> set (''Users/'' @ PathEscape ident)" using PathEscape_chars by auto
  note whole = takeWhile_none [OF this]
  have "resolve (cl_base c) (''Users/'' @ PathEscape ident) = ''http://'' @ host @ ''/'' @ ''Users/'' @ PathEscape ident"
    using resolve_record [of ident "cl_base c"] assms(2) base_talks(1) [OF assms(1)] by simp
  then have "url_path (resolve (cl_base c) (''Users/'' @ PathEscape ident)) =
      CHR ''/'' # unescape False (''Users/'' @ PathEscape ident)"
    by (simp only: url_path_host [OF base_talks(3) [OF assms(1)]] whole)
  moreover have "unescape False (''Users/'' @ x) = ''Users/'' @ unescape False x" for x
    by (simp add: unescape_keep del: unescape.simps)
  ultimately show ?thesis
    using trim_prefix_append [of "''/''" "''Users/'' @ ident"]
    by (simp only: unescape_PathEscape append_Cons append_Nil)
qed

section \<open>Reading and writing back\<close>

lemma route_record:
  assumes "trim_prefix (url_path (rq_URL r)) ''/'' = ''Users/'' @ ident"
  shows "rq_Method r = ''GET'' \<Longrightarrow> route r d = (fake_get ident d, d)"
    and "rq_Method r = ''PATCH'' \<Longrightarrow> route r d = fake_patch (rq_Body r) ident d"
proof -
  have "has_prefix (''Users/'' @ ident) ''Users/''" "''Users/'' @ ident \<noteq> ''Users''"
    by (simp_all add: has_prefix_def)
  then show "rq_Method r = ''GET'' \<Longrightarrow> route r d = (fake_get ident d, d)"
    "rq_Method r = ''PATCH'' \<Longrightarrow> route r d = fake_patch (rq_Body r) ident d"
    unfolding route_def Let_def assms trim_prefix_append by simp_all
qed

lemma status_written [simp]: "rs_StatusCode (writeJSON hs n v) = n" "rs_StatusCode (writeError hs n t m) = n"
  by (simp_all add: writeJSON_def writeError_def)

lemma read_user: "dated u \<Longrightarrow> read_success meth target dec_user zero_user (writeJSON [] 200 (Some (user_json u))) = Inr u"
  by (rule read_written) (simp_all add: dec_user_json)

lemma GetUser_fake:
  assumes talks: "talks_to_fake sniff host c" and "quiet (env w)" and "ident \<notin> {''.'', ''..''}"
    and "\<And>u. User ident (env w) = Some u \<Longrightarrow> dated u"
  shows "GetUser c ident w =
    (case User ident (env w) of None \<Rightarrow> Inl (Scim unknown_error) | Some u \<Rightarrow> Inr (served u), w\<lparr>env := counted (env w)\<rparr>)"
proof -
  define target where "target = resolve (cl_base c) (''Users/'' @ PathEscape ident)"
  have path: "trim_prefix (url_path target) ''/'' = ''Users/'' @ ident"
    unfolding target_def by (rule record_target [OF talks assms(3)])
  have d: "User ident (counted (env w)) = User ident (env w)" by (simp add: User_def counted_def)
  have route: "route (build_request c ''GET'' target None) (counted (env w)) =
      (fake_get ident (counted (env w)), counted (env w))"
    by (rule route_record(1)) (simp_all only: build_request_def request.simps path)
  have ok: "rs_StatusCode (fake_get ident (counted (env w))) \<noteq> 429" "rs_StatusCode (fake_get ident (counted (env w))) < 500"
    by (simp_all add: fake_get_def unknown_id_def split: option.splits)
  note call = do_request_fake [OF talks assms(2) route [unfolded target_def] ok, where dec = dec_user and z = zero_user]
  show ?thesis
  proof (cases "User ident (env w)")
    case None
    then have "fake_get ident (counted (env w)) = unknown_id" by (simp add: fake_get_def d)
    with call None show ?thesis by (simp add: GetUser_def decode_unknown) (simp add: unknown_id_def)
  next
    case (Some u)
    then have u: "dated u" by (rule assms(4))
    then have "fake_get ident (counted (env w)) = writeJSON [] 200 (Some (user_json (served u)))"
      by (simp add: fake_get_def d Some dated_four_digits)
    with call Some read_user u show ?thesis by (simp add: GetUser_def)
  qed
qed

text \<open>What an accepted write-back makes of the record.\<close>

definition rebound :: "string \<Rightarrow> user \<Rightarrow> user" where
  "rebound x u = set_modified (LastModified u + second) (u\<lparr>u_ExternalID := x\<rparr>)"

lemma served_rebound_fields [simp]:
  "u_ExternalID (served u) = u_ExternalID u" "u_Active (served u) = u_Active u" "LastModified (served u) = LastModified u"
  "u_DisplayName (served u) = u_DisplayName u" "u_UserName (served u) = u_UserName u" "u_Emails (served u) = u_Emails u"
  "u_ExternalID (rebound x u) = x" "u_ID (rebound x u) = u_ID u" "u_Active (rebound x u) = u_Active u"
  by (simp_all add: served_def rebound_def set_modified_def)

lemma find_map_key: "(\<And>x. key (f x) = key x) \<Longrightarrow> find (\<lambda>x. key x = k) (map f xs) = map_option f (find (\<lambda>x. key x = k) xs)"
  by (induction xs) auto

lemma User_assign: "User ident (assign ident x d) = map_option (rebound x) (User ident d)"
proof -
  define f where "f = (\<lambda>u. if u_ID u = ident then rebound x u else u)"
  have key: "u_ID (f u) = u_ID u" for u by (simp add: f_def rebound_def)
  have "fk_users (assign ident x d) = map f (fk_users d)"
    by (simp add: assign_def f_def rebound_def)
  then have "User ident (assign ident x d) = map_option f (User ident d)"
    using find_map_key [of u_ID f, OF key] by (simp add: User_def)
  also have "\<dots> = map_option (rebound x) (User ident d)"
    by (rule option.map_cong0) (auto simp: User_def f_def find_Some_iff)
  finally show ?thesis .
qed

lemma read_external_patch: "read_patch (Some (print_json (enc_patch_op (NewExternalIDPatch x)))) = Some (NewExternalIDPatch x)"
proof -
  define v where "v = enc_patch_op (NewExternalIDPatch x)"
  have "printable v" by (simp add: v_def enc_patch_op_def enc_operation_def NewExternalIDPatch_def)
  then have "json_first (print_json v) = Some v"
    using parse_value_print [of v "Suc (length (print_json v))" "[]"] by (simp add: json_first_def del: parse_value.simps)
  moreover have "dec_patch_op v zero_patch_op = Some (NewExternalIDPatch x)"
    unfolding v_def by (rule dec_enc_patch_op) (simp add: NewExternalIDPatch_def plain_value_def)
  ultimately show ?thesis by (simp add: read_patch_def v_def)
qed

lemma fake_patch_external:
  assumes "User ident d = Some u"
  shows "fake_patch (Some (print_json (enc_patch_op (NewExternalIDPatch x)))) ident d =
    (if fk_bound d x \<in> {None, Some ident}
     then (writeJSON [] 200 (enc_user (served (rebound x u))), assign ident x d)
     else (taken_answer, d))"
proof -
  have ops: "patch_ops ident (po_Operations (NewExternalIDPatch x)) d =
      (if fk_bound d x \<in> {None, Some ident} then (None, assign ident x d) else (Some taken_answer, d))"
    by (simp add: NewExternalIDPatch_def string_value_def taken_answer_def)
  show ?thesis
    unfolding fake_patch_def read_external_patch option.case ops by (simp add: assms User_assign)
qed

lemma write_back_fake:
  assumes talks: "talks_to_fake sniff host c" and "quiet (env w)" and "ident \<notin> {''.'', ''..''}"
    and "User ident (env w) = Some u" and "dated (rebound x u)" and "x \<noteq> []"
  shows "client_PatchExternalID c ident x w =
    (if fk_bound (env w) x \<in> {None, Some ident}
     then (Inr (served (rebound x u)), w\<lparr>env := assign ident x (counted (env w))\<rparr>)
     else (Inl (Scim taken_error), w\<lparr>env := counted (env w)\<rparr>))"
proof -
  define target where "target = resolve (cl_base c) (''Users/'' @ PathEscape ident)"
  define body where "body = print_json (enc_patch_op (NewExternalIDPatch x))"
  have path: "trim_prefix (url_path target) ''/'' = ''Users/'' @ ident"
    unfolding target_def by (rule record_target [OF talks assms(3)])
  have d: "User ident (counted (env w)) = Some u" "fk_bound (counted (env w)) = fk_bound (env w)"
    using assms(4) by (simp_all add: User_def counted_def)
  have "route (build_request c ''PATCH'' target (Some body)) (counted (env w)) = fake_patch (Some body) ident (counted (env w))"
    using route_record(2) [of "build_request c ''PATCH'' target (Some body)" ident "counted (env w)"] path
    by (simp only: build_request_def request.simps)
  also have "\<dots> = (if fk_bound (env w) x \<in> {None, Some ident}
     then (writeJSON [] 200 (Some (user_json (served (rebound x u)))), assign ident x (counted (env w)))
     else (taken_answer, counted (env w)))"
    using fake_patch_external [OF d(1), of x] assms(5) by (simp add: body_def d(2) dated_four_digits)
  finally have route: "route (build_request c ''PATCH'' target (Some body)) (counted (env w)) = \<dots>" .
  have call: "client_PatchExternalID c ident x w = do_request c ''PATCH'' (''Users/'' @ PathEscape ident) (Some body) dec_user zero_user w"
    using assms(6) by (simp add: client_PatchExternalID_def Patch_def body_def)
  show ?thesis
  proof (cases "fk_bound (env w) x \<in> {None, Some ident}")
    case True
    note r = route [unfolded if_P [OF True]]
    show ?thesis unfolding call
      by (subst do_request_fake [OF talks assms(2) r [unfolded target_def]])
        (use True assms(5) in \<open>simp_all add: read_user\<close>)
  next
    case False
    note r = route [unfolded if_not_P [OF False]]
    have "rs_StatusCode taken_answer = 409" by (simp add: taken_answer_def)
    then show ?thesis unfolding call
      by (subst do_request_fake [OF talks assms(2) r [unfolded target_def]])
        (use False in \<open>simp_all add: decode_taken\<close>)
  qed
qed

end
