(* ===== verification/Fake_Properties.thy ===== *)
theory Fake_Properties
  imports Fake_Records Reconciler
begin

text \<open>
  The properties of the client and the fake directory together, through the JSON text and the
  URLs they exchange.
\<close>

section \<open>A directory and its client\<close>

definition demo_person :: "string \<Rightarrow> time \<Rightarrow> user" where
  "demo_person i t = zero_user\<lparr>u_Schemas := [SchemaUser], u_ID := i, u_UserName := i @ ''@pharmacy.test'',
     u_Active := Some True, u_Meta := \<lparr>m_ResourceType = ''User'', m_Created = second, m_LastModified = t\<rparr>\<rparr>"

definition demo_fake :: fake where
  "demo_fake = Start [demo_person ''a'' (10 * second), demo_person ''b'' (20 * second), demo_person ''c'' (30 * second)]"

definition fake_transport :: "fake transport" where
  "fake_transport =
     \<lparr>t_Do = (\<lambda>r d. case handle (\<lambda>_. ''text/plain'') r d of (resp, d') \<Rightarrow> (Inr resp, d')), t_Err = (\<lambda>d. (None, d)),
      t_Timer = (\<lambda>_ d. (True, d)), t_Now = (\<lambda>d. (0, d)), t_Rand = (\<lambda>_ d. (0, d))\<rparr>"

definition fake_options :: "fake client_options" where
  "fake_options = \<lparr>co_BaseURL = ''http://127.0.0.1:8080'', co_Token = Token, co_HTTPClient = None,
     co_MaxRetries = 0, co_RequestsPerSecond = 0, co_UserAgent = [], co_Sleep = None, co_Backoff = None\<rparr>"

definition fake_client :: "fake client" where
  "fake_client = projr (client_New fake_transport fake_options)"

lemma fake_client_fields:
  "cl_base fake_client = ''http://'' @ ''127.0.0.1:8080'' @ ''/''" "cl_token fake_client = Token"
  "cl_interval fake_client = 0" "cl_hc fake_client = t_Do fake_transport" "cl_t fake_client = fake_transport"
    "cl_maxRetries fake_client = 4"
proof -
  have base: "trim_right_slash ''http://127.0.0.1:8080'' @ ''/'' = ''http://'' @ ''127.0.0.1:8080'' @ ''/''"
    and ok: "\<not> parse_refused (''http://'' @ ''127.0.0.1:8080'' @ ''/'')"
    by code_simp+
  have "Token \<noteq> []" "newLimiter 0 = 0" by (simp_all add: Token_def newLimiter_def)
  then show "cl_base fake_client = ''http://'' @ ''127.0.0.1:8080'' @ ''/''" "cl_token fake_client = Token"
    "cl_interval fake_client = 0" "cl_hc fake_client = t_Do fake_transport" "cl_t fake_client = fake_transport"
    "cl_maxRetries fake_client = 4"
    unfolding fake_client_def client_New_def Let_def
    using ok by (simp_all add: fake_options_def base [unfolded append.simps])
qed

lemma fake_client_talks: "talks_to_fake (\<lambda>_. ''text/plain'') ''127.0.0.1:8080'' fake_client"
  by (simp add: talks_to_fake_def fake_client_fields) (simp add: fake_transport_def)

text \<open>Records the fake serves and a walk can read: times that fit their JSON form, ids that are
  there and differ, and a directory of fewer than \<open>2^63\<close> records.\<close>

definition servable :: "fake \<Rightarrow> bool" where
  "servable d \<longleftrightarrow> (\<forall>u \<in> set (fk_users d). dated u \<and> u_ID u \<noteq> []) \<and> distinct (map u_ID (fk_users d))
     \<and> int (length (fk_users d)) + 8 \<le> int64_max \<and> quiet d \<and> \<not> fk_ignoreStartIndex d"

section \<open>Reading\<close>

text \<open>The callback that keeps what it is given.\<close>

definition collect :: "user \<Rightarrow> user list \<times> fake net \<times> 's \<Rightarrow> goerror option \<times> user list \<times> fake net \<times> 's" where
  "collect u s = (None, fst s @ [u], snd s)"

lemma servable_untouched:
  assumes "servable d"
  shows "untouched_from k (matched (filter_since filt) (fk_users d)) filt (d\<lparr>fk_requests := n\<rparr>)"
  using assms by (auto simp: servable_def untouched_from_def quiet_def)

lemma matched_ids:
  assumes "servable d"
  shows "distinct (map u_ID (matched since (fk_users d)))" and "\<forall>u \<in> set (matched since (fk_users d)). u_ID u \<noteq> []"
  using assms by (auto simp: matched_def servable_def distinct_map intro: inj_on_subset)

lemma walk_is_filter_core:
  assumes "talks_to_fake sniff host c" and "servable (env w)" and "psize \<le> int64_max"
  shows "client_ListUsers c filt psize collect ([], w, r) =
    (None, map served (matched (filter_since filt) (fk_users (env w))),
     w\<lparr>env := (env w)\<lparr>fk_requests := fk_requests (env w)
       + pages_of (nat (page_size psize)) (length (matched (filter_since filt) (fk_users (env w))))\<rparr>\<rparr>, r)"
proof -
  define M where "M = matched (filter_since filt) (fk_users (env w))"
  define I where "I j k s \<longleftrightarrow>
      s = (map served (take k M), w\<lparr>env := (env w)\<lparr>fk_requests := fk_requests (env w) + j\<rparr>\<rparr>, r)" for j k s
  have "\<exists>s'. client_ListUsers c filt psize collect ([], w, r) = (None, s')
      \<and> I (pages_of (nat (page_size psize)) (length M)) (length M) s'"
  proof (rule client_ListUsers_invariant [OF assms(1)])
    show "untouched_from k M filt (env (fst (snd s)))" if "I j k s" for j k s
      using that servable_untouched [OF assms(2)] by (simp add: I_def M_def)
    show "\<exists>s'. collect (served (M ! k)) s = (None, s') \<and> I j (Suc k) s'" if "I j k s" "k < length M" for j k s
      using that by (simp add: I_def collect_def take_Suc_conv_app_nth)
    show "distinct (map u_ID M)" "\<forall>u \<in> set M. u_ID u \<noteq> []"
      unfolding M_def by (rule matched_ids [OF assms(2)])+
  qed (use assms(3) in \<open>simp_all add: I_def counted_def\<close>)
  then show ?thesis by (simp add: I_def M_def)
qed

text \<open>C36: A walk of the directory is its filter applied once: whatever the page size, the client
  hands over exactly the records that match, each once and in the directory's order, with one
  request for each page they fill.\<close>

theorem walk_is_filter:
  assumes "talks_to_fake sniff host c" and "servable (env w)" and "psize \<le> int64_max"
  shows "client_ListUsers c filt psize collect ([], w, r) =
    (None, map served (matched (filter_since filt) (fk_users (env w))),
     w\<lparr>env := (env w)\<lparr>fk_requests := fk_requests (env w)
       + pages_of (nat (page_size psize)) (length (matched (filter_since filt) (fk_users (env w))))\<rparr>\<rparr>, r)"
  by (rule walk_is_filter_core [OF assms])

lemma demo_servable: "servable (env \<lparr>lim_next = 0, env = demo_fake\<rparr>)"
  by (simp add: servable_def demo_fake_def Start_def demo_person_def dated_def quiet_def max_rfc3339_def
      days_before_year_def seconds_per_day_def second_def int64_max_def)

theorem walk_is_filter_witness:
  "fst (snd (client_ListUsers fake_client [] 2 collect ([], \<lparr>lim_next = 0, env = demo_fake\<rparr>, ()))) =
     map served [demo_person ''a'' (10 * second), demo_person ''b'' (20 * second), demo_person ''c'' (30 * second)]"
  using walk_is_filter [OF fake_client_talks demo_servable, of 2 "[]" "()"]
  by (simp add: int64_max_def matched_def filter_since_def is_zero_def demo_fake_def Start_def)

text \<open>The filter the reconciler writes is the one the directory reads.\<close>

lemma format_clock_no_quote: "CHR 0x22 \<notin> set (format_rfc3339 t)"
proof -
  have "CHR 0x22 \<notin> set (pad w n)" for w n
    using pad_digits [of "CHR 0x22" w n] by (auto simp: is_digit_def digit_val_def)
  then show ?thesis by (auto simp: format_rfc3339_def format_clock_def Let_def split: prod.splits)
qed

lemma filterRE_incremental:
  "filterRE (''meta.lastModified gt '' @ CHR 0x22 # format_rfc3339 t @ [CHR 0x22]) = Some (format_rfc3339 t)"
proof -
  have ne: "format_rfc3339 t \<noteq> []" by (simp add: format_rfc3339_def)
  have v: "takeWhile (\<lambda>c. c \<noteq> CHR 0x22) (format_rfc3339 t @ [CHR 0x22]) = format_rfc3339 t"
    "dropWhile (\<lambda>c. c \<noteq> CHR 0x22) (format_rfc3339 t @ [CHR 0x22]) = [CHR 0x22]"
    using format_clock_no_quote by (subst takeWhile_append2 dropWhile_append2; fastforce)+
  have "filter_here (''meta.lastModified'' @ '' '' @ ''gt'' @ '' '' @ [CHR 0x22] @ format_rfc3339 t @ [CHR 0x22]) =
      Some (format_rfc3339 t)"
    unfolding filter_here_def expect_append by (simp add: re_spaces_def is_re_space_def expect_def has_prefix_def v ne)
  then show ?thesis by simp
qed

lemma filter_since_incremental:
  assumes "\<not> is_zero cp" and "0 \<le> cp - overlap s" and "cp - overlap s < max_rfc3339"
  shows "filter_since (incremental_filter s cp) = cp - overlap s - (cp - overlap s) mod second"
  using assms filterRE_incremental [of "cp - overlap s"] parse_format_rfc3339 [OF assms(2,3)]
  by (simp add: filter_since_def incremental_filter_def quote_def)

text \<open>C37: An incremental walk reads every record the directory changed after the checkpoint less
  the overlap, and none that was last changed more than a second before that.\<close>

theorem incremental_walk_exact:
  assumes "talks_to_fake sniff host c" and "servable (env w)" and "psize \<le> int64_max"
    and "\<not> is_zero cp" and "second \<le> cp - overlap s" and "cp - overlap s < max_rfc3339"
  defines "since \<equiv> cp - overlap s - (cp - overlap s) mod second"
  shows "fst (snd (client_ListUsers c (incremental_filter s cp) psize collect ([], w, r))) =
      map served (filter (\<lambda>u. since < LastModified u) (fk_users (env w)))
    \<and> since \<le> cp - overlap s \<and> cp - overlap s < since + second"
proof -
  have since: "filter_since (incremental_filter s cp) = since"
    unfolding since_def by (rule filter_since_incremental) (use assms in \<open>simp_all add: second_def\<close>)
  have "0 \<le> (cp - overlap s) mod second" "(cp - overlap s) mod second < second" by (simp_all add: second_def)
  moreover have "second \<le> since + (cp - overlap s) mod second" using assms(5) by (simp add: since_def)
  ultimately have bounds: "since \<le> cp - overlap s" "cp - overlap s < since + second" "since \<noteq> 0"
    unfolding since_def by linarith+
  then have "matched since us = filter (\<lambda>u. since < LastModified u) us" for us
    by (simp add: matched_def is_zero_def zero_time_def after_def)
  with since bounds show ?thesis by (simp add: walk_is_filter_core [OF assms(1-3)])
qed

definition demo_reader :: "unit syncer" where
  "demo_reader = \<lparr>dir = \<lparr>ListUsers = (\<lambda>_ _ _ w. (None, w)), PatchExternalID = (\<lambda>_ _ w. (Inl (Plain []), w))\<rparr>,
     st = \<lparr>HelpperByDirectoryID = (\<lambda>_ w. (Inl (Plain []), w)), CreateHelpper = (\<lambda>_ w. (Inl (Plain []), w)),
       UpdateHelpper = (\<lambda>_ _ w. (None, w)), EnabledHelppers = (\<lambda>w. (Inr [], w)), Checkpoint = (\<lambda>w. (Inr 0, w)),
       SetCheckpoint = (\<lambda>_ w. (None, w)), Ephemeral = None\<rparr>,
     pageSize = 2, overlap = 5 * second, maxMalformed = 25, futureSkew = 0, dryRun = False, now = (\<lambda>w. (0, w))\<rparr>"

theorem incremental_walk_exact_witness:
  "fst (snd (client_ListUsers fake_client (incremental_filter demo_reader (25 * second + 7)) 2 collect
      ([], \<lparr>lim_next = 0, env = demo_fake\<rparr>, ()))) = map served [demo_person ''c'' (30 * second)]"
proof -
  have o: "overlap demo_reader = 5 * second" by (simp add: demo_reader_def)
  from incremental_walk_exact [OF fake_client_talks demo_servable, of 2 "25 * second + 7" demo_reader "()"] show ?thesis
    by (simp add: o int64_max_def is_zero_def zero_time_def max_rfc3339_def days_before_year_def seconds_per_day_def
        second_def demo_fake_def Start_def demo_person_def)
qed

section \<open>Writing\<close>

text \<open>C38: What the directory prints of a record, the client reads as that record: no field is lost
  or changed on the wire, the missing flag included.\<close>

theorem user_survives_the_wire:
  assumes "dated u"
  shows "\<exists>v. enc_user u = Some v \<and> json_first (print_json v @ [CHR 0x0A]) = Some v \<and> dec_user v zero_user = Some u"
  using dated_four_digits [OF assms] dec_user_json [OF assms] json_first_printed [OF printable_user] by blast

theorem user_survives_the_wire_witness:
  "\<exists>v. enc_user (demo_person ''a'' 1) = Some v \<and> dec_user v zero_user = Some (demo_person ''a'' 1)"
  using user_survives_the_wire [of "demo_person ''a'' 1"]
  by (auto simp: dated_def demo_person_def max_rfc3339_def days_before_year_def seconds_per_day_def second_def)

text \<open>C39: A write-back takes effect or is refused, never in between: the value is bound to the
  identity and is what the record reads from then on, unless another identity has it, in which
  case the client gets the conflict and the directory keeps every record.\<close>

theorem write_back_end_to_end:
  assumes "talks_to_fake sniff host c" and "quiet (env w)" and "ident \<notin> {''.'', ''..''}"
    and "User ident (env w) = Some u" and "dated u" and "dated (rebound x u)" and "x \<noteq> []"
    and "client_PatchExternalID c ident x w = (res, w')" and "GetUser c ident w' = (got, w'')"
  shows "if fk_bound (env w) x \<in> {None, Some ident}
     then res = Inr (served (rebound x u)) \<and> got = res \<and> fk_bound (env w') x = Some ident
       \<and> fk_patches (env w') = fk_patches (env w) @ [\<lparr>pk_ID = ident, pk_ExternalID = x\<rparr>]
     else (\<exists>e. res = Inl (Scim e) \<and> Conflict e) \<and> got = Inr (served u)
       \<and> fk_users (env w') = fk_users (env w) \<and> fk_bound (env w') = fk_bound (env w)"
proof -
  note wrote = write_back_fake [OF assms(1-4,6,7)] assms(8)
  have counted: "User ident (counted (env w)) = Some u" "quiet (counted (env w))"
    using assms(2,4) by (simp_all add: User_def counted_def quiet_def)
  have assigned: "quiet (assign ident x d) = quiet d" for d by (simp add: quiet_def assign_def)
  show ?thesis
  proof (cases "fk_bound (env w) x \<in> {None, Some ident}")
    case True
    with wrote have w': "res = Inr (served (rebound x u))" "env w' = assign ident x (counted (env w))" by auto
    have user: "User ident (env w') = Some (rebound x u)" by (simp add: w'(2) User_assign counted(1))
    have "quiet (env w')" using counted(2) by (simp add: w'(2) assigned)
    with GetUser_fake [OF assms(1) this assms(3)] user assms(6,9) have "got = Inr (served (rebound x u))" by simp
    with True w' show ?thesis by (simp add: assign_def counted_def)
  next
    case False
    with wrote have w': "res = Inl (Scim taken_error)" "env w' = counted (env w)" by auto
    with GetUser_fake [of sniff host c w' ident] assms(1,3,5,9) counted have "got = Inr (served u)" by simp
    with False w' taken_Conflict show ?thesis by (simp add: counted_def)
  qed
qed

theorem write_back_end_to_end_witness:
  "(case client_PatchExternalID fake_client ''a'' ''900001'' \<lparr>lim_next = 0, env = demo_fake\<rparr> of
      (res, w') \<Rightarrow> res = Inr (served (rebound ''900001'' (demo_person ''a'' (10 * second)))))
   \<and> (\<exists>e. fst (client_PatchExternalID fake_client ''a'' ''900001''
          \<lparr>lim_next = 0, env = Bind ''900001'' ''b'' demo_fake\<rparr>) = Inl (Scim e) \<and> Conflict e)"
proof -
  define u where "u = demo_person ''a'' (10 * second)"
  have dated: "dated u" "dated (rebound ''900001'' u)"
    by (simp_all add: u_def dated_def rebound_def set_modified_def demo_person_def max_rfc3339_def days_before_year_def
        seconds_per_day_def second_def)
  have user: "User ''a'' (env w) = Some u" "quiet (env w)" if "env w \<in> {demo_fake, Bind ''900001'' ''b'' demo_fake}"
    for w :: "fake net"
    using that by (auto simp: User_def u_def demo_fake_def Bind_def Start_def demo_person_def quiet_def)
  have run: "if fk_bound (env w) ''900001'' \<in> {None, Some ''a''}
      then fst (client_PatchExternalID fake_client ''a'' ''900001'' w) = Inr (served (rebound ''900001'' u))
      else \<exists>e. fst (client_PatchExternalID fake_client ''a'' ''900001'' w) = Inl (Scim e) \<and> Conflict e"
    if "env w \<in> {demo_fake, Bind ''900001'' ''b'' demo_fake}" for w :: "fake net"
  proof -
    obtain res w' where wrote: "client_PatchExternalID fake_client ''a'' ''900001'' w = (res, w')" by fastforce
    obtain got w'' where read: "GetUser fake_client ''a'' w' = (got, w'')" by fastforce
    have id: "''a'' \<notin> {''.'', ''..''}" "''900001'' \<noteq> ([] :: string)" by simp_all
    from write_back_end_to_end [OF fake_client_talks user(2) [OF that] id(1) user(1) [OF that] dated id(2) wrote read]
    show ?thesis by (simp add: wrote split: if_splits)
  qed
  from run [of "\<lparr>lim_next = 0, env = demo_fake\<rparr>"] run [of "\<lparr>lim_next = 0, env = Bind ''900001'' ''b'' demo_fake\<rparr>"]
  show ?thesis
    by (auto simp: u_def demo_fake_def Start_def bind_user_def demo_person_def zero_user_def Bind_def split: prod.splits)
qed

end
