(* ===== verification/Fake_Sync.thy ===== *)
theory Fake_Sync
  imports Fake_Properties Client_Contract Store_Suite
begin

text \<open>
  The reconciler's step over the real client, the client over the fake directory, and a store that
  keeps the contract and answers: what it takes for a record and its account to be in step, and that
  \<open>apply\<close> brings them there, whichever branch it takes.
\<close>

section \<open>Both sides in step\<close>

text \<open>The account is as the record asks, and the record carries the account's id.\<close>

definition in_step :: "table \<Rightarrow> user \<Rightarrow> bool" where
  "in_step T u \<longleftrightarrow> (validate u = [] \<longrightarrow>
     desired u (T (u_ID u)) \<and> (case T (u_ID u) of None \<Rightarrow> True | Some h \<Rightarrow> u_ExternalID u = h_ID h))"

text \<open>The directory knows no ids but those of the accounts they were issued for.\<close>

definition own_ids :: "(string \<rightharpoonup> string) \<Rightarrow> table \<Rightarrow> bool" where
  "own_ids bound T \<longleftrightarrow> (\<forall>x i. bound x = Some i \<longrightarrow> (\<exists>h. T i = Some h \<and> h_ID h = x))"

text \<open>A record that can be addressed, and whose timestamp has room for the second a write adds.\<close>

definition writable :: "user \<Rightarrow> bool" where
  "writable u \<longleftrightarrow> u_ID u \<notin> {''.'', ''..''} \<and> dated (rebound [] u)"

definition steady_clock :: "'n client \<Rightarrow> bool" where
  "steady_clock c \<longleftrightarrow> (\<forall>d. snd (t_Now (cl_t c) d) = d)"

definition malformed_in :: "user list \<Rightarrow> nat" where
  "malformed_in us = length (filter (\<lambda>u. validate u \<noteq> []) us)"

definition tolerates :: "'w syncer \<Rightarrow> nat \<Rightarrow> bool" where
  "tolerates s n \<longleftrightarrow> maxMalformed s < 0 \<or> int n \<le> maxMalformed s"

lemma tolerates_mono: "tolerates s n \<Longrightarrow> m \<le> n \<Longrightarrow> tolerates s m"
  by (auto simp: tolerates_def)

text \<open>What the reconciler looks at, other than the external id, stays the same in both.\<close>

definition same_person :: "user \<Rightarrow> user \<Rightarrow> bool" where
  "same_person u v \<longleftrightarrow> u_ID u = u_ID v \<and> u_UserName u = u_UserName v \<and> u_Emails u = u_Emails v
     \<and> u_DisplayName u = u_DisplayName v \<and> u_Active u = u_Active v"

lemma same_person_view:
  assumes "same_person u v"
  shows "PrimaryEmail u = PrimaryEmail v" and "validate u = validate v" and "desired u a = desired v a"
proof -
  show p: "PrimaryEmail u = PrimaryEmail v" using assms by (auto simp: PrimaryEmail_def same_person_def split: option.split list.split)
  with assms show "validate u = validate v" "desired u a = desired v a"
    by (simp_all add: validate_def desired_def same_person_def split: option.split)
qed

lemma served_person: "same_person (served u) u"
  by (simp add: same_person_def served_def)

lemma rebound_person: "same_person (rebound x u) u"
  by (simp add: same_person_def rebound_def set_modified_def)

lemmas served_view [simp] = same_person_view [OF served_person]
lemmas rebound_view [simp] = same_person_view [OF rebound_person]

lemma in_step_served [simp]: "in_step T (served u) = in_step T u"
  by (simp add: in_step_def split: option.split)

lemma dated_rebound: "dated (rebound x u) = dated (rebound y u)"
  by (simp add: dated_def rebound_def set_modified_def)

lemma map_one: "distinct (map key us) \<Longrightarrow> k < length us \<Longrightarrow>
    map (\<lambda>u. if key u = key (us ! k) then f u else u) us = us[k := f (us ! k)]"
  by (rule nth_equalityI) (auto simp: nth_list_update distinct_conv_nth)

lemma assign_at:
  assumes "distinct (map u_ID (fk_users d))" and "k < length (fk_users d)"
  shows "fk_users (assign (u_ID (fk_users d ! k)) x d) = (fk_users d)[k := rebound x (fk_users d ! k)]"
  unfolding map_one [OF assms, of "rebound x", symmetric] by (simp add: assign_def rebound_def)

lemma User_at:
  assumes "distinct (map u_ID (fk_users d))" and "k < length (fk_users d)"
  shows "User (u_ID (fk_users d ! k)) d = Some (fk_users d ! k)"
proof -
  have "find (\<lambda>u. u_ID u = u_ID (us ! k)) us = Some (us ! k)" if "distinct (map u_ID us)" "k < length us" for us
    using that
  proof (induction us arbitrary: k)
    case (Cons v us)
    then show ?case by (cases k) (auto dest: nth_mem)
  qed simp
  with assms show ?thesis by (simp add: User_def)
qed

section \<open>The callback\<close>

text \<open>Once \<open>apply\<close> has returned a record, only the limit on unusable ones can end the walk.\<close>

lemma callback_continues:
  assumes "apply_record s u (run_of x w) = (Inr rec, r)" and "benign observe"
    and "validate u \<noteq> [] \<Longrightarrow> tolerates s (Malformed (r_stats r))"
  shows "\<exists>x'. walk_callback s observe u (x, w) = (None, x', r_world r) \<and> wk_stats x' = r_stats r"
proof -
  have m: "malformed rec = (validate u \<noteq> [])" by (rule apply_malformed_flag [OF assms(1)])
  define x1 where "x1 = x\<lparr>wk_stats := r_stats r, wk_alerts := r_alerts r\<rparr>"
  define x2 where "x2 = (case observe of None \<Rightarrow> x1 | Some f \<Rightarrow> f u rec x1)"
  have x2: "wk_stats x2 = r_stats r" using assms(2) by (auto simp: x2_def x1_def benign_def split: option.splits)
  have "walk_callback s observe u (x, w) =
      (None, if malformed rec then note_malformed u x2 else note_usable u x2, r_world r)"
    unfolding walk_callback_def fst_conv snd_conv assms(1) Let_def x1_def [symmetric] x2_def [symmetric] prod.case sum.case
    using assms(3) x2 by (cases "validate u = []") (auto simp: m tolerates_def)
  then show ?thesis using x2 by simp
qed

lemma callback_malformed:
  assumes "validate u \<noteq> []" and "tolerates s (Suc (Malformed (wk_stats x)))" and "benign observe"
  shows "\<exists>x'. walk_callback s observe u (x, w) = (None, x', w) \<and> wk_stats x' =
    (wk_stats x)\<lparr>Scanned := Suc (Scanned (wk_stats x)), Malformed := Suc (Malformed (wk_stats x))\<rparr>"
proof -
  obtain res r where run: "apply_record s u (run_of x w) = (res, r)" by fastforce
  with assms(1) have "res = Inr (zero_record\<lparr>malformed := True\<rparr>)" "r_world r = w" "r_stats r =
      (wk_stats x)\<lparr>Scanned := Suc (Scanned (wk_stats x)), Malformed := Suc (Malformed (wk_stats x))\<rparr>"
    by (auto simp: apply_record_def Let_def)
  with callback_continues [OF run [unfolded this(1)] assms(3)] assms(2) show ?thesis by simp
qed

section \<open>One record\<close>

text \<open>No counter of a change has moved.\<close>

definition wrote_nothing :: "stats \<Rightarrow> bool" where
  "wrote_nothing t \<longleftrightarrow> Created t = 0 \<and> Enabled t = 0 \<and> Disabled t = 0 \<and> Updated t = 0 \<and> WroteBack t = 0
     \<and> Conflicts t = 0"

text \<open>The two counters the walk's end depends on.\<close>

definition same_trouble :: "stats \<Rightarrow> stats \<Rightarrow> bool" where
  "same_trouble t t' \<longleftrightarrow> Conflicts t' = Conflicts t \<and> Malformed t' = Malformed t"

lemma same_trouble_trans: "same_trouble a b \<Longrightarrow> same_trouble b c \<Longrightarrow> same_trouble a c"
  by (simp add: same_trouble_def)

lemma writeBack_fake:
  assumes "talks_to_fake sniff host c" and "\<not> o_DryRun opts" and "r_world r = (n, w)" and "quiet (env n)"
    and "distinct (map u_ID (fk_users (env n)))" and "k < length (fk_users (env n))"
    and "writable (fk_users (env n) ! k)" and "x \<noteq> []"
    and "fk_bound (env n) x \<in> {None, Some (u_ID (fk_users (env n) ! k))}"
  obtains r' where "writeBack (worker c store opts) (u_ID (fk_users (env n) ! k)) x r = (None, r')"
    "r_world r' = (n\<lparr>env := assign (u_ID (fk_users (env n) ! k)) x (counted (env n))\<rparr>, w)"
    "same_trouble (r_stats r) (r_stats r')"
  using write_back_fake [OF assms(1,4) _ User_at [OF assms(5,6)] _ assms(8)] assms(2,3,7,8,9)
    dated_rebound [of x "fk_users (env n) ! k" "[]"]
  by (simp add: writeBack_def client_dir_def writable_def same_trouble_def)

text \<open>Binding an id to its account's identity keeps the directory's knowledge right.\<close>

lemma own_ids_assign:
  assumes "own_ids (fk_bound d) T" and "T i = Some h" and "h_ID h = x"
  shows "own_ids (fk_bound (assign i x d)) T"
  using assms by (auto simp: own_ids_def assign_def)

lemma own_ids_update:
  assumes "own_ids bound T" and "\<And>j h. T j = Some h \<Longrightarrow> \<exists>h'. T' j = Some h' \<and> h_ID h' = h_ID h"
  shows "own_ids bound T'"
  using assms by (fastforce simp: own_ids_def)

text \<open>
  What one record leaves behind, on both sides: the record may have been written to, its account is in
  step with it, and nothing else moved.
\<close>

definition settled :: "nat \<Rightarrow> fake \<Rightarrow> table \<Rightarrow> fake \<Rightarrow> table \<Rightarrow> bool" where
  "settled k d T d' T' \<longleftrightarrow> own_ids (fk_bound d') T' \<and> quiet d' \<and> fk_ignoreStartIndex d' = fk_ignoreStartIndex d
     \<and> (\<exists>v'. (v' = fk_users d ! k \<or> (\<exists>x. v' = rebound x (fk_users d ! k)))
          \<and> fk_users d' = (fk_users d)[k := v'] \<and> in_step T' v')
     \<and> (\<forall>i. i \<noteq> u_ID (fk_users d ! k) \<longrightarrow> T' i = T i)"

context available_store begin

lemma missing:
  assumes "ok w" and "accounts w d = None"
  obtains e w' where "HelpperByDirectoryID st d w = (Inl e, w')" "err_is e ErrNotFound" "ok w'" "accounts w' = accounts w"
proof -
  obtain r w' where r: "HelpperByDirectoryID st d w = (r, w')" by fastforce
  with lookup_found [OF assms(1)] assms(2) obtain e where "r = Inl e" by (cases r) auto
  note r = r [unfolded this]
  with lookup_answers [OF assms(1) r] lookup_frame [OF assms(1) r] that show ?thesis by blast
qed

text \<open>An id of an account is free for it on the directory's side, and never free for another.\<close>

lemma own_id_free:
  assumes "ok w" and "own_ids bound (accounts w)" and "accounts w i = Some h"
  shows "bound (h_ID h) \<in> {None, Some i}"
proof (cases "bound (h_ID h)")
  case (Some j)
  with assms(2) obtain h' where "accounts w j = Some h'" "h_ID h' = h_ID h" by (auto simp: own_ids_def)
  with account_ids [OF assms(1,3) this(1)] Some show ?thesis by simp
qed simp

text \<open>The account of a known record after the upsert, before the write-back.\<close>

lemma syncState_answers:
  assumes "r_world r = (n, w)" and "ok w" and "accounts w (u_ID u) = Some p" and "u_Active u = Some b" and "\<not> o_DryRun opts"
  obtains r' w' h where "syncState (worker c st opts) u b p r = (None, r')" "r_world r' = (n, w')"
    "ok w'" "accounts w' = (accounts w)(u_ID u \<mapsto> h)" "h_ID h = h_ID p" "desired u (Some h)"
    "same_trouble (r_stats r) (r_stats r')"
proof (cases "h_Enabled p = b \<and> h_DisplayName p = u_DisplayName u \<and> h_Login p = PrimaryEmail u")
  case True
  then have run: "syncState (worker c st opts) u b p r = (None, Reconciler.count (Unchanged_update Suc) r)"
    by (simp add: syncState_def Let_def)
  show ?thesis
    by (rule that [where w' = w and h = p, OF run])
      (use True assms in \<open>auto simp: desired_def fun_upd_idem same_trouble_def\<close>)
next
  case False
  obtain t w' where upd: "UpdateHelpper st (h_ID p)
      \<lparr>hu_Enabled = b, hu_DisplayName = u_DisplayName u, hu_Login = PrimaryEmail u\<rparr> w = (None, w')" "ok w'"
    "accounts w' = (accounts w)(u_ID u \<mapsto> apply_update
      \<lparr>hu_Enabled = b, hu_DisplayName = u_DisplayName u, hu_Login = PrimaryEmail u\<rparr> t p)"
    by (rule updated [OF assms(2,3)])
  obtain oe r' where run: "syncState (worker c st opts) u b p r = (oe, r')" by fastforce
  with False assms(1,5) upd(1) have "oe = None" "r_world r' = (n, w')" "same_trouble (r_stats r) (r_stats r')"
    by (auto simp: syncState_def Let_def beside_def on_snd_def same_trouble_def)
  with run upd(2,3) assms(4) show ?thesis
    by (intro that [OF _ _ _ upd(3)]) (simp_all add: desired_def)
qed

lemma ensureHelpper_answers:
  assumes "r_world r = (n, w)" and "ok w" and "accounts w (u_ID u) = None" and "u_Active u = Some True" and "\<not> o_DryRun opts"
  obtains r' w' h where "ensureHelpper (worker c st opts) u r = (Inr h, r')" "r_world r' = (n, w')"
    "ok w'" "accounts w' = (accounts w)(u_ID u \<mapsto> h)" "h_ID h \<noteq> []" "desired u (Some h)"
    "same_trouble (r_stats r) (r_stats r')"
proof -
  define nh where "nh = \<lparr>nh_DirectoryID = u_ID u, nh_Login = PrimaryEmail u, nh_DisplayName = u_DisplayName u\<rparr>"
  have nh: "nh_DirectoryID nh = u_ID u" "nh_Login nh = PrimaryEmail u" "nh_DisplayName nh = u_DisplayName u"
    by (simp_all add: nh_def)
  from assms(3) have "accounts w (nh_DirectoryID nh) = None" by (simp add: nh)
  from created [OF assms(2) this, unfolded nh] obtain h w' where new: "CreateHelpper st nh w = (Inr h, w')" "ok w'"
    "accounts w' = (accounts w)(u_ID u \<mapsto> h)" "h_ID h \<noteq> []" "h_Login h = PrimaryEmail u"
    "h_DisplayName h = u_DisplayName u" "h_Enabled h" .
  obtain res r' where run: "ensureHelpper (worker c st opts) u r = (res, r')" by fastforce
  with assms(1,5) new(1) have "res = Inr h" "r_world r' = (n, w')" "same_trouble (r_stats r) (r_stats r')"
    by (auto simp: ensureHelpper_def nh_def beside_def on_snd_def same_trouble_def)
  with run new assms(4) show ?thesis by (intro that) (simp_all add: desired_def)
qed

lemma settled_bound:
  fixes n :: "fake net" and k :: nat
  defines "v \<equiv> fk_users (env n) ! k"
  assumes "talks_to_fake sniff host c" and "\<not> o_DryRun opts" and "r_world r = (n, w)" and "quiet (env n)"
    and "distinct (map u_ID (fk_users (env n)))" and "k < length (fk_users (env n))" and "writable v"
    and "ok w" and "own_ids (fk_bound (env n)) T" and "accounts w = T(u_ID v \<mapsto> h)"
    and "\<And>p. T (u_ID v) = Some p \<Longrightarrow> h_ID h = h_ID p" and "h_ID h \<noteq> []" and "desired v (Some h)"
  obtains r' n' where "writeBack (worker c store opts) (u_ID v) (h_ID h) r = (None, r')" "r_world r' = (n', w)"
    "settled k (env n) T (env n') (accounts w)" "same_trouble (r_stats r) (r_stats r')"
proof -
  have T: "accounts w (u_ID v) = Some h" by (simp add: assms(11))
  have own: "own_ids (fk_bound (env n)) (accounts w)"
    by (rule own_ids_update [OF assms(10)]) (use assms(11,12) in auto)
  obtain r' where wrote: "writeBack (worker c store opts) (u_ID v) (h_ID h) r = (None, r')"
    "r_world r' = (n\<lparr>env := assign (u_ID v) (h_ID h) (counted (env n))\<rparr>, w)" "same_trouble (r_stats r) (r_stats r')"
    unfolding v_def
    by (rule writeBack_fake [OF assms(2-7) assms(8) [unfolded v_def] assms(13)])
      (use own_id_free [OF assms(9) own T] in \<open>simp_all add: v_def\<close>)
  have users: "fk_users (assign (u_ID v) (h_ID h) (counted (env n))) = (fk_users (env n))[k := rebound (h_ID h) v]"
    using assign_at [of "counted (env n)" k "h_ID h"] assms(6,7) by (simp add: v_def counted_def)
  have "in_step (accounts w) (rebound (h_ID h) v)" using T assms(14) by (simp add: in_step_def)
  moreover have "own_ids (fk_bound (assign (u_ID v) (h_ID h) (counted (env n)))) (accounts w)"
    by (rule own_ids_assign [where h = h]) (use own T in \<open>simp_all add: counted_def\<close>)
  moreover have "quiet (assign i x (counted (env n)))"
    "fk_ignoreStartIndex (assign i x (counted (env n))) = fk_ignoreStartIndex (env n)" for i x
    using assms(5) by (simp_all add: quiet_def assign_def counted_def)
  ultimately have "settled k (env n) T (assign (u_ID v) (h_ID h) (counted (env n))) (accounts w)"
    using users assms(11) by (auto simp: settled_def v_def)
  with that wrote show thesis by simp
qed

lemma settled_unbound:
  fixes d k
  defines "v \<equiv> fk_users d ! k"
  assumes "quiet d" and "own_ids (fk_bound d) T" and "k < length (fk_users d)" and "in_step T' v"
    and "T' = T(u_ID v := T' (u_ID v))" and "\<And>p. T (u_ID v) = Some p \<Longrightarrow> \<exists>h. T' (u_ID v) = Some h \<and> h_ID h = h_ID p"
  shows "settled k d T d T'"
proof -
  have same: "T' i = T i" if "i \<noteq> u_ID v" for i using that by (subst assms(6)) simp
  have "own_ids (fk_bound d) T'"
  proof (rule own_ids_update [OF assms(3)])
    show "\<exists>h'. T' j = Some h' \<and> h_ID h' = h_ID h" if "T j = Some h" for j h
      using that same assms(7) by (cases "j = u_ID v") auto
  qed
  then show ?thesis using assms(2,5) same by (auto simp: settled_def v_def)
qed

text \<open>\<open>apply\<close> of a usable record: every branch ends well, on both sides; first of a record whose
  identity has no account, then of one that has.\<close>

lemma apply_unknown_settles:
  fixes n :: "fake net" and k :: nat
  defines "v \<equiv> fk_users (env n) ! k"
  assumes talks: "talks_to_fake sniff host c" and dry: "\<not> o_DryRun opts" and r: "r_world r = (n, w)"
    and fake: "quiet (env n)" "distinct (map u_ID (fk_users (env n)))" "k < length (fk_users (env n))" "writable v"
    and store: "ok w" "own_ids (fk_bound (env n)) (accounts w)" and v: "validate v = []" and new: "accounts w (u_ID v) = None"
  obtains rec r' n' w' where "apply_record (worker c st opts) (served v) r = (Inr rec, r')" "r_world r' = (n', w')"
    "ok w'" "settled k (env n) (accounts w) (env n') (accounts w')" "same_trouble (r_stats r) (r_stats r')"
proof -
  obtain b where b: "u_Active v = Some b" using validate_active [OF v] by blast
  from missing [OF store(1) new] obtain e w1 where look: "HelpperByDirectoryID st (u_ID v) w = (Inl e, w1)"
    "err_is e ErrNotFound" "ok w1" "accounts w1 = accounts w" .
  define r1 where "r1 = Reconciler.count (Scanned_update Suc) r"
  define r2 where "r2 = r1\<lparr>r_world := (n, w1)\<rparr>"
  have r1: "r_world r1 = (n, w)" using r by (simp add: r1_def)
  have r2: "r_world r2 = (n, w1)" "same_trouble (r_stats r) (r_stats r2)" by (simp_all add: r2_def r1_def same_trouble_def)
  note apply_rules = apply_record_def Let_def v b r1 beside_def on_snd_def look(1,2) r1_def [symmetric] r2_def
  show thesis
  proof (cases b)
    case False
    have "apply_record (worker c st opts) (served v) r =
        (Inr (zero_record\<lparr>activeNow := False\<rparr>), Reconciler.count (Skipped_update Suc) r2)"
      using False by (simp add: apply_rules)
    moreover have "settled k (env n) (accounts w) (env n) (accounts w1)"
      unfolding look(4) by (rule settled_unbound [OF fake(1) store(2) fake(3), folded v_def])
        (use False b new in \<open>simp_all add: in_step_def desired_def fun_upd_idem\<close>)
    moreover have "same_trouble (r_stats r) (r_stats (Reconciler.count (Skipped_update Suc) r2))"
      using r2(2) by (simp add: same_trouble_def)
    ultimately show ?thesis using that look(3) r2(1) by simp
  next
    case True
    have "accounts w1 (u_ID (served v)) = None" "u_Active (served v) = Some True" using new look(4) b True by simp_all
    from ensureHelpper_answers [OF r2(1) look(3) this dry] obtain r3 w2 h where made:
      "ensureHelpper (worker c st opts) (served v) r2 = (Inr h, r3)" "r_world r3 = (n, w2)" "ok w2"
      "accounts w2 = (accounts w1)(u_ID (served v) \<mapsto> h)" "h_ID h \<noteq> []" "desired (served v) (Some h)"
      "same_trouble (r_stats r2) (r_stats r3)" .
    obtain r4 n' where wrote: "writeBack (worker c st opts) (u_ID v) (h_ID h) r3 = (None, r4)" "r_world r4 = (n', w2)"
      "settled k (env n) (accounts w) (env n') (accounts w2)" "same_trouble (r_stats r3) (r_stats r4)"
      unfolding v_def
      by (rule settled_bound [OF talks dry made(2) fake(1-3) fake(4) [unfolded v_def] made(3) store(2), of h])
        (use made new look(4) in \<open>simp_all add: v_def\<close>)
    have "apply_record (worker c st opts) (served v) r = (Inr (zero_record\<lparr>activeNow := True\<rparr>), r4)"
      using True made(1) [unfolded r2_def] wrote(1) by (simp add: apply_rules)
    moreover have "same_trouble (r_stats r) (r_stats r4)" using same_trouble_trans r2(2) made(7) wrote(4) by blast
    ultimately show ?thesis using that wrote made(3) by simp
  qed
qed

lemma apply_known_settles:
  fixes n :: "fake net" and k :: nat
  defines "v \<equiv> fk_users (env n) ! k"
  assumes talks: "talks_to_fake sniff host c" and dry: "\<not> o_DryRun opts" and r: "r_world r = (n, w)"
    and fake: "quiet (env n)" "distinct (map u_ID (fk_users (env n)))" "k < length (fk_users (env n))" "writable v"
    and store: "ok w" "own_ids (fk_bound (env n)) (accounts w)" and v: "validate v = []" and known: "accounts w (u_ID v) = Some p"
  obtains rec r' n' w' where "apply_record (worker c st opts) (served v) r = (Inr rec, r')" "r_world r' = (n', w')"
    "ok w'" "settled k (env n) (accounts w) (env n') (accounts w')" "same_trouble (r_stats r) (r_stats r')"
proof -
  obtain b where b: "u_Active v = Some b" using validate_active [OF v] by blast
  from found [OF store(1) known] obtain w1 where look: "HelpperByDirectoryID st (u_ID v) w = (Inr p, w1)"
    "ok w1" "accounts w1 = accounts w" .
  define r1 where "r1 = Reconciler.count (Scanned_update Suc) r"
  define r2 where "r2 = r1\<lparr>r_world := (n, w1)\<rparr>"
  have r1: "r_world r1 = (n, w)" using r by (simp add: r1_def)
  have r2: "r_world r2 = (n, w1)" "same_trouble (r_stats r) (r_stats r2)" by (simp_all add: r2_def r1_def same_trouble_def)
  have "accounts w1 (u_ID (served v)) = Some p" "u_Active (served v) = Some b" using known look(3) b by simp_all
  from syncState_answers [OF r2(1) look(2) this dry] obtain r3 w2 h where upd:
    "syncState (worker c st opts) (served v) b p r2 = (None, r3)" "r_world r3 = (n, w2)" "ok w2"
    "accounts w2 = (accounts w1)(u_ID (served v) \<mapsto> h)" "h_ID h = h_ID p" "desired (served v) (Some h)"
    "same_trouble (r_stats r2) (r_stats r3)" .
  define rec where "rec = zero_record\<lparr>activeNow := b, existed := True, enabledBefore := h_Enabled p,
    externalIDBefore := u_ExternalID v\<rparr>"
  note apply_rules = apply_record_def Let_def v b r1 beside_def on_snd_def look(1)
    upd(1) [unfolded r2_def] upd(5) rec_def r1_def [symmetric]
  show thesis
  proof (cases "u_ExternalID v = h_ID p")
    case True
    have "apply_record (worker c st opts) (served v) r = (Inr rec, r3)" using True by (simp add: apply_rules)
    moreover have "settled k (env n) (accounts w) (env n) (accounts w2)"
      by (rule settled_unbound [OF fake(1) store(2) fake(3), folded v_def])
        (use True upd look(3) known in \<open>simp_all add: in_step_def\<close>)
    moreover have "same_trouble (r_stats r) (r_stats r3)" using same_trouble_trans r2(2) upd(7) by blast
    ultimately show ?thesis using that upd by blast
  next
    case False
    have id: "h_ID h \<noteq> []" using account_key [OF store(1) known] upd(5) by simp
    obtain r4 n' where wrote: "writeBack (worker c st opts) (u_ID v) (h_ID h) r3 = (None, r4)" "r_world r4 = (n', w2)"
      "settled k (env n) (accounts w) (env n') (accounts w2)" "same_trouble (r_stats r3) (r_stats r4)"
      unfolding v_def
      by (rule settled_bound [OF talks dry upd(2) fake(1-3) fake(4) [unfolded v_def] upd(3) store(2), of h])
        (use upd known look(3) id in \<open>simp_all add: v_def\<close>)
    have "apply_record (worker c st opts) (served v) r = (Inr rec, r4)"
      using False wrote(1) by (simp add: apply_rules)
    moreover have "same_trouble (r_stats r) (r_stats r4)" using same_trouble_trans r2(2) upd(7) wrote(4) by blast
    ultimately show ?thesis using that wrote upd(3) by simp
  qed
qed

lemmas apply_settles = apply_unknown_settles apply_known_settles

end

end
