(* ===== verification/Fake_Cycle.thy ===== *)
theory Fake_Cycle
  imports Fake_Sync Worker_Life
begin

text \<open>
  All the parts together: a full cycle of the worker over the fake directory cannot fail, and what
  it leaves behind on both sides is in step; over two sides in step a cycle finds nothing to do.
\<close>

section \<open>The walk\<close>

text \<open>A walk that has passed \<open>k\<close> of the records \<open>U\<close>: those are in step, the others as they were.\<close>

definition settling :: "user list \<Rightarrow> nat \<Rightarrow> stats \<Rightarrow> fake \<Rightarrow> table \<Rightarrow> bool" where
  "settling U k t d T \<longleftrightarrow> own_ids (fk_bound d) T \<and> quiet d \<and> \<not> fk_ignoreStartIndex d
     \<and> list_all2 same_person (fk_users d) U \<and> drop k (fk_users d) = drop k U
     \<and> (\<forall>u \<in> set (take k (fk_users d)). dated u \<and> in_step T u)
     \<and> Conflicts t = 0 \<and> Malformed t = malformed_in (take k U)"

definition all_writable :: "fake \<Rightarrow> bool" where
  "all_writable d \<longleftrightarrow> servable d \<and> (\<forall>u \<in> set (fk_users d). writable u)"

lemma same_persons:
  assumes "list_all2 same_person us vs"
  shows "map u_ID us = map u_ID vs" and "malformed_in us = malformed_in vs"
proof -
  have "map u_ID us = map u_ID vs \<and> malformed_in us = malformed_in vs"
    using assms
  proof (induction rule: list_all2_induct)
    case (Cons u us v vs)
    from same_person_view(2) [OF Cons(1)] Cons(1,3) show ?case by (simp add: malformed_in_def same_person_def)
  qed (simp add: malformed_in_def)
  then show "map u_ID us = map u_ID vs" "malformed_in us = malformed_in vs" by simp_all
qed

lemma same_person_refl [simp]: "same_person u u"
  by (simp add: same_person_def)

lemma same_person_trans: "same_person u v \<Longrightarrow> same_person v w \<Longrightarrow> same_person u w"
  by (simp add: same_person_def)

lemma nth_fresh: "distinct xs \<Longrightarrow> k < length xs \<Longrightarrow> xs ! k \<notin> set (take k xs)"
  by (subst (asm) id_take_nth_drop [of k]) auto

lemma settling_start:
  assumes "all_writable d" and "own_ids (fk_bound d) T"
  shows "settling (fk_users d) 0 zero_stats d T"
  using assms by (simp add: settling_def all_writable_def servable_def zero_stats_def malformed_in_def list.rel_refl)

lemma settling_counted: "settling U k t d T \<Longrightarrow> settling U k t (counted d) T"
  by (simp add: settling_def counted_def quiet_def)

lemma settling_nth:
  assumes "settling U k t d T" and "k < length U"
  shows "fk_users d ! k = U ! k" and "k < length (fk_users d)"
    and "fk_users d = take k (fk_users d) @ U ! k # drop (Suc k) U"
proof -
  have len: "length (fk_users d) = length U" using assms(1) by (auto simp: settling_def dest: list_all2_lengthD)
  then show "k < length (fk_users d)" using assms(2) by simp
  have rest: "drop k (fk_users d) = U ! k # drop (Suc k) U"
    using assms by (simp add: settling_def Cons_nth_drop_Suc)
  then show "fk_users d = take k (fk_users d) @ U ! k # drop (Suc k) U" using append_take_drop_id [of k "fk_users d"] by simp
  from rest len assms(2) show "fk_users d ! k = U ! k" by (metis hd_drop_conv_nth list.sel(1))
qed

lemma settling_untouched:
  assumes "all_writable d0" and "settling (fk_users d0) k t d T"
  shows "untouched_from k (fk_users d0) [] d"
proof -
  have all: "matched (filter_since []) us = us" for us by (simp add: matched_def filter_since_def is_zero_def)
  have "dated u" if "u \<in> set (fk_users d)" for u
  proof -
    have "u \<in> set (take k (fk_users d)) \<or> u \<in> set (drop k (fk_users d0))"
      using that assms(2) append_take_drop_id [of k "fk_users d"] unfolding settling_def by (metis Un_iff set_append)
    with assms show ?thesis by (auto simp: settling_def all_writable_def servable_def dest: in_set_dropD)
  qed
  moreover have "length (fk_users d) = length (fk_users d0)"
    using assms(2) by (auto simp: settling_def dest: list_all2_lengthD)
  ultimately show ?thesis
    using assms by (auto simp: untouched_from_def all settling_def all_writable_def servable_def)
qed

lemma malformed_in_Suc: "k < length U \<Longrightarrow>
    malformed_in (take (Suc k) U) = malformed_in (take k U) + (if validate (U ! k) = [] then 0 else 1)"
  by (simp add: malformed_in_def take_Suc_conv_app_nth)

lemma malformed_in_take: "malformed_in (take k U) \<le> malformed_in U"
proof -
  have "malformed_in U = malformed_in (take k U @ drop k U)" by simp
  then show ?thesis unfolding malformed_in_def filter_append length_append by simp
qed

text \<open>Passing one record, unusable or usable.\<close>

lemma settling_malformed:
  assumes "settling U k t d T" and "k < length U" and "validate (U ! k) \<noteq> []" and "dated (U ! k)"
    and "Conflicts t' = Conflicts t" and "Malformed t' = Suc (Malformed t)"
  shows "settling U (Suc k) t' d T"
proof -
  note at = settling_nth [OF assms(1,2)]
  have "take (Suc k) (fk_users d) = take k (fk_users d) @ [U ! k]" using at(1,2) by (simp add: take_Suc_conv_app_nth)
  moreover have "drop (Suc k) (fk_users d) = drop (Suc k) U"
    using assms(1) by (metis settling_def drop_drop add.commute plus_1_eq_Suc)
  ultimately show ?thesis using assms by (auto simp: settling_def malformed_in_Suc in_step_def)
qed

lemma settling_usable:
  assumes "settling U k t d T" and "k < length U" and "validate (U ! k) = []" and "distinct (map u_ID U)"
    and "dated (U ! k)" and "writable (U ! k)" and "settled k d T d' T'" and "same_trouble t t'"
  shows "settling U (Suc k) t' d' T'"
proof -
  note at = settling_nth [OF assms(1,2)]
  obtain v' where v': "v' = U ! k \<or> (\<exists>x. v' = rebound x (U ! k))" "fk_users d' = (fk_users d)[k := v']" "in_step T' v'"
    using assms(7) unfolding settled_def at(1) by blast
  have persons: "list_all2 same_person (fk_users d) U" using assms(1) by (simp add: settling_def)
  note ids = same_persons(1) [OF persons]
  have same: "T' i = T i" if "i \<noteq> u_ID (U ! k)" for i using assms(7) that by (simp add: settled_def at(1))
  have "same_person v' (U ! k)" and "dated v'"
    using v'(1) assms(5,6) dated_rebound [of _ "U ! k" "[]"] rebound_person by (auto simp: writable_def)
  then have "list_all2 same_person (fk_users d') U"
    using list_all2_update_cong [OF persons, of v' "U ! k" k] by (simp add: v'(2))
  moreover have "take (Suc k) (fk_users d') = take k (fk_users d) @ [v']"
    using at(2) by (simp add: v'(2) take_Suc_conv_app_nth)
  moreover have "drop (Suc k) (fk_users d') = drop (Suc k) U"
    using at(2) unfolding v'(2) by (subst at(3)) simp
  moreover have "in_step T' u" if "u \<in> set (take k (fk_users d))" for u
  proof -
    have "u_ID u \<in> set (take k (map u_ID U))"
      unfolding ids [symmetric] take_map using that by simp
    moreover have "map u_ID U ! k \<notin> set (take k (map u_ID U))"
      by (rule nth_fresh [OF assms(4)]) (simp add: assms(2))
    ultimately have "u_ID u \<noteq> u_ID (U ! k)" using assms(2) by (metis nth_map)
    then have "T' (u_ID u) = T (u_ID u)" by (rule same)
    moreover have "in_step T u" using that assms(1) by (simp add: settling_def)
    ultimately show ?thesis by (simp add: in_step_def)
  qed
  ultimately show ?thesis
    using assms(1,2,3,7,8) v'(3) \<open>dated v'\<close>
    by (auto simp: settling_def settled_def malformed_in_Suc same_trouble_def)
qed

section \<open>The cycle\<close>

lemma worker_now_steady: "steady_clock c \<Longrightarrow> worker_now (cl_t c) (n, w) = (t, w') \<Longrightarrow> w' = (n, w)"
  by (auto simp: worker_now_def in_env_def steady_clock_def split: prod.splits) (metis (lifting) net.surjective net.update_convs(2) old.unit.exhaust snd_conv)

context available_store begin

text \<open>Around its walk a full cycle adds nothing that can fail, and nothing that touches either side.\<close>

lemma full_answers:
  assumes clock: "steady_clock c" and ok: "ok w"
    and walk: "\<And>w1. ok w1 \<Longrightarrow> accounts w1 = accounts w \<Longrightarrow> \<exists>x n' w'.
      client_ListUsers c [] (pageSize (worker c st opts)) (walk_callback (worker c st opts) (Some observe_drift))
        (start_walk m, n, w1) = (None, x, n', w') \<and> ok w' \<and> Q (wk_stats x) (env n') (accounts w')"
    and run: "Full (worker c st opts) m (n, w) = ((sts, dr, err), m', (n', w'))"
  shows "err = None \<and> ok w' \<and> (\<exists>t a b. Q t (env n') (accounts w')
    \<and> sts = t\<lparr>Duration := a, stats_Checkpoint := b\<rparr>)"
proof -
  note now = worker_now_steady [OF clock]
  have read: "\<exists>w1. wc = (n, w1) \<and> \<not> isl q \<and> ok w1 \<and> accounts w1 = accounts w"
    if "worker_now (cl_t c) (n, w) = (t, wa)" "Checkpoint (beside st) wa = (q, wc)" for t wa q wc
    using that now [OF that(1)] checkpoint_answers [OF ok] checkpoint_frame [OF ok]
    by (cases wc) (fastforce simp: beside_def on_snd_def split: prod.splits)
  have walked: "\<exists>nb wd. \<not> isl res \<and> wb = (nb, wd) \<and> ok wd \<and> Q (wk_stats x) (env nb) (accounts wd)"
    if "walkWith (worker c st opts) [] (Some observe_drift) m (n, w1) = ((res, x), wb)" "ok w1" "accounts w1 = accounts w"
    for res x wb w1
    using walk [OF that(2,3)] that(1) by (auto simp: walkWith_def client_dir_def)
  have listed: "\<exists>we. \<not> isl q \<and> wf = (nb, we) \<and> ok we \<and> accounts we = accounts wd"
    if "EnabledHelppers (beside st) (nb, wd) = (q, wf)" "ok wd" for nb wd q wf
    using that enabled_answers [OF that(2)] enabled_frame [OF that(2)]
    by (cases wf) (fastforce simp: beside_def on_snd_def split: prod.splits)
  have set: "\<exists>wh. oe = None \<and> wg = (nb, wh) \<and> ok wh \<and> accounts wh = accounts we"
    if "SetCheckpoint (beside st) mark (nb, we) = (oe, wg)" "ok we" for mark nb we oe wg
    using that set_answers [OF that(2), of mark] set_frame [OF that(2)]
    by (cases wg) (fastforce simp: beside_def on_snd_def split: prod.splits)
  from run show ?thesis
  proof (cases rule: Full_elim)
    case (unread started w1 e)
    from read [of started w1 "Inl e" "(n', w')"] unread(1,2) show ?thesis by simp
  next
    case (aborted started w1 cp w2 e x w3 fin)
    from read [of started w1 "Inr cp" w2] aborted(1,2) obtain wa where w2: "w2 = (n, wa)" "ok wa" "accounts wa = accounts w"
      by auto
    from walked [OF aborted(3) [unfolded w2(1)] w2(2,3)] show ?thesis by simp
  next
    case (unlisted started w1 cp w2 mark x w3 fin w4 e)
    from read [of started w1 "Inr cp" w2] unlisted(1,2) obtain wa where w2: "w2 = (n, wa)" "ok wa" "accounts wa = accounts w"
      by auto
    from walked [OF unlisted(3) [unfolded w2(1)] w2(2,3)] obtain nb wd where w3: "w3 = (nb, wd)" "ok wd" by blast
    have "w4 = (nb, wd)" using unlisted(4) now w3(1) by simp
    with listed [of nb wd] unlisted(5) w3(2) show ?thesis by auto
  next
    case (finished started w1 cp w2 mark x w3 fin w4 local w5 m1 cp')
    from read [of started w1 "Inr cp" w2] finished(1,2) obtain wa where w2: "w2 = (n, wa)" "ok wa" "accounts wa = accounts w"
      by auto
    from walked [OF finished(3) [unfolded w2(1)] w2(2,3)] obtain nb wd where
      w3: "w3 = (nb, wd)" "ok wd" "Q (wk_stats x) (env nb) (accounts wd)" by blast
    have "w4 = (nb, wd)" using finished(4) now w3(1) by simp
    with listed [of nb wd] finished(5) w3(2) obtain we where w5: "w5 = (nb, we)" "ok we" "accounts we = accounts wd" by auto
    from finished(8) have "err = None \<and> n' = nb \<and> ok w' \<and> accounts w' = accounts we"
    proof (cases rule: advance_elim)
      case (unset t w6 e)
      then have "w6 = (nb, we)" using now w5(1) by simp
      with set [of mark nb we "Some e"] unset(5) w5(2) show ?thesis by simp
    next
      case (moved t w6)
      then have "w6 = (nb, we)" using now w5(1) by simp
      with set [of mark nb we None] moved(2,5) w5(2) show ?thesis by simp
    qed (use w5 now [of nb we] in auto)
    then show ?thesis using finished(9) w3(3) w5(3) by auto
  qed
qed

text \<open>The callback on one record of the walk.\<close>

lemma callback_settles:
  assumes talks: "talks_to_fake sniff host c" and dry: "\<not> o_DryRun opts"
    and tol: "tolerates (worker c st opts) (malformed_in U)"
    and U: "distinct (map u_ID U)" "\<forall>u \<in> set U. dated u \<and> writable u"
    and i: "ok w" "settling U k (wk_stats x) (env n) (accounts w)" and k: "k < length U"
  shows "\<exists>x' n' w'. walk_callback (worker c st opts) (Some observe_drift) (served (U ! k)) (x, n, w) = (None, x', n', w')
    \<and> ok w' \<and> settling U (Suc k) (wk_stats x') (env n') (accounts w')"
proof (cases "validate (U ! k) = []")
  case False
  have "malformed_in (take (Suc k) U) = Suc (Malformed (wk_stats x))"
    using i(2) k False by (simp add: settling_def malformed_in_Suc)
  with tolerates_mono [OF tol malformed_in_take, of "Suc k"] False
    callback_malformed [of "served (U ! k)" "worker c st opts" x "Some observe_drift" "(n, w)"] obtain x' where
    x': "walk_callback (worker c st opts) (Some observe_drift) (served (U ! k)) (x, n, w) = (None, x', n, w)"
    "wk_stats x' = (wk_stats x)\<lparr>Scanned := Suc (Scanned (wk_stats x)), Malformed := Suc (Malformed (wk_stats x))\<rparr>"
    by auto
  have "settling U (Suc k) (wk_stats x') (env n) (accounts w)"
    by (rule settling_malformed [OF i(2) k False]) (use U(2) k in \<open>simp_all add: x'(2)\<close>)
  with x'(1) i(1) show ?thesis by auto
next
  case True
  note at = settling_nth [OF i(2) k]
  have v: "dated (U ! k)" "writable (U ! k)" using U(2) k by simp_all
  have fair: "quiet (env n)" "distinct (map u_ID (fk_users (env n)))"
    using i(2) U(1) same_persons(1) by (auto simp: settling_def)
  have own: "own_ids (fk_bound (env n)) (accounts w)" using i(2) by (simp add: settling_def)
  obtain rec r' n2 w2 where ran: "apply_record (worker c st opts) (served (U ! k)) (run_of x (n, w)) = (Inr rec, r')"
    "r_world r' = (n2, w2)" "ok w2" "settled k (env n) (accounts w) (env n2) (accounts w2)"
    "same_trouble (wk_stats x) (r_stats r')"
    by (cases "accounts w (u_ID (U ! k))";
        rule apply_settles [of sniff host c opts "run_of x (n, w)" n w k, unfolded at(1)])
      (use talks dry fair at(2) v i(1) own True in simp_all)
  have "settling U (Suc k) (r_stats r') (env n2) (accounts w2)"
    by (rule settling_usable [OF i(2) k True U(1) v ran(4,5)])
  with callback_continues [OF ran(1), of "Some observe_drift"] True ran(2,3) show ?thesis by auto
qed

text \<open>The two sides are in sync when every record and its account are in step.\<close>

lemma full_settles:
  fixes n :: "fake net"
  defines "U \<equiv> fk_users (env n)"
  assumes talks: "talks_to_fake sniff host c" and clock: "steady_clock c" and dry: "\<not> o_DryRun opts"
    and psize: "pageSize (worker c st opts) \<le> int64_max" and tol: "tolerates (worker c st opts) (malformed_in U)"
    and fake: "all_writable (env n)" and store: "own_ids (fk_bound (env n)) (accounts w)" "ok w"
    and run: "Full (worker c st opts) m (n, w) = ((sts, dr, err), m', (n', w'))"
  shows "err = None \<and> ok w' \<and> settling U (length U) sts (env n') (accounts w')"
proof -
  let ?s = "worker c st opts"
  define I where "I j k s \<longleftrightarrow> ok (snd (snd s)) \<and>
      settling U k (wk_stats (fst s)) (env (fst (snd s))) (accounts (snd (snd s)))" 
    for j k :: nat and s :: "walk_state \<times> fake net \<times> 'w"
  have U: "distinct (map u_ID U)" "\<forall>u \<in> set U. u_ID u \<noteq> []" "\<forall>u \<in> set U. dated u \<and> writable u"
    using fake by (auto simp: U_def all_writable_def servable_def)
  have step: "\<exists>s'. walk_callback ?s (Some observe_drift) (served (U ! k)) s = (None, s') \<and> I j (Suc k) s'"
    if "I j k s" "k < length U" for j k s
    using callback_settles [OF talks dry tol U(1,3), of "snd (snd s)" k "fst s" "fst (snd s)"] that
    by (cases s) (auto simp: I_def)
  have walk: "\<exists>x n1 w1. client_ListUsers c [] (pageSize ?s) (walk_callback ?s (Some observe_drift)) (start_walk m, n, w0) =
      (None, x, n1, w1) \<and> ok w1 \<and> settling U (length U) (wk_stats x) (env n1) (accounts w1)"
    if "ok w0" "accounts w0 = accounts w" for w0
  proof -
    have "\<exists>s'. client_ListUsers c [] (pageSize ?s) (walk_callback ?s (Some observe_drift)) (start_walk m, n, w0) = (None, s')
        \<and> I (pages_of (nat (page_size (pageSize ?s))) (length U)) (length U) s'"
    proof (rule client_ListUsers_invariant [OF talks])
      show "untouched_from k U [] (env (fst (snd s)))" if "I j k s" for j k s
        using that settling_untouched [OF fake] by (auto simp: I_def U_def)
      show "I (Suc j) k (x, nn\<lparr>env := counted (env nn)\<rparr>, ww)" if "I j k (x, nn, ww)" for j k x nn ww
        using that settling_counted by (auto simp: I_def)
      show "I 0 0 (start_walk m, n, w0)"
        using that settling_start [OF fake store(1)] by (simp add: I_def start_walk_def U_def)
    qed (use step U psize in auto)
    then show ?thesis by (auto simp: I_def)
  qed
  from full_answers [OF clock store(2) walk run] show ?thesis
    by (auto simp: settling_def)
qed

text \<open>A record in step with its account is read, and that is all.\<close>

lemma apply_idle:
  assumes r: "r_world r = (n, w)" and store: "ok w" and v: "validate v = []" and step: "in_step (accounts w) v"
  obtains rec r' w' where "apply_record (worker c st opts) (served v) r = (Inr rec, r')" "r_world r' = (n, w')"
    "ok w'" "accounts w' = accounts w" "Malformed (r_stats r') = Malformed (r_stats r)"
    "wrote_nothing (r_stats r) \<Longrightarrow> wrote_nothing (r_stats r')"
proof (cases "accounts w (u_ID v)")
  case None
  from missing [OF store None] obtain e w1 where look: "HelpperByDirectoryID st (u_ID v) w = (Inl e, w1)"
    "err_is e ErrNotFound" "ok w1" "accounts w1 = accounts w" .
  have "u_Active v = Some False" using step None v by (simp add: in_step_def desired_def)
  then have "apply_record (worker c st opts) (served v) r =
      (Inr (zero_record\<lparr>activeNow := False\<rparr>),
       Reconciler.count (Skipped_update Suc) ((Reconciler.count (Scanned_update Suc) r)\<lparr>r_world := (n, w1)\<rparr>))"
    using v look(1,2) r by (simp add: apply_record_def Let_def beside_def on_snd_def)
  then show ?thesis by (rule that [where w' = w1]) (use look in \<open>simp_all add: wrote_nothing_def\<close>)
next
  case (Some p)
  from found [OF store Some] obtain w1 where look: "HelpperByDirectoryID st (u_ID v) w = (Inr p, w1)"
    "ok w1" "accounts w1 = accounts w" .
  have d: "u_Active v = Some (h_Enabled p)" "h_DisplayName p = u_DisplayName v" "h_Login p = PrimaryEmail v"
    "u_ExternalID v = h_ID p"
    using step Some v by (simp_all add: in_step_def desired_def)
  then have "apply_record (worker c st opts) (served v) r =
      (Inr (zero_record\<lparr>activeNow := h_Enabled p, existed := True, enabledBefore := h_Enabled p,
         externalIDBefore := h_ID p\<rparr>),
       Reconciler.count (Unchanged_update Suc) ((Reconciler.count (Scanned_update Suc) r)\<lparr>r_world := (n, w1)\<rparr>))"
    using v look(1) r by (simp add: apply_record_def syncState_def Let_def beside_def on_snd_def)
  then show ?thesis by (rule that [where w' = w1]) (use look in \<open>simp_all add: wrote_nothing_def\<close>)
qed

lemma callback_idles:
  assumes tol: "tolerates (worker c st opts) (malformed_in U)" and k: "k < length U"
    and store: "ok w" "in_step (accounts w) (U ! k)" and count: "Malformed (wk_stats x) = malformed_in (take k U)"
    and wrote: "wrote_nothing (wk_stats x)"
  shows "\<exists>x' w'. walk_callback (worker c st opts) (Some observe_drift) (served (U ! k)) (x, n, w) = (None, x', n, w')
    \<and> ok w' \<and> accounts w' = accounts w \<and> wrote_nothing (wk_stats x')
    \<and> Malformed (wk_stats x') = malformed_in (take (Suc k) U)"
proof (cases "validate (U ! k) = []")
  case False
  have "malformed_in (take (Suc k) U) = Suc (Malformed (wk_stats x))" using k False count by (simp add: malformed_in_Suc)
  with tolerates_mono [OF tol malformed_in_take, of "Suc k"] False
    callback_malformed [of "served (U ! k)" "worker c st opts" x "Some observe_drift" "(n, w)"] obtain x' where
    "walk_callback (worker c st opts) (Some observe_drift) (served (U ! k)) (x, n, w) = (None, x', n, w)"
    "wk_stats x' = (wk_stats x)\<lparr>Scanned := Suc (Scanned (wk_stats x)), Malformed := Suc (Malformed (wk_stats x))\<rparr>"
    by auto
  with k False store wrote count show ?thesis by (auto simp: wrote_nothing_def malformed_in_Suc)
next
  case True
  obtain rec r' w2 where ran: "apply_record (worker c st opts) (served (U ! k)) (run_of x (n, w)) = (Inr rec, r')"
    "r_world r' = (n, w2)" "ok w2" "accounts w2 = accounts w" "Malformed (r_stats r') = Malformed (wk_stats x)"
    "wrote_nothing (wk_stats x) \<Longrightarrow> wrote_nothing (r_stats r')"
    by (rule apply_idle [OF _ store(1) True store(2), where r = "run_of x (n, w)" and n = n and c = c and opts = opts]) simp_all
  from callback_continues [OF ran(1), of "Some observe_drift"] True ran k wrote count
  show ?thesis by (auto simp: malformed_in_Suc)
qed

lemma full_idles:
  fixes n :: "fake net"
  defines "U \<equiv> fk_users (env n)"
  assumes talks: "talks_to_fake sniff host c" and clock: "steady_clock c"
    and psize: "pageSize (worker c st opts) \<le> int64_max" and tol: "tolerates (worker c st opts) (malformed_in U)"
    and fake: "servable (env n)" and store: "\<forall>u \<in> set U. in_step (accounts w) u" "ok w"
    and run: "Full (worker c st opts) m (n, w) = ((sts, dr, err), m', (n', w'))"
  shows "err = None \<and> ok w' \<and> accounts w' = accounts w \<and> wrote_nothing sts
    \<and> env n' = (env n)\<lparr>fk_requests := fk_requests (env n)
        + pages_of (nat (page_size (pageSize (worker c st opts)))) (length U)\<rparr>"
proof -
  let ?s = "worker c st opts"
  define I where "I j k s \<longleftrightarrow> ok (snd (snd s)) \<and> accounts (snd (snd s)) = accounts w
      \<and> env (fst (snd s)) = (env n)\<lparr>fk_requests := fk_requests (env n) + j\<rparr>
      \<and> wrote_nothing (wk_stats (fst s)) \<and> Malformed (wk_stats (fst s)) = malformed_in (take k U)"
    for j k :: nat and s :: "walk_state \<times> fake net \<times> 'w"
  have U: "distinct (map u_ID U)" "\<forall>u \<in> set U. u_ID u \<noteq> []" using fake by (auto simp: U_def servable_def)
  have all: "matched (filter_since []) us = us" for us by (simp add: matched_def filter_since_def is_zero_def)
  have step: "\<exists>s'. walk_callback ?s (Some observe_drift) (served (U ! k)) s = (None, s') \<and> I j (Suc k) s'"
    if "I j k s" "k < length U" for j k s
    using callback_idles [OF tol that(2), of "snd (snd s)" "fst s" "fst (snd s)"] that store(1)
    by (cases s) (auto simp: I_def)
  have walk: "\<exists>x n1 w1. client_ListUsers c [] (pageSize ?s) (walk_callback ?s (Some observe_drift)) (start_walk m, n, w0) =
      (None, x, n1, w1) \<and> ok w1 \<and> wrote_nothing (wk_stats x) \<and> accounts w1 = accounts w
      \<and> env n1 = (env n)\<lparr>fk_requests := fk_requests (env n) + pages_of (nat (page_size (pageSize ?s))) (length U)\<rparr>"
    if "ok w0" "accounts w0 = accounts w" for w0
  proof -
    have "\<exists>s'. client_ListUsers c [] (pageSize ?s) (walk_callback ?s (Some observe_drift)) (start_walk m, n, w0) = (None, s')
        \<and> I (pages_of (nat (page_size (pageSize ?s))) (length U)) (length U) s'"
    proof (rule client_ListUsers_invariant [OF talks])
      show "untouched_from k U [] (env (fst (snd s)))" if "I j k s" for j k s
        using that servable_untouched [OF fake, of k "[]"] by (simp add: I_def U_def all)
      show "I 0 0 (start_walk m, n, w0)"
        using that by (simp add: I_def start_walk_def wrote_nothing_def zero_stats_def malformed_in_def)
    qed (use step U psize in \<open>auto simp: I_def counted_def\<close>)
    then show ?thesis by (auto simp: I_def)
  qed
  from full_answers [OF clock store(2) walk run] show ?thesis by (auto simp: wrote_nothing_def)
qed

end

section \<open>The properties\<close>


text \<open>C8: A full cycle over a directory that is up leaves both sides in sync: it returns no error and no
  conflict, the directory still lists the same people, every usable record has the account it asks
  for or none, and carries that account's id as its external id.\<close>

theorem full_cycle_settles:
  assumes "available_store store ok accounts saved rnd"
    and "talks_to_fake sniff host c" and "steady_clock c" and "\<not> o_DryRun opts"
    and "pageSize (worker c store opts) \<le> int64_max"
    and "tolerates (worker c store opts) (malformed_in (fk_users (env n)))"
    and "all_writable (env n)" and "own_ids (fk_bound (env n)) (accounts w)" and "ok w"
    and "Full (worker c store opts) m (n, w) = ((sts, dr, err), m', (n', w'))"
  shows "err = None \<and> Conflicts sts = 0 \<and> list_all2 same_person (fk_users (env n')) (fk_users (env n))
    \<and> list_all (in_step (accounts w')) (fk_users (env n'))"
  using available_store.full_settles [OF assms] by (auto simp: settling_def list_all_iff dest: list_all2_lengthD)


definition sync_options :: options where
  "sync_options = \<lparr>o_PageSize = 2, o_Overlap = 0, o_MaxMalformed = 0, o_FutureSkew = 0, o_DryRun = False\<rparr>"

definition demo_pair :: "fake net \<times> mem_store" where
  "demo_pair = (\<lparr>lim_next = 0, env = demo_fake\<rparr>, mem_New int)"

lemma demo_people:
  "fk_users demo_fake = map (\<lambda>(i, t). demo_person i t) [(''a'', 10 * second), (''b'', 20 * second), (''c'', 30 * second)]"
  "fk_bound demo_fake = (\<lambda>_. None)"
  by (simp_all add: demo_fake_def Start_def bind_user_def demo_person_def zero_user_def)

lemma demo_person_usable:
  assumes "i \<noteq> []"
  shows "validate (demo_person i t) = []"
  using assms by (simp add: validate_def demo_person_def)

lemma demo_person_writable:
  assumes "i \<notin> {[], ''.'', ''..''}" and "0 \<le> t" and "t < 100 * second"
  shows "writable (demo_person i t)"
  using assms by (simp add: writable_def dated_def rebound_def set_modified_def demo_person_def max_rfc3339_def
      days_before_year_def seconds_per_day_def second_def)

lemma demo_sync:
  "steady_clock fake_client" "\<not> o_DryRun sync_options" "pageSize (worker fake_client mem_ops sync_options) \<le> int64_max"
  "tolerates (worker fake_client mem_ops sync_options) (malformed_in (fk_users demo_fake))" "all_writable demo_fake"
  "own_ids (fk_bound demo_fake) (mem_accounts (mem_New int))"
proof -
  show "steady_clock fake_client" by (simp add: steady_clock_def fake_client_fields fake_transport_def)
  show "\<not> o_DryRun sync_options" "pageSize (worker fake_client mem_ops sync_options) \<le> int64_max"
    by (simp_all add: sync_options_def worker_def syncer_New_def int64_max_def)
  have "malformed_in (fk_users demo_fake) = 0"
    by (simp add: malformed_in_def demo_people demo_person_usable)
  then show "tolerates (worker fake_client mem_ops sync_options) (malformed_in (fk_users demo_fake))"
    by (simp add: tolerates_def sync_options_def worker_def syncer_New_def DefaultMaxMalformed_def)
  show "all_writable demo_fake"
    using demo_servable demo_person_writable by (simp add: all_writable_def demo_people second_def)
  show "own_ids (fk_bound demo_fake) (mem_accounts (mem_New int))"
    by (simp add: own_ids_def demo_people(2))
qed

lemmas demo_cycle = mem_suite.available_store_axioms fake_client_talks demo_sync(1-3)

theorem full_cycle_settles_witness:
  "case Full (worker fake_client mem_ops sync_options) no_alerts demo_pair of ((sts, dr, err), m', (n', w')) \<Rightarrow>
     err = None \<and> Conflicts sts = 0 \<and> length (fk_users (env n')) = 3
     \<and> list_all (in_step (mem_accounts w')) (fk_users (env n'))"
proof -
  obtain sts dr err m' n' w' where run: "Full (worker fake_client mem_ops sync_options) no_alerts demo_pair =
      ((sts, dr, err), m', (n', w'))" by (metis prod.exhaust)
  from full_cycle_settles [OF demo_cycle _ _ _ _ run [unfolded demo_pair_def]] demo_sync(4-6)
  have "err = None \<and> Conflicts sts = 0 \<and> list_all2 same_person (fk_users (env n')) (fk_users demo_fake)
      \<and> list_all (in_step (mem_accounts w')) (fk_users (env n'))" by simp
  with run show ?thesis by (auto simp: demo_people dest: list_all2_lengthD)
qed


end
