(* ===== verification/Fake_Faults.thy ===== *)
theory Fake_Faults
  imports Fake_Properties
begin

text \<open>
  The fault injection of the fake (\<open>FailNext\<close>) against the retry loop of the client: as long as there
  are no more failures in the queue than retries, a call returns what it would have returned without
  them; one more, and the call returns the last failure.
\<close>

definition transient :: "fault \<Rightarrow> bool" where
  "transient f \<longleftrightarrow> ft_status f = 429 \<or> 500 \<le> ft_status f"

text \<open>A client whose waits end, one way or the other, without touching the directory.\<close>

definition patient :: "fake client \<Rightarrow> bool" where
  "patient c \<longleftrightarrow> (\<forall>d. snd (t_Now (cl_t c) d) = d) \<and> (\<forall>p d. cl_sleep c p d = (None, d))
     \<and> (\<forall>k d. \<not> isl (fst (cl_backoff c k d)) \<and> snd (cl_backoff c k d) = d)"

definition failure_answer :: "fault \<Rightarrow> response" where
  "failure_answer f = writeError (if ft_retryAfter f \<noteq> [] then [(''Retry-After'', ft_retryAfter f)] else [])
     (ft_status f) [] ''synthetic failure''"

lemma retryAfter_steady: "(\<And>d. snd (t_Now t d) = d) \<Longrightarrow> snd (retryAfter t resp n) = n"
  by (auto simp: retryAfter_def Let_def split: option.splits prod.splits) (metis snd_conv)+

lemma attempt_fails:
  assumes "talks_to_fake sniff host c" and "patient c" and "fk_raws d = []" and "fk_faults d = f # fs" and "transient f"
  obtains wait where "attempt_once c meth target body dec z d =
    ((wait, True, Inl (Scim (decodeError (failure_answer f)))), d\<lparr>fk_faults := fs, fk_requests := Suc (fk_requests d)\<rparr>)"
proof -
  define d' where "d' = d\<lparr>fk_faults := fs, fk_requests := Suc (fk_requests d)\<rparr>"
  have "handle sniff r d = (failure_answer f, d')" for r
    using assms(3,4) by (simp add: handle_def Let_def failure_answer_def d'_def)
  then have sent: "cl_hc c r d = (Inr (failure_answer f), d')" for r using assms(1) by (simp add: talks_to_fake_def)
  obtain wait b where "retryAfter (cl_t c) (failure_answer f) d' = ((wait, b), d')"
    using retryAfter_steady [of "cl_t c" "failure_answer f" d'] assms(2) by (metis patient_def prod.collapse)
  moreover have "rs_StatusCode (failure_answer f) = 429 \<or> 500 \<le> rs_StatusCode (failure_answer f)"
    using assms(5) by (simp add: transient_def failure_answer_def)
  ultimately show ?thesis by (intro that [of wait]) (simp add: attempt_once_def sent d'_def)
qed

text \<open>The retry loop eats the queue from the front.\<close>

definition spend :: "nat \<Rightarrow> fake \<Rightarrow> fake" where
  "spend j d = d\<lparr>fk_faults := drop j (fk_faults d), fk_requests := fk_requests d + j\<rparr>"

lemma do_from_faults:
  assumes "talks_to_fake sniff host c" and "patient c" and "fk_raws (env w) = []" and "fk_faults (env w) = f # fs"
    and "transient f"
  shows "do_from c meth target body dec z k w =
    (if cl_maxRetries c \<le> k then (Inl (Scim (decodeError (failure_answer f))), w\<lparr>env := spend 1 (env w)\<rparr>)
     else do_from c meth target body dec z (k + 1) (w\<lparr>env := spend 1 (env w)\<rparr>))"
proof -
  obtain wait where "attempt_once c meth target body dec z (env w) = ((wait, True,
      Inl (Scim (decodeError (failure_answer f)))), (env w)\<lparr>fk_faults := fs, fk_requests := Suc (fk_requests (env w))\<rparr>)"
    by (rule attempt_fails [OF assms])
  then have once: "attempt_once c meth target body dec z (env w) =
      ((wait, True, Inl (Scim (decodeError (failure_answer f)))), spend 1 (env w))"
    using assms(4) by (simp add: spend_def)
  have t: "cl_interval c = 0" "t_Err (cl_t c) = (\<lambda>d. (None, d))" using assms(1) by (simp_all add: talks_to_fake_def)
  have wait: "limiter_wait (cl_t c) (cl_interval c) (cl_sleep c) w = (None, w)"
    by (simp add: limiter_wait_def t in_env_def)
  have sleep: "in_env (cl_sleep c p) v = (None, v)" for p v using assms(2) by (simp add: in_env_def patient_def)
  obtain b where backoff: "in_env (cl_backoff c k) v = (Inr (b v), v)" for v
  proof -
    have "\<exists>b. in_env (cl_backoff c k) v = (Inr b, v)" for v
    proof -
      have "\<not> isl (fst (cl_backoff c k (env v)))" "snd (cl_backoff c k (env v)) = env v"
        using assms(2) by (simp_all add: patient_def)
      then show ?thesis
        by (cases "cl_backoff c k (env v)"; cases "fst (cl_backoff c k (env v))") (simp_all add: in_env_def)
    qed
    then show thesis using that by metis
  qed
  show ?thesis
    by (subst do_from.simps) (simp add: wait in_env_def [of "attempt_once c meth target body dec z"] once t(2)
        in_env_def [of "\<lambda>d. (None, d)"] sleep backoff)
qed

lemma spend_spend: "spend j (spend i d) = spend (i + j) d" and spend_raws: "fk_raws (spend j d) = fk_raws d"
  by (simp_all add: spend_def add.commute)

lemma do_from_absorbs:
  assumes "talks_to_fake sniff host c" and "patient c" and "fk_raws (env w) = []"
    and "list_all transient (fk_faults (env w))" and "k + int (length (fk_faults (env w))) \<le> cl_maxRetries c"
  shows "do_from c meth target body dec z k w = do_from c meth target body dec z (k + int (length (fk_faults (env w))))
    (w\<lparr>env := spend (length (fk_faults (env w))) (env w)\<rparr>)"
  using assms(3-5)
proof (induction "fk_faults (env w)" arbitrary: k w)
  case Nil
  then have "spend 0 (env w) = env w" by (simp add: spend_def)
  with Nil show ?case by simp
next
  case (Cons f fs)
  have f: "transient f" "fk_faults (env w) = f # fs" using Cons.hyps(2) Cons.prems(2) by (auto simp flip: Cons.hyps(2))
  have more: "\<not> cl_maxRetries c \<le> k" using Cons.prems(3) f(2) by simp
  define w1 where "w1 = w\<lparr>env := spend 1 (env w)\<rparr>"
  have w1: "fk_faults (env w1) = fs" "fk_raws (env w1) = []" using f(2) Cons.prems(1) by (simp_all add: w1_def spend_def)
  have "do_from c meth target body dec z k w = do_from c meth target body dec z (k + 1) w1"
    by (simp add: do_from_faults [OF assms(1,2) Cons.prems(1) f(2,1)] more w1_def del: One_nat_def)
  also have "\<dots> = do_from c meth target body dec z (k + 1 + int (length fs)) (w1\<lparr>env := spend (length fs) (env w1)\<rparr>)"
    using Cons.hyps(1) [of w1 "k + 1"] Cons.prems(2,3) w1 f(2) by simp
  also have "w1\<lparr>env := spend (length fs) (env w1)\<rparr> = w\<lparr>env := spend (length (fk_faults (env w))) (env w)\<rparr>"
    by (simp add: w1_def spend_spend f(2))
  finally show ?case by (simp add: f(2) add.assoc)
qed

lemma do_from_exhausts:
  assumes "talks_to_fake sniff host c" and "patient c" and "fk_raws (env w) = []"
    and "list_all transient (fk_faults (env w))" and "cl_maxRetries c < k + int (length (fk_faults (env w)))"
    and "k \<le> cl_maxRetries c"
  shows "do_from c meth target body dec z k w =
    (Inl (Scim (decodeError (failure_answer (fk_faults (env w) ! nat (cl_maxRetries c - k))))),
     w\<lparr>env := spend (Suc (nat (cl_maxRetries c - k))) (env w)\<rparr>)"
  using assms(3-6)
proof (induction "fk_faults (env w)" arbitrary: k w)
  case (Cons f fs)
  have f: "transient f" "fk_faults (env w) = f # fs" using Cons.hyps(2) Cons.prems(2) by (auto simp flip: Cons.hyps(2))
  note once = do_from_faults [OF assms(1,2) Cons.prems(1) f(2,1)]
  show ?case
  proof (cases "k = cl_maxRetries c")
    case True
    then show ?thesis by (simp add: once f(2))
  next
    case False
    define w1 where "w1 = w\<lparr>env := spend 1 (env w)\<rparr>"
    have w1: "fk_faults (env w1) = fs" "fk_raws (env w1) = []" using f(2) Cons.prems(1) by (simp_all add: w1_def spend_def)
    have n: "nat (cl_maxRetries c - k) = Suc (nat (cl_maxRetries c - (k + 1)))" using False Cons.prems(4) by simp
    have "do_from c meth target body dec z k w = do_from c meth target body dec z (k + 1) w1"
      using False Cons.prems(4) by (simp add: once w1_def del: One_nat_def)
    also have "\<dots> = (Inl (Scim (decodeError (failure_answer (fs ! nat (cl_maxRetries c - (k + 1)))))),
        w1\<lparr>env := spend (Suc (nat (cl_maxRetries c - (k + 1)))) (env w1)\<rparr>)"
      using Cons.hyps(1) [of w1 "k + 1"] Cons.prems(2-4) False w1 f(2) by simp
    finally show ?thesis by (simp add: f(2) n w1_def spend_spend)
  qed
qed simp

text \<open>Without failures the first attempt decides, whatever the number of the attempt.\<close>

lemma route_status: "rs_StatusCode (fst (route r d)) \<in> {200, 400, 403, 404, 409}"
proof -
  have "rs_StatusCode resp \<in> {403, 409}" if "patch_ops i xs d = (Some resp, d')" for i xs d resp d'
    using that by (induction xs arbitrary: d) (auto split: if_splits)
  then show ?thesis
    by (auto simp: route_def Let_def fake_list_def fake_get_def fake_patch_def unknown_id_def
        split: option.splits prod.splits) metis+
qed

lemma do_from_quiet:
  assumes "talks_to_fake sniff host c" and "quiet (env w)"
  shows "do_from c meth (resolve (cl_base c) ref) body dec z k w = do_request c meth ref body dec z w"
proof -
  obtain resp d' where r: "route (build_request c meth (resolve (cl_base c) ref) body) (counted (env w)) = (resp, d')" by fastforce
  have "rs_StatusCode resp \<in> {200, 400, 403, 404, 409}" using route_status r by (metis fst_conv)
  then have "rs_StatusCode resp \<noteq> 429" "rs_StatusCode resp < 500" by auto
  note quiet = do_from_fake [OF assms r this]
  show ?thesis unfolding do_request_def quiet ..
qed

text \<open>C40: Transient failures of the directory that fit the retries are not seen by the caller: the call
  returns what it would have returned without them, and only the number of requests tells. One
  more, and it returns the failure its last attempt met, having used up exactly its attempts.\<close>

theorem transient_failures_absorbed:
  assumes "talks_to_fake sniff host c" and "patient c" and "0 \<le> cl_maxRetries c"
    and "fk_raws (env w) = []" and "list_all transient (fk_faults (env w))"
  shows "do_request c meth ref body dec z w =
    (if int (length (fk_faults (env w))) \<le> cl_maxRetries c
     then do_request c meth ref body dec z (w\<lparr>env := spend (length (fk_faults (env w))) (env w)\<rparr>)
     else (Inl (Scim (decodeError (failure_answer (fk_faults (env w) ! nat (cl_maxRetries c))))),
           w\<lparr>env := spend (Suc (nat (cl_maxRetries c))) (env w)\<rparr>))"
proof (cases "int (length (fk_faults (env w))) \<le> cl_maxRetries c")
  case True
  define w1 where "w1 = w\<lparr>env := spend (length (fk_faults (env w))) (env w)\<rparr>"
  have "quiet (env w1)" using assms(4) by (simp add: w1_def quiet_def spend_def)
  note eq = do_from_quiet [OF assms(1) this, unfolded w1_def] do_from_absorbs [OF assms(1,2,4,5), of 0]
  show ?thesis using True by (simp add: do_request_def [of c meth ref body dec z w] eq)
next
  case False
  then show ?thesis using assms(3) by (simp add: do_request_def do_from_exhausts [OF assms(1,2,4,5)])
qed

definition patient_client :: "fake client" where
  "patient_client = fake_client\<lparr>cl_sleep := (\<lambda>_ d. (None, d)), cl_backoff := (\<lambda>_ d. (Inr 0, d))\<rparr>"

definition failing :: "nat \<Rightarrow> fake net" where
  "failing n = \<lparr>lim_next = 0, env = (FailNext 503 [] ^^ n) demo_fake\<rparr>"

lemma patient_client_facts:
  "talks_to_fake (\<lambda>_. ''text/plain'') ''127.0.0.1:8080'' patient_client" "patient patient_client"
  "cl_maxRetries patient_client = 4"
  using fake_client_talks
  by (simp_all add: patient_client_def talks_to_fake_def patient_def fake_client_fields)
    (simp add: fake_transport_def)

lemma failing_facts: "fk_raws (env (failing n)) = []" "fk_faults (env (failing n)) = replicate n \<lparr>ft_status = 503, ft_retryAfter = []\<rparr>"
proof -
  have "fk_raws ((FailNext 503 [] ^^ n) demo_fake) = [] \<and>
      fk_faults ((FailNext 503 [] ^^ n) demo_fake) = replicate n \<lparr>ft_status = 503, ft_retryAfter = []\<rparr>"
    by (induction n) (simp_all add: FailNext_def demo_fake_def Start_def replicate_append_same)
  then show "fk_raws (env (failing n)) = []" "fk_faults (env (failing n)) = replicate n \<lparr>ft_status = 503, ft_retryAfter = []\<rparr>"
    by (simp_all add: failing_def)
qed

theorem transient_failures_absorbed_witness:
  "do_request patient_client ''GET'' ''Users/a'' None dec_user zero_user (failing 3) =
     do_request patient_client ''GET'' ''Users/a'' None dec_user zero_user ((failing 3)\<lparr>env := spend 3 (env (failing 3))\<rparr>)
   \<and> do_request patient_client ''GET'' ''Users/a'' None dec_user zero_user (failing 7) =
     (Inl (Scim (decodeError (failure_answer \<lparr>ft_status = 503, ft_retryAfter = []\<rparr>))),
      (failing 7)\<lparr>env := spend 5 (env (failing 7))\<rparr>)"
proof -
  have "list_all transient (fk_faults (env (failing n)))" for n
    by (simp add: failing_facts list_all_iff transient_def)
  note run = transient_failures_absorbed [OF patient_client_facts(1,2) _ failing_facts(1) this]
  have "do_request patient_client ''GET'' ''Users/a'' None dec_user zero_user (failing k) =
    (if k \<le> 4 then do_request patient_client ''GET'' ''Users/a'' None dec_user zero_user ((failing k)\<lparr>env := spend k (env (failing k))\<rparr>)
     else (Inl (Scim (decodeError (failure_answer \<lparr>ft_status = 503, ft_retryAfter = []\<rparr>))),
      (failing k)\<lparr>env := spend 5 (env (failing k))\<rparr>))" for k
    by (subst run) (simp_all add: failing_facts patient_client_facts(3))
  note this [of 3] this [of 7]
  then show ?thesis by simp
qed

end
