(* ===== verification/Fake_Conforms.thy ===== *)
theory Fake_Conforms
  imports Fake_Properties Conformance_Results
begin

text \<open>
  The conformance suite run through the client against the fake directory: the reference directory
  of the repository's own tests passes the first phase, and with it a read-only run. What the suite
  asks of the records themselves is \<open>conforming\<close>; the second phase is in \<open>Fake_Writes\<close>.
\<close>

section \<open>The calls of the suite\<close>

text \<open>The suite only reads, so the fake differs from the start in the count of requests alone.\<close>

definition same_directory :: "fake \<Rightarrow> fake \<Rightarrow> bool" where
  "same_directory d0 d \<longleftrightarrow> (\<exists>n. d = d0\<lparr>fk_requests := n\<rparr>)"

lemma same_directory_refl [simp, intro]: "same_directory d d"
  unfolding same_directory_def by (rule exI [of _ "fk_requests d"]) simp

lemma same_directory_counted: "same_directory d0 d \<Longrightarrow> same_directory d0 (counted d)"
  by (auto simp: same_directory_def counted_def)

lemma same_directory_view:
  assumes "same_directory d0 d"
  shows "fk_users d = fk_users d0" and "servable d = servable d0" and "quiet d = quiet d0"
    and "fk_ignoreStartIndex d = fk_ignoreStartIndex d0" and "User i d = User i d0"
  using assms by (auto simp: same_directory_def servable_def quiet_def User_def)

definition still_clock :: "'n client \<Rightarrow> time \<Rightarrow> bool" where
  "still_clock c t \<longleftrightarrow> (\<forall>d. t_Now (cl_t c) d = (t, d))"

definition asked_page :: "int \<Rightarrow> int \<Rightarrow> time \<Rightarrow> fake \<Rightarrow> list_response" where
  "asked_page i n since d = list_answer i n since (fk_users d)"

lemma page_call:
  assumes "talks_to_fake sniff host c" and "servable d0" and "same_directory d0 (env (rn_world r))"
    and "in_int64 i" "1 \<le> i" "in_int64 n" "1 \<le> n"
  obtains w where "ask (pd_Page (client_probe c) filt i n) r = (Inr (asked_page i n (filter_since filt) d0), r\<lparr>rn_world := w\<rparr>)"
    "same_directory d0 (env w)"
proof -
  have "Page c filt i n (rn_world r) =
      (Inr (asked_page i n (filter_since filt) d0), (rn_world r)\<lparr>env := counted (env (rn_world r))\<rparr>)"
    using Page_fake [OF assms(1) _ _ assms(4-7), of "rn_world r" filt] assms(2) same_directory_view [OF assms(3)]
    by (simp add: servable_def asked_page_def)
  then show ?thesis
    using same_directory_counted [OF assms(3)]
    by (intro that [where w = "(rn_world r)\<lparr>env := counted (env (rn_world r))\<rparr>"]) (simp_all add: ask_def client_probe_def)
qed

lemma get_call:
  assumes "talks_to_fake sniff host c" and "servable d0" and "same_directory d0 (env (rn_world r))" and "i \<notin> {''.'', ''..''}"
  obtains w where "ask (pd_GetUser (client_probe c) i) r =
      (case User i d0 of None \<Rightarrow> Inl (Scim unknown_error) | Some u \<Rightarrow> Inr (served u), r\<lparr>rn_world := w\<rparr>)"
    "same_directory d0 (env w)"
proof -
  have "dated u" if "User i d0 = Some u" for u
    using that assms(2) by (auto simp: servable_def User_def find_Some_iff)
  then have "GetUser c i (rn_world r) =
      (case User i d0 of None \<Rightarrow> Inl (Scim unknown_error) | Some u \<Rightarrow> Inr (served u),
       (rn_world r)\<lparr>env := counted (env (rn_world r))\<rparr>)"
    using GetUser_fake [OF assms(1) _ assms(4), of "rn_world r"] assms(2) same_directory_view [OF assms(3)]
    by (simp add: servable_def)
  then show ?thesis
    using same_directory_counted [OF assms(3)]
    by (intro that [where w = "(rn_world r)\<lparr>env := counted (env (rn_world r))\<rparr>"]) (simp_all add: ask_def client_probe_def)
qed

definition fake_config :: provider_config where
  "fake_config = \<lparr>pc_Schemas = [], pc_PatchSupported = True, pc_FilterSupported = True, pc_FilterMaxResults = 500\<rparr>"

lemma route_config:
  assumes "trim_prefix (url_path (rq_URL r)) ''/'' = ''ServiceProviderConfig''" and "rq_Method r = ''GET''"
  shows "route r d = (writeJSON [] 200 (Some provider_json), d)"
  using assms(2) unfolding route_def Let_def assms(1) by (simp add: has_prefix_def)

lemma config_call:
  assumes "talks_to_fake sniff host c" and "servable d0" and "same_directory d0 (env (rn_world r))"
  obtains w where "ask (pd_Config (client_probe c)) r = (Inr fake_config, r\<lparr>rn_world := w\<rparr>)" "same_directory d0 (env w)"
proof -
  define target where "target = resolve (cl_base c) ''ServiceProviderConfig''"
  have "join_slash (resolve_dots [] (split_at CHR ''/'' (takeWhile (\<lambda>c. c \<noteq> CHR ''?'') ''ServiceProviderConfig'')))
      @ dropWhile (\<lambda>c. c \<noteq> CHR ''?'') ''ServiceProviderConfig'' = ''ServiceProviderConfig''" by code_simp
  then have "target = ''http://'' @ host @ ''/'' @ ''ServiceProviderConfig''"
    unfolding target_def resolve_def base_talks(1) [OF assms(1)] append_assoc by (rule arg_cong [where f = "\<lambda>x. ''http://'' @ host @ ''/'' @ x"])
  then have "url_path target = CHR ''/'' # unescape False (takeWhile (\<lambda>c. c \<noteq> CHR ''?'') ''ServiceProviderConfig'')"
    by (simp only: url_path_host [OF base_talks(3) [OF assms(1)]])
  moreover have "unescape False (takeWhile (\<lambda>c. c \<noteq> CHR ''?'') ''ServiceProviderConfig'') = ''ServiceProviderConfig''"
    by (subst unescape_plain) simp_all
  ultimately have whole: "url_path target = ''/'' @ ''ServiceProviderConfig''" by (simp only: append_Cons append_Nil)
  have path: "trim_prefix (url_path target) ''/'' = ''ServiceProviderConfig''" unfolding whole by (rule trim_prefix_append)
  have "route (build_request c ''GET'' target None) (counted (env (rn_world r))) =
      (writeJSON [] 200 (Some provider_json), counted (env (rn_world r)))"
    by (rule route_config) (simp_all only: build_request_def request.simps path)
  note route = this [unfolded target_def]
  have "printable provider_json" by (simp add: provider_json_def)
  moreover have "dec_provider_config provider_json zero_provider_config = Some fake_config" by code_simp
  ultimately have "ServiceProviderConfig c (rn_world r) = (Inr fake_config, (rn_world r)\<lparr>env := counted (env (rn_world r))\<rparr>)"
    unfolding ServiceProviderConfig_def using assms(2) same_directory_view(3) [OF assms(3)]
    by (subst do_request_fake [OF assms(1) _ route]) (simp_all add: servable_def read_written)
  then show ?thesis
    using same_directory_counted [OF assms(3)]
    by (intro that [where w = "(rn_world r)\<lparr>env := counted (env (rn_world r))\<rparr>"]) (simp_all add: ask_def client_probe_def)
qed

lemma now_call:
  assumes "still_clock c t"
  shows "ask (pd_Now (client_probe c)) r = (t, r)"
  using assms by (cases r; cases "rn_world r") (simp add: ask_def client_probe_def in_env_def still_clock_def)

section \<open>What the suite asks of the records\<close>

definition unix_epoch :: time where
  "unix_epoch = days_before_year 1970 * seconds_per_day * second"

definition conforming_user :: "probe_options \<Rightarrow> time \<Rightarrow> user \<Rightarrow> bool" where
  "conforming_user opt t u \<longleftrightarrow>
     trim_space (u_ID u) \<noteq> [] \<and> u_ID u \<notin> {''.'', ''..'', Conformance_Checks.unknown_id} \<and> u_Active u \<noteq> None
     \<and> has_suffix (to_lower (u_UserName u)) (alias_suffix opt)
     \<and> list_all (\<lambda>e. has_suffix (to_lower (e_Value e)) (alias_suffix opt)) (u_Emails u)
     \<and> unix_epoch < LastModified u \<and> LastModified u \<le> t + hour \<and> LastModified u + 24 * hour < max_rfc3339"

definition conforming :: "probe_options \<Rightarrow> time \<Rightarrow> fake \<Rightarrow> bool" where
  "conforming opt t d \<longleftrightarrow> servable d \<and> 2 \<le> length (fk_users d) \<and> list_all (conforming_user opt t) (fk_users d)"

text \<open>The runner after the first check, for a page size \<open>n\<close>.\<close>

definition probed :: "nat \<Rightarrow> fake \<Rightarrow> fake net runner \<Rightarrow> bool" where
  "probed n d0 r \<longleftrightarrow> rn_blocked r = [] \<and> rn_page r = Some (asked_page 1 (int n) zero_time d0)
     \<and> rn_users r = map served (take n (fk_users d0)) \<and> rn_sample r = served (hd (fk_users d0))
     \<and> rn_newest r = foldl newer zero_time (map served (take n (fk_users d0)))
     \<and> same_directory d0 (env (rn_world r))"

definition passed :: "phase \<Rightarrow> criterion \<Rightarrow> fake \<Rightarrow> fake net runner \<Rightarrow> fake net runner \<Rightarrow> bool" where
  "passed ph c d0 r r' \<longleftrightarrow>
     (\<exists>w detail. same_directory d0 (env w) \<and> r' = add_case ph c Pass detail (r\<lparr>rn_world := w\<rparr>))"

lemma passedI: "same_directory d0 (env w) \<Longrightarrow> passed ph c d0 r (pass_case ph c detail (r\<lparr>rn_world := w\<rparr>))"
  by (auto simp: passed_def pass_case_def)

lemma passed_here: "same_directory d0 (env (rn_world r)) \<Longrightarrow> passed ph c d0 r (pass_case ph c detail r)"
  using passedI [of d0 "rn_world r" ph c r detail] by simp

lemma passed_probed: "passed ph c d0 r r' \<Longrightarrow> probed n d0 r \<Longrightarrow> probed n d0 r'"
  by (auto simp: passed_def probed_def)

lemma passed_statuses: "passed ph c d0 r r' \<Longrightarrow> map cs_Status (rn_cases r') = map cs_Status (rn_cases r) @ [Pass]"
  by (auto simp: passed_def add_case_def)

lemma pages_read:
  fixes m n :: nat
  assumes "\<forall>u \<in> set (fk_users d). dated u"
  shows "Users (asked_page (1 + int m) (int n) zero_time d) = Inr (map served (take n (drop m (fk_users d))))"
    and "lr_TotalResults (asked_page i k zero_time d) = int (length (fk_users d))"
    and "lr_StartIndex (asked_page i k since d) = i"
    and "length (lr_Resources (asked_page (1 + int m) (int n) zero_time d)) = min n (length (fk_users d) - m)"
proof -
  have all: "matched zero_time us = us" for us by (simp add: matched_def is_zero_def)
  have decode: "decode_users j (map (\<lambda>u. user_json (served u)) us) = Inr (map served us)" if "\<forall>u \<in> set us. dated u" for j us
    using that by (induction us arbitrary: j) (simp_all add: unmarshal_def dec_user_json)
  have dated: "\<forall>u \<in> set (take n (drop m (fk_users d))). dated u"
    using assms by (auto dest!: in_set_takeD in_set_dropD)
  then have raws: "lr_Resources (asked_page (1 + int m) (int n) zero_time d) =
      map (\<lambda>u. user_json (served u)) (take n (drop m (fk_users d)))"
    by (simp add: asked_page_def list_answer_def Let_def page_of_take_drop all dated_four_digits)
  then show "Users (asked_page (1 + int m) (int n) zero_time d) = Inr (map served (take n (drop m (fk_users d))))"
    by (simp only: Users_def decode [OF dated])
  show "length (lr_Resources (asked_page (1 + int m) (int n) zero_time d)) = min n (length (fk_users d) - m)"
    by (simp add: raws)
  show "lr_TotalResults (asked_page i k zero_time d) = int (length (fk_users d))" "lr_StartIndex (asked_page i k since d) = i"
    by (simp_all add: asked_page_def list_answer_def Let_def all)
qed

lemma newest_bounds:
  "(\<forall>u \<in> set us. LastModified u \<le> foldl newer t us)
   \<and> (foldl newer t us = t \<or> (\<exists>u \<in> set us. foldl newer t us = LastModified u)) \<and> t \<le> foldl newer t us"
proof (induction us arbitrary: t)
  case (Cons u us)
  from Cons [of "newer t u"] show ?case by (auto simp: newer_def after_def split: if_splits)
qed simp

lemma conforming_user_served [simp]: "conforming_user opt t (served u) = conforming_user opt t u"
  by (simp add: conforming_user_def)

lemma hour_positive: "0 < hour" by (simp add: unit_defs)

lemma unix_epoch_positive: "0 < unix_epoch" by code_simp

text \<open>A run of the suite against such a directory, with pages of \<open>n\<close> records.\<close>

definition conforming_run ::
  "(string \<Rightarrow> string) \<Rightarrow> string \<Rightarrow> fake client \<Rightarrow> probe_options \<Rightarrow> time \<Rightarrow> fake \<Rightarrow> nat \<Rightarrow> bool" where
  "conforming_run sniff host c opt t d0 n \<longleftrightarrow>
     talks_to_fake sniff host c \<and> still_clock c t \<and> conforming opt t d0
     \<and> pb_PageSize opt = int n \<and> 0 < n \<and> int n \<le> int64_max \<and> pb_AliasDomain opt \<noteq> []"

lemma directory:
  assumes "conforming_run sniff host c opt t d0 n"
  shows "servable d0" and "2 \<le> length (fk_users d0)" and "u \<in> set (fk_users d0) \<Longrightarrow> conforming_user opt t u"
    and "\<forall>u \<in> set (fk_users d0). dated u" and "fk_users d0 \<noteq> []" and "distinct (map u_ID (fk_users d0))"
    and "talks_to_fake sniff host c" and "still_clock c t" and "pb_PageSize opt = int n"
    and "in_int64 (int n)" and "1 \<le> int n"
  using assms by (auto simp: conforming_run_def conforming_def list_all_iff servable_def in_int64_def int64_min_def)

lemma sampled:
  assumes run: "conforming_run sniff host c opt t d0 n" and "probed n d0 r"
  shows "rn_users r \<noteq> []" and "u \<in> set (rn_users r) \<Longrightarrow> conforming_user opt t u"
    and "distinct (map u_ID (rn_users r))" and "same_directory d0 (env (rn_world r))" and "rn_blocked r = []"
    and "rn_page r = Some (asked_page 1 (int n) zero_time d0)" and "rn_sample r = served (fk_users d0 ! 0)"
proof -
  note d = directory [OF run]
  have users: "rn_users r = map served (take n (fk_users d0))" using assms(2) by (simp add: probed_def)
  show "rn_users r \<noteq> []" using d(5,11) by (simp add: users)
  show "conforming_user opt t u" if "u \<in> set (rn_users r)"
    using that d(3) by (auto simp: users dest: in_set_takeD)
  show "distinct (map u_ID (rn_users r))" using d(6) by (simp add: users comp_def take_map [symmetric])
  show "rn_sample r = served (fk_users d0 ! 0)" using assms(2) d(5) by (simp add: probed_def hd_conv_nth)
qed (use assms(2) in \<open>simp_all add: probed_def\<close>)

lemma newest:
  assumes run: "conforming_run sniff host c opt t d0 n" and "probed n d0 r"
  shows "0 < rn_newest r" and "rn_newest r \<le> t + hour" and "rn_newest r + 24 * hour < max_rfc3339"
    and "LastModified (fk_users d0 ! 0) \<le> rn_newest r"
proof -
  note d = directory [OF run] and s = sampled [OF assms]
  have eq: "rn_newest r = foldl newer zero_time (rn_users r)" "rn_users r = map served (take n (fk_users d0))"
    using assms(2) by (simp_all add: probed_def)
  have "served (fk_users d0 ! 0) \<in> set (rn_users r)" using d(5,11) unfolding eq(2) by (cases "fk_users d0"; cases n) auto
  then have first: "LastModified (served (fk_users d0 ! 0)) \<le> rn_newest r" and "conforming_user opt t (served (fk_users d0 ! 0))"
    using newest_bounds [of "rn_users r" zero_time] s(2) unfolding eq(1) by blast+
  then show pos: "0 < rn_newest r" and "LastModified (fk_users d0 ! 0) \<le> rn_newest r"
    using unix_epoch_positive by (simp_all add: conforming_user_def)
  from pos newest_bounds [of "rn_users r" zero_time, folded eq(1)]
  obtain v where "v \<in> set (rn_users r)" "rn_newest r = LastModified v" by (auto simp: zero_time_def)
  with s(2) [of v] show "rn_newest r \<le> t + hour" "rn_newest r + 24 * hour < max_rfc3339"
    by (simp_all add: conforming_user_def)
qed

section \<open>The checks\<close>

lemma envelope_passes:
  assumes "conforming_run sniff host c opt t d0 n" and "probed n d0 r"
  shows "passed PhaseOne c102 d0 r (checkEnvelope r)"
proof -
  note s = sampled [OF assms] and pages = pages_read [OF directory(4) [OF assms(1)]]
  have "length (lr_Resources (asked_page 1 (int n) zero_time d0)) = min n (length (fk_users d0))"
    using pages(4) [of 0 n] by simp
  with s(4) show ?thesis
    by (simp add: checkEnvelope_def unless_blocked_def s(5,6) pages(2,3) passed_here)
qed

lemma ids_from_fine:
  "\<forall>u \<in> set us. trim_space (u_ID u) \<noteq> [] \<Longrightarrow> distinct (map u_ID us) \<Longrightarrow> u_ID ` set us \<inter> set seen = {} \<Longrightarrow>
   ids_from seen us = Inr (rev (map u_ID us) @ seen)"
  by (induction us arbitrary: seen) auto

lemma ids_pass:
  assumes "conforming_run sniff host c opt t d0 n" and "probed n d0 r"
  shows "passed PhaseOne c103 d0 r (checkStableIDs r)"
proof -
  note s = sampled [OF assms]
  have "ids_from [] (rn_users r) = Inr (rev (map u_ID (rn_users r)) @ [])"
    by (rule ids_from_fine) (use s(2,3) in \<open>auto simp: conforming_user_def\<close>)
  with s(1,4,5) show ?thesis by (simp add: checkStableIDs_def unless_blocked_def passed_here)
qed

lemma active_passes:
  assumes "conforming_run sniff host c opt t d0 n" and "probed n d0 r"
  shows "passed PhaseOne c104 d0 r (checkActiveFlag r)"
proof -
  note s = sampled [OF assms]
  have "find (\<lambda>u. u_Active u = None) (rn_users r) = None"
    using s(2) by (auto simp: find_None_iff conforming_user_def)
  with s(1,4,5) show ?thesis by (simp add: checkActiveFlag_def unless_blocked_def passed_here)
qed

lemma alias_complaint_none:
  "\<forall>u \<in> set us. conforming_user opt t u \<Longrightarrow> alias_complaint (alias_suffix opt) us = None"
  by (induction us) (auto simp: conforming_user_def list_all_iff)

lemma alias_passes:
  assumes "conforming_run sniff host c opt t d0 n" and "probed n d0 r"
  shows "passed PhaseOne c105 d0 r (checkAlias opt r)"
proof -
  note s = sampled [OF assms]
  have "alias_complaint (alias_suffix opt) (rn_users r) = None"
    by (rule alias_complaint_none) (use s(2) in blast)
  moreover have "pb_AliasDomain opt \<noteq> []" using assms(1) by (simp add: conforming_run_def)
  ultimately show ?thesis using s(1,4,5) by (simp add: checkAlias_def unless_blocked_def passed_here)
qed

lemma meta_passes:
  assumes "conforming_run sniff host c opt t d0 n" and "probed n d0 r"
  shows "passed PhaseOne c106 d0 r (checkMeta (client_probe c) r)"
proof -
  note s = sampled [OF assms] and clock = now_call [OF directory(8) [OF assms(1)]]
  have "find (\<lambda>u. is_zero (LastModified u)) (rn_users r) = None"
    using s(2) unix_epoch_positive by (fastforce simp: find_None_iff conforming_user_def is_zero_def zero_time_def)
  moreover have "time_sub (rn_newest r) t \<le> hour"
    using newest(2) [OF assms] by (simp add: time_sub_def unit_defs int64_min_def)
  ultimately show ?thesis using s(1,4,5)
    by (simp add: checkMeta_def unless_blocked_def clock [simplified] Let_def passed_here)
qed

lemma pagination_passes:
  assumes run: "conforming_run sniff host c opt t d0 n" and "probed n d0 r"
  shows "passed PhaseOne c107 d0 r (checkPagination (client_probe c) opt r)"
proof -
  note s = sampled [OF assms] and d = directory [OF run] and pages = pages_read [OF directory(4) [OF run]]
  obtain w where w: "ask (pd_Page (client_probe c) [] 2 (int n)) r = (Inr (asked_page 2 (int n) zero_time d0), r\<lparr>rn_world := w\<rparr>)"
    "same_directory d0 (env w)"
    using page_call [OF d(7,1) s(4), where i = 2 and n = "int n" and filt = "[]"] d(10,11)
    by (auto simp: in_int64_def int64_min_def int64_max_def filter_since_def)
  have "length (lr_Resources (asked_page 1 (int n) zero_time d0)) \<le> n"
    using pages(4) [of 0 n] by simp
  moreover have "Users (asked_page 2 (int n) zero_time d0) = Inr (map served (take n (drop 1 (fk_users d0))))"
    using pages(1) [of 1 n] by simp
  moreover obtain u v us where users: "fk_users d0 = u # v # us"
    using d(2) by (cases "fk_users d0"; cases "tl (fk_users d0)") auto
  moreover have "u_ID v \<noteq> u_ID u" using d(6) unfolding users by auto
  moreover obtain m where "n = Suc m" using d(11) by (cases n) auto
  ultimately show ?thesis
    using w d(9) s(5-7) by (simp add: checkPagination_def unless_blocked_def pages(2) users passedI)
qed

lemma total_matched: "lr_TotalResults (asked_page i n since d) = int (length (matched since (fk_users d)))"
  by (simp add: asked_page_def list_answer_def Let_def)

lemma future_narrows:
  assumes "conforming_run sniff host c opt t d0 n" and "probed n d0 r"
  shows "length (matched (filter_since (''meta.lastModified gt '' @ quote (future_bound (rn_newest r)))) (fk_users d0))
    < length (fk_users d0)"
proof -
  note d = directory [OF assms(1)] and new = newest [OF assms]
  define since where "since = rn_newest r + 24 * hour - (rn_newest r + 24 * hour) mod second"
  have "filter_since (''meta.lastModified gt '' @ quote (future_bound (rn_newest r))) = since"
    using filterRE_incremental [of "rn_newest r + 24 * hour"] parse_format_rfc3339 [of "rn_newest r + 24 * hour"] new(1,3)
    by (simp add: filter_since_def quote_def future_bound_def since_def unit_defs)
  moreover have "rn_newest r < since"
    using pos_mod_bound [of second "rn_newest r + 24 * hour"] by (simp add: since_def unit_defs)
  then have "\<not> (is_zero since \<or> after (LastModified (fk_users d0 ! 0)) since)"
    using new(1,4) by (simp add: time_defs)
  then have "length (matched since (fk_users d0)) < length (fk_users d0)"
    unfolding matched_def using d(5) by (intro length_filter_less [of "fk_users d0 ! 0"]) simp_all
  ultimately show ?thesis by simp
qed

lemma epoch_keeps_all:
  assumes "conforming_run sniff host c opt t d0 n"
  shows "matched (filter_since epoch_filter) (fk_users d0) = fk_users d0"
proof -
  have "filter_since epoch_filter = unix_epoch" by code_simp
  then show ?thesis using directory(3) [OF assms]
    by (auto simp: matched_def after_def conforming_user_def intro!: filter_True)
qed

lemma filtering_passes:
  assumes run: "conforming_run sniff host c opt t d0 n" and "probed n d0 r"
  shows "passed PhaseOne c108 d0 r (checkFiltering (client_probe c) opt r)"
proof -
  note s = sampled [OF assms] and d = directory [OF run]
  define bound where "bound = ''meta.lastModified gt '' @ quote (future_bound (rn_newest r))"
  have one: "in_int64 1" "(1::int) \<le> 1" by (simp_all add: in_int64_def int64_min_def int64_max_def)
  obtain w1 where w1: "ask (pd_Page (client_probe c) bound 1 (int n)) r =
      (Inr (asked_page 1 (int n) (filter_since bound) d0), r\<lparr>rn_world := w1\<rparr>)" "same_directory d0 (env w1)"
    by (rule page_call [OF d(7,1) s(4) one d(10,11), where filt = bound])
  obtain w2 where w2: "ask (pd_Page (client_probe c) epoch_filter 1 (int n)) (r\<lparr>rn_world := w1\<rparr>) =
      (Inr (asked_page 1 (int n) (filter_since epoch_filter) d0), r\<lparr>rn_world := w1, rn_world := w2\<rparr>)" "same_directory d0 (env w2)"
    by (rule page_call [OF d(7,1) _ one d(10,11), where filt = epoch_filter and r = "r\<lparr>rn_world := w1\<rparr>"])
      (simp_all add: w1(2))
  have "matched zero_time us = us" for us by (simp add: matched_def is_zero_def)
  moreover have "length (matched (filter_since bound) (fk_users d0)) < length (fk_users d0)"
    unfolding bound_def by (rule future_narrows [OF assms])
  moreover have "\<not> is_zero (rn_newest r)" using newest(1) [OF assms] by (simp add: time_defs)
  ultimately show ?thesis
    using w1 w2 d(9) s(5,6)
    by (simp add: checkFiltering_def unless_blocked_def bound_def total_matched epoch_keeps_all [OF run] passedI)
qed

lemma single_passes:
  assumes run: "conforming_run sniff host c opt t d0 n" and "probed n d0 r"
  shows "passed PhaseOne c109 d0 r (checkSingleRead (client_probe c) r)"
proof -
  note s = sampled [OF assms] and d = directory [OF run]
  obtain u us where users: "fk_users d0 = u # us" using d(5) by (cases "fk_users d0") auto
  have u: "conforming_user opt t u" "u_ID u \<noteq> []" using d(1,3) by (simp_all add: users servable_def)
  then have "u_ID u \<notin> {''.'', ''..''}" by (simp add: conforming_user_def)
  from get_call [OF d(7,1) s(4) this] obtain w where
    "ask (pd_GetUser (client_probe c) (u_ID u)) r = (Inr (served u), r\<lparr>rn_world := w\<rparr>)" "same_directory d0 (env w)"
    by (auto simp: User_def users)
  with s(5,7) u show ?thesis
    by (auto simp: checkSingleRead_def unless_blocked_def users passedI conforming_user_def)
qed

lemma unknown_passes:
  assumes run: "conforming_run sniff host c opt t d0 n" and "probed n d0 r"
  shows "passed PhaseOne c110 d0 r (checkUnknownID (client_probe c) r)"
proof -
  note s = sampled [OF assms] and d = directory [OF run]
  have "Conformance_Checks.unknown_id \<notin> {''.'', ''..''}" by (simp add: Conformance_Checks.unknown_id_def)
  moreover have "User Conformance_Checks.unknown_id d0 = None"
    using d(3) by (auto simp: User_def find_None_iff conforming_user_def)
  ultimately obtain w where
    "ask (pd_GetUser (client_probe c) Conformance_Checks.unknown_id) r = (Inl (Scim unknown_error), r\<lparr>rn_world := w\<rparr>)"
    "same_directory d0 (env w)"
    using get_call [OF d(7,1) s(4)] by (metis option.case(1))
  with s(5) unknown_NotFound show ?thesis
    by (simp add: checkUnknownID_def unless_blocked_def passedI)
qed

lemma config_passes:
  assumes run: "conforming_run sniff host c opt t d0 n" and "probed n d0 r"
  shows "passed PhaseOne c111 d0 r (checkProviderConfig (client_probe c) r)"
proof -
  note s = sampled [OF assms] and d = directory [OF run]
  obtain w where w: "ask (pd_Config (client_probe c)) r = (Inr fake_config, r\<lparr>rn_world := w\<rparr>)" "same_directory d0 (env w)"
    by (rule config_call [OF d(7,1) s(4)])
  have "missing_capabilities fake_config = []" by (simp add: missing_capabilities_def fake_config_def)
  with w s(5) show ?thesis by (simp add: checkProviderConfig_def unless_blocked_def passedI)
qed

section \<open>The run\<close>

definition passes :: "nat \<Rightarrow> nat \<Rightarrow> fake \<Rightarrow> fake net runner \<Rightarrow> bool" where
  "passes k n d0 r \<longleftrightarrow> probed n d0 r \<and> map cs_Status (rn_cases r) = replicate k Pass"

lemma passes_more: "passes k n d0 r \<Longrightarrow> (probed n d0 r \<Longrightarrow> passed ph cr d0 r r') \<Longrightarrow> passes (Suc k) n d0 r'"
  by (simp add: passes_def passed_probed passed_statuses replicate_append_same)

lemma credential_passes:
  assumes run: "conforming_run sniff host c opt t d0 n" and "same_directory d0 (env w)"
  shows "passes 1 n d0 (checkCredential (client_probe c) opt (new_runner w))"
proof -
  note d = directory [OF run] and pages = pages_read [OF directory(4) [OF run]]
  have one: "in_int64 1" "(1::int) \<le> 1" by (simp_all add: in_int64_def int64_min_def int64_max_def)
  have start: "same_directory d0 (env (rn_world (new_runner w)))" using assms(2) by (simp add: new_runner_def)
  obtain w1 where w1: "ask (pd_Page (client_probe c) [] 1 (int n)) (new_runner w) =
      (Inr (asked_page 1 (int n) (filter_since []) d0), (new_runner w)\<lparr>rn_world := w1\<rparr>)" "same_directory d0 (env w1)"
    by (rule page_call [OF d(7,1) start one d(10,11), where filt = "[]"])
  have since: "filter_since [] = zero_time" by (simp add: filter_since_def)
  have users: "Users (asked_page 1 (int n) zero_time d0) = Inr (map served (take n (fk_users d0)))"
    using pages(1) [of 0 n] by simp
  obtain u us where us: "fk_users d0 = u # us" using d(5) by (cases "fk_users d0") auto
  obtain m where m: "n = Suc m" using d(11) by (cases n) auto
  show ?thesis
    using w1 d(9) users unfolding since
    by (simp add: checkCredential_def passes_def probed_def pass_case_def us m) (simp add: add_case_def new_runner_def)
qed

lemma phase_one_passes:
  assumes run: "conforming_run sniff host c opt t d0 n" and "same_directory d0 (env w)"
  shows "passes 11 n d0 (phaseOne (client_probe c) opt (new_runner w))"
proof -
  note checks = envelope_passes ids_pass active_passes alias_passes meta_passes pagination_passes
    filtering_passes single_passes unknown_passes config_passes
  have one_more: "passes (Suc k) n d0 (checkEnvelope r)" "passes (Suc k) n d0 (checkStableIDs r)"
    "passes (Suc k) n d0 (checkActiveFlag r)" "passes (Suc k) n d0 (checkAlias opt r)"
    "passes (Suc k) n d0 (checkMeta (client_probe c) r)" "passes (Suc k) n d0 (checkPagination (client_probe c) opt r)"
    "passes (Suc k) n d0 (checkFiltering (client_probe c) opt r)" "passes (Suc k) n d0 (checkSingleRead (client_probe c) r)"
    "passes (Suc k) n d0 (checkUnknownID (client_probe c) r)" "passes (Suc k) n d0 (checkProviderConfig (client_probe c) r)"
    if "passes k n d0 r" for k r
    by (rule passes_more [OF that], erule checks [OF run])+
  have "passes (Suc (Suc (Suc (Suc (Suc (Suc (Suc (Suc (Suc (Suc 1)))))))))) n d0
      (phaseOne (client_probe c) opt (new_runner w))"
    unfolding phaseOne_def Let_def by (intro one_more credential_passes [OF assms])
  then show ?thesis by (simp add: eval_nat_numeral)
qed

lemma phase_two_skips:
  assumes "rn_blocked r = []" and "pb_WriteID opt = []"
  shows "rn_world (phaseTwo d opt r) = rn_world r"
    and "map cs_Status (rn_cases (phaseTwo d opt r)) = map cs_Status (rn_cases r) @ replicate 3 Skip"
  using assms
  by (simp_all add: phaseTwo_def Let_def checkWriteBack_def checkWriteBackIdempotent_def checkForbiddenAttribute_def
      with_target_def unless_blocked_def skip_case_def eval_nat_numeral) (simp add: add_case_def)

text \<open>What the first phase leaves to the second, for the options as \<open>Check\<close> completes them.\<close>

lemma Check_phase_one:
  fixes c :: "fake client"
  assumes "talks_to_fake sniff host c" and clock: "still_clock c t" and "conforming opt t (env w)"
    and "pb_PageSize opt \<le> int64_max" and "pb_AliasDomain opt \<noteq> []"
    and "Check (client_probe c) opt baseURL w = (report, w')"
  obtains n r r2 where "passes 11 n (env w) r" "r2 = phaseTwo (client_probe c) (default_page_size opt) r"
    "w' = rn_world r2" "rp_Cases report = rn_cases r2"
proof
  define opts where "opts = default_page_size opt"
  define n where "n = nat (pb_PageSize opts)"
  have run: "conforming_run sniff host c opts t (env w) n"
    using assms(1-5) unfolding conforming_run_def opts_def n_def
    by (simp add: default_page_size_def conforming_def conforming_user_def [abs_def] alias_suffix_def int64_max_def)
  have still: "in_env (t_Now (cl_t c)) x = (t, x)" for x :: "fake net"
    using clock by (cases x) (simp add: in_env_def still_clock_def)
  define r where "r = phaseOne (client_probe c) opts (new_runner w)"
  show "passes 11 n (env w) r" unfolding r_def by (rule phase_one_passes [OF run]) simp
  define r2 where "r2 = phaseTwo (client_probe c) opts r"
  show "r2 = phaseTwo (client_probe c) (default_page_size opt) r" by (simp add: r2_def opts_def)
  show "w' = rn_world r2" "rp_Cases report = rn_cases r2"
    using assms(6) still by (auto simp: Check_def Let_def run_checks_def opts_def [symmetric] r_def [symmetric] r2_def [symmetric])
qed

lemma exit_status_zero:
  assumes "Fail \<notin> set (map cs_Status (rp_Cases report))"
  shows "exit_status report = 0"
proof -
  have "OK report" unfolding OK_iff using assms by force
  then show ?thesis by (simp add: exit_status_def)
qed

text \<open>C32: The reference directory passes the suite: through the client and with an alias domain, a read-only
  run over a fake directory of two or more conforming records passes every check of the first phase and skips
  the three that would write; the command exits with zero and the directory holds what it held.\<close>

theorem reference_directory_passes:
  assumes "talks_to_fake sniff host c" and "still_clock c t" and "conforming opt t (env w)"
    and "pb_PageSize opt \<le> int64_max" and "pb_AliasDomain opt \<noteq> []" and "pb_WriteID opt = []"
    and "Check (client_probe c) opt baseURL w = (report, w')"
  shows "map cs_Status (rp_Cases report) = replicate 11 Pass @ replicate 3 Skip \<and> exit_status report = 0
    \<and> (\<exists>k. env w' = (env w)\<lparr>fk_requests := k\<rparr>)"
proof -
  obtain n r r2 where r: "passes 11 n (env w) r" "r2 = phaseTwo (client_probe c) (default_page_size opt) r"
    "w' = rn_world r2" "rp_Cases report = rn_cases r2"
    by (rule Check_phase_one [OF assms(1-5,7)])
  have "rn_blocked r = []" "pb_WriteID (default_page_size opt) = []"
    using r(1) assms(6) by (simp_all add: passes_def probed_def default_page_size_def)
  note two = phase_two_skips [OF this, of "client_probe c", folded r(2)]
  have st: "map cs_Status (rp_Cases report) = replicate 11 Pass @ replicate 3 Skip"
    using r(1) two(2) by (simp add: r(4) passes_def)
  have "exit_status report = 0" by (rule exit_status_zero) (simp add: st)
  then show ?thesis
    using st r(1) two(1) by (simp add: r(3) passes_def probed_def same_directory_def)
qed

definition alias_person :: "string \<Rightarrow> time \<Rightarrow> user" where
  "alias_person ident changed =
     zero_user\<lparr>u_ID := ident, u_UserName := ident @ ''@separador.app'', u_Active := Some True,
       u_Meta := (u_Meta zero_user)\<lparr>m_LastModified := changed\<rparr>\<rparr>"

definition reading_options :: probe_options where
  "reading_options = \<lparr>pb_AliasDomain = ''separador.app'', pb_WriteID = [], pb_ProbeExternalID = [], pb_PageSize = 0\<rparr>"

text \<open>Two instants of 2026, in nanoseconds since the first of the year one.\<close>

definition alias_fake :: fake where
  "alias_fake = Start [alias_person ''d1'' 63902919845000000000, alias_person ''d2'' 63902919845000000007]"

definition clocked_client :: "fake client" where
  "clocked_client = fake_client\<lparr>cl_t := fake_transport\<lparr>t_Now := (\<lambda>d. (63902919845000000000, d))\<rparr>\<rparr>"

lemma clocked_talks: "talks_to_fake (\<lambda>_. ''text/plain'') ''127.0.0.1:8080'' clocked_client"
  using fake_client_talks by (simp add: talks_to_fake_def clocked_client_def fake_client_fields fake_transport_def)

lemma clocked_still: "still_clock clocked_client 63902919845000000000"
  by (simp add: still_clock_def clocked_client_def)

lemma alias_conforming: "conforming reading_options 63902919845000000000 alias_fake"
proof -
  have "list_all (conforming_user reading_options 63902919845000000000) (fk_users alias_fake)" by code_simp
  moreover have "servable alias_fake" "2 \<le> length (fk_users alias_fake)"
    by (simp_all add: servable_def alias_fake_def Start_def alias_person_def dated_def quiet_def max_rfc3339_def
        days_before_year_def seconds_per_day_def second_def int64_max_def zero_user_def zero_meta_def zero_time_def)
  ultimately show ?thesis by (simp add: conforming_def)
qed

theorem reference_directory_passes_witness:
  "exit_status (fst (Check (client_probe clocked_client) reading_options [] \<lparr>lim_next = 0, env = alias_fake\<rparr>)) = 0"
proof -
  obtain report w' where run: "Check (client_probe clocked_client) reading_options [] \<lparr>lim_next = 0, env = alias_fake\<rparr> = (report, w')"
    by fastforce
  have conf: "conforming reading_options 63902919845000000000 (env \<lparr>lim_next = 0, env = alias_fake\<rparr>)"
    using alias_conforming by simp
  have "pb_PageSize reading_options \<le> int64_max" "pb_AliasDomain reading_options \<noteq> []" "pb_WriteID reading_options = []"
    by (simp_all add: reading_options_def int64_max_def)
  from reference_directory_passes [OF clocked_talks clocked_still conf this run] show ?thesis by (simp add: run)
qed

end
