(* ===== verification/Fake_Writes.thy ===== *)
theory Fake_Writes
  imports Fake_Conforms
begin

text \<open>
  The second phase of the conformance suite against the fake directory, with a record named for
  writing: the three checks pass, and the directory has seen three writes of one value to that record.
\<close>

section \<open>The record under test\<close>

definition refused_error :: scim_error where
  "refused_error = \<lparr>se_Schemas = [SchemaError], se_Status = ''403'', se_ScimType = ''mutability'',
     se_Detail = ''attribute is read-only for this partner; writable attributes: externalId'', se_HTTPStatus = 403\<rparr>"

text \<open>After \<open>j\<close> writes of \<open>x\<close> to the record \<open>i\<close>, which was \<open>u\<close> in the directory \<open>d0\<close>.\<close>

definition probing :: "string \<Rightarrow> string \<Rightarrow> user \<Rightarrow> fake \<Rightarrow> nat \<Rightarrow> fake \<Rightarrow> bool" where
  "probing i x u d0 j d \<longleftrightarrow> quiet d \<and> User i d = Some ((rebound x ^^ j) u)
     \<and> fk_bound d x = (if j = 0 then fk_bound d0 x else Some i)
     \<and> fk_patches d = fk_patches d0 @ replicate j \<lparr>pk_ID = i, pk_ExternalID = x\<rparr>
     \<and> filter (\<lambda>v. u_ID v \<noteq> i) (fk_users d) = filter (\<lambda>v. u_ID v \<noteq> i) (fk_users d0)"

text \<open>A record and a value that the suite can probe with: nobody else has the value, and the timestamp has
  room for three writes.\<close>

definition probe_target :: "string \<Rightarrow> string \<Rightarrow> user \<Rightarrow> fake \<Rightarrow> bool" where
  "probe_target i x u d0 \<longleftrightarrow> i \<notin> {[], ''.'', ''..''} \<and> x \<noteq> [] \<and> u_ID u = i \<and> u_Active u \<noteq> None
     \<and> fk_bound d0 x \<in> {None, Some i} \<and> dated u \<and> LastModified u + 3 * second < max_rfc3339"

lemma rebound_power:
  "u_ID ((rebound x ^^ j) u) = u_ID u" "u_Active ((rebound x ^^ j) u) = u_Active u"
  "LastModified ((rebound x ^^ j) u) = LastModified u + int j * second"
  "m_Created (u_Meta ((rebound x ^^ j) u)) = m_Created (u_Meta u)"
  "u_ExternalID ((rebound x ^^ Suc j) u) = x"
  by (induction j) (simp_all add: rebound_def set_modified_def algebra_simps)

lemma dated_power:
  assumes "probe_target i x u d0" and "j \<le> 3"
  shows "dated ((rebound x ^^ j) u)"
proof -
  have "int j * second \<le> 3 * second" using assms(2) by (simp add: second_def)
  moreover have "0 \<le> int j * second" by (simp add: second_def)
  ultimately show ?thesis using assms(1) rebound_power(3,4) [where x = x and j = j and u = u] by (auto simp: probe_target_def dated_def)
qed

lemma probing_counted: "probing i x u d0 j d \<Longrightarrow> probing i x u d0 j (counted d)"
  by (simp add: probing_def counted_def quiet_def User_def)

lemma probing_assign:
  assumes "probing i x u d0 j d"
  shows "probing i x u d0 (Suc j) (assign i x (counted d))"
proof -
  have keep: "filter (\<lambda>v. u_ID v \<noteq> i) (map (\<lambda>v. if u_ID v = i then set_modified (f v) (g v) else v) us) =
      filter (\<lambda>v. u_ID v \<noteq> i) us" if "\<And>v. u_ID (g v) = u_ID v" for f g us
    using that by (induction us) auto
  have "quiet (assign i x (counted d))" using assms by (simp add: probing_def quiet_def assign_def counted_def)
  moreover have "User i (assign i x (counted d)) = Some ((rebound x ^^ Suc j) u)"
    using assms User_assign [of i x "counted d"] by (simp add: probing_def User_def counted_def)
  ultimately show ?thesis
    using assms by (simp add: probing_def assign_def counted_def keep replicate_append_same)
qed

section \<open>The calls\<close>

lemma probe_get:
  assumes "talks_to_fake sniff host c" and "probe_target i x u d0" and "probing i x u d0 j (env (rn_world r))" and "j \<le> 3"
  obtains w where "ask (GetUser c i) r = (Inr (served ((rebound x ^^ j) u)), r\<lparr>rn_world := w\<rparr>)"
    "probing i x u d0 j (env w)"
proof -
  have "GetUser c i (rn_world r) =
      (Inr (served ((rebound x ^^ j) u)), (rn_world r)\<lparr>env := counted (env (rn_world r))\<rparr>)"
    using GetUser_fake [OF assms(1), of "rn_world r" i] dated_power [OF assms(2,4)] assms(2,3)
    by (simp add: probing_def probe_target_def)
  with that [of "(rn_world r)\<lparr>env := counted (env (rn_world r))\<rparr>"] probing_counted [OF assms(3)] show ?thesis
    by (simp add: ask_def)
qed

lemma probe_write:
  assumes "talks_to_fake sniff host c" and "probe_target i x u d0" and "probing i x u d0 j (env (rn_world r))" and "j < 3"
  obtains w where "ask (Patch c i (NewExternalIDPatch x)) r = (Inr (served ((rebound x ^^ Suc j) u)), r\<lparr>rn_world := w\<rparr>)"
    "probing i x u d0 (Suc j) (env w)"
proof -
  define w where "w = (rn_world r)\<lparr>env := assign i x (counted (env (rn_world r)))\<rparr>"
  have x: "x \<noteq> []" "i \<notin> {''.'', ''..''}" using assms(2) by (auto simp: probe_target_def)
  have "dated (rebound x ((rebound x ^^ j) u))" using dated_power [OF assms(2), of "Suc j"] assms(4) by simp
  then have "client_PatchExternalID c i x (rn_world r) = (Inr (served (rebound x ((rebound x ^^ j) u))), w)"
    using write_back_fake [OF assms(1) _ x(2) _ _ x(1), of "rn_world r" "(rebound x ^^ j) u"] assms(2,3)
    by (auto simp: probing_def probe_target_def w_def)
  then have "Patch c i (NewExternalIDPatch x) (rn_world r) = (Inr (served ((rebound x ^^ Suc j) u)), w)"
    using x(1) by (simp add: client_PatchExternalID_def)
  moreover have "probing i x u d0 (Suc j) (env w)" using probing_assign [OF assms(3)] by (simp add: w_def)
  ultimately show ?thesis by (intro that [of w]) (simp_all add: ask_def)
qed

lemma read_active_patch: "read_patch (Some (print_json (enc_patch_op (active_patch b)))) = Some (active_patch b)"
proof -
  define v where "v = enc_patch_op (active_patch b)"
  have "printable v" by (simp add: v_def enc_patch_op_def enc_operation_def active_patch_def)
  then have "json_first (print_json v) = Some v"
    using parse_value_print [of v "Suc (length (print_json v))" "[]"] by (simp add: json_first_def del: parse_value.simps)
  moreover have "dec_patch_op v zero_patch_op = Some (active_patch b)"
    unfolding v_def by (rule dec_enc_patch_op) (simp add: active_patch_def plain_value_def)
  ultimately show ?thesis by (simp add: read_patch_def v_def)
qed

definition refusal :: response where
  "refusal = writeError [] 403 ''mutability''
     ''attribute is read-only for this partner; writable attributes: externalId''"

lemma decode_refusal: "decodeError refusal = refused_error"
proof -
  have i: "itoa 403 = ''403''" by code_simp
  have "length (print_json (enc_scim_error \<lparr>se_Schemas = [SchemaError], se_Status = ''403'', se_ScimType = ''mutability'',
      se_Detail = ''attribute is read-only for this partner; writable attributes: externalId'', se_HTTPStatus = 0\<rparr>)) < 300"
    by code_simp
  from decodeError_written [of 403, unfolded i, OF short_body, OF this] show ?thesis
    by (simp add: refusal_def refused_error_def)
qed

lemma probe_refused:
  assumes talks: "talks_to_fake sniff host c" and "probe_target i x u d0" and "probing i x u d0 j (env (rn_world r))"
  obtains w where "ask (Patch c i (active_patch b)) r = (Inl (Scim refused_error), r\<lparr>rn_world := w\<rparr>)"
    "probing i x u d0 j (env w)"
proof -
  define d where "d = env (rn_world r)"
  define target where "target = resolve (cl_base c) (''Users/'' @ PathEscape i)"
  define body where "body = print_json (enc_patch_op (active_patch b))"
  have "i \<notin> {''.'', ''..''}" using assms(2) by (simp add: probe_target_def)
  then have path: "trim_prefix (url_path target) ''/'' = ''Users/'' @ i"
    unfolding target_def by (rule record_target [OF talks])
  have known: "User i (counted d) \<noteq> None" and quiet: "quiet (env (rn_world r))"
    using assms(3) by (simp_all add: probing_def d_def User_def counted_def)
  have "route (build_request c ''PATCH'' target (Some body)) (counted d) = fake_patch (Some body) i (counted d)"
    using route_record(2) [of "build_request c ''PATCH'' target (Some body)" i "counted d"] path
    by (simp only: build_request_def request.simps)
  also have "\<dots> = (refusal, counted d)"
    using known unfolding fake_patch_def body_def read_active_patch option.case
    by (auto simp: active_patch_def refusal_def)
  finally have route: "route (build_request c ''PATCH'' target (Some body)) (counted (env (rn_world r))) = (refusal, counted d)"
    by (simp add: d_def)
  have "rs_StatusCode refusal = 403" by (simp add: refusal_def)
  then have "Patch c i (active_patch b) (rn_world r) = (Inl (Scim refused_error), (rn_world r)\<lparr>env := counted d\<rparr>)"
    unfolding Patch_def body_def [symmetric]
    by (subst do_request_fake [OF talks quiet route [unfolded target_def]]) (simp_all add: decode_refusal)
  with that [of "(rn_world r)\<lparr>env := counted d\<rparr>"] probing_counted [OF assms(3)] show ?thesis
    by (simp add: ask_def d_def)
qed

section \<open>The checks\<close>

definition probe_value :: "probe_options \<Rightarrow> user \<Rightarrow> string" where
  "probe_value opt u = (if u_ExternalID u = [] then pb_ProbeExternalID opt else u_ExternalID u)"

text \<open>A runner in phase two, \<open>j\<close> writes done, with \<open>k\<close> cases that all passed.\<close>

definition probed_well :: "string \<Rightarrow> string \<Rightarrow> user \<Rightarrow> fake \<Rightarrow> nat \<Rightarrow> nat \<Rightarrow> fake net runner \<Rightarrow> bool" where
  "probed_well i x u d0 j k r \<longleftrightarrow> rn_blocked r = [] \<and> probing i x u d0 j (env (rn_world r))
     \<and> map cs_Status (rn_cases r) = replicate k Pass"

lemma probed_more:
  "probed_well i x u d0 j k r \<Longrightarrow> probing i x u d0 j' (env w) \<Longrightarrow>
   probed_well i x u d0 j' (Suc k) (pass_case ph cr detail (r\<lparr>rn_world := w\<rparr>))"
  by (simp add: probed_well_def pass_case_def) (simp add: add_case_def replicate_append_same)

lemma target_given:
  assumes "talks_to_fake sniff host c" and "probe_target i x u d0" and "probed_well i x u d0 j k r" and "j \<le> 3"
    and "pb_WriteID opt = i"
  obtains w where "writeTarget (client_probe c) opt r = (Some (served ((rebound x ^^ j) u)), r\<lparr>rn_world := w\<rparr>)"
    "probing i x u d0 j (env w)"
proof -
  have p: "probing i x u d0 j (env (rn_world r))" "rn_blocked r = []" using assms(3) by (simp_all add: probed_well_def)
  obtain w where "ask (GetUser c i) r = (Inr (served ((rebound x ^^ j) u)), r\<lparr>rn_world := w\<rparr>)" "probing i x u d0 j (env w)"
    by (rule probe_get [OF assms(1,2) p(1) assms(4)])
  with that [of w] p(2) assms(2,5) show ?thesis by (simp add: writeTarget_def probe_target_def)
qed

lemma write_back_passes:
  assumes "talks_to_fake sniff host c" and "probe_target i x u d0" and "probed_well i x u d0 0 k r"
    and "pb_WriteID opt = i" and "x = probe_value opt u"
  shows "probed_well i x u d0 1 (Suc k) (checkWriteBack (client_probe c) opt r)"
proof -
  obtain w where w: "writeTarget (client_probe c) opt r = (Some (served u), r\<lparr>rn_world := w\<rparr>)" "probing i x u d0 0 (env w)"
    using target_given [OF assms(1-3) _ assms(4)] by auto
  obtain w2 where w2: "ask (Patch c i (NewExternalIDPatch x)) (r\<lparr>rn_world := w\<rparr>) =
      (Inr (served ((rebound x ^^ Suc 0) u)), r\<lparr>rn_world := w, rn_world := w2\<rparr>)" "probing i x u d0 (Suc 0) (env w2)"
    by (rule probe_write [OF assms(1,2), where j = 0 and r = "r\<lparr>rn_world := w\<rparr>"]) (use w(2) in simp_all)
  have id: "u_ID u = i" "i \<noteq> []" "x \<noteq> []" "rn_blocked r = []" using assms(2,3) by (auto simp: probe_target_def probed_well_def)
  have ext: "u_ExternalID u = [] \<Longrightarrow> pb_ProbeExternalID opt = x" "u_ExternalID u \<noteq> [] \<Longrightarrow> u_ExternalID u = x"
    using assms(5) by (simp_all add: probe_value_def)
  have "checkWriteBack (client_probe c) opt r =
      pass_case PhaseTwo c201 ''accepted and reflected on read'' (r\<lparr>rn_world := w2\<rparr>)"
    using w(1) w2(1) id ext assms(4)
    by (cases "u_ExternalID u = []") (simp_all add: checkWriteBack_def with_target_def unless_blocked_def Let_def)
  with probed_more [OF assms(3) w2(2)] show ?thesis by auto
qed

lemma idempotent_passes:
  assumes "talks_to_fake sniff host c" and "probe_target i x u d0" and "probed_well i x u d0 1 k r"
    and "pb_WriteID opt = i"
  shows "probed_well i x u d0 3 (Suc k) (checkWriteBackIdempotent (client_probe c) opt r)"
proof -
  obtain w where w: "writeTarget (client_probe c) opt r = (Some (served ((rebound x ^^ 1) u)), r\<lparr>rn_world := w\<rparr>)"
    "probing i x u d0 1 (env w)"
    by (rule target_given [OF assms(1-3) _ assms(4)]) simp
  obtain w2 where w2: "ask (Patch c i (NewExternalIDPatch x)) (r\<lparr>rn_world := w\<rparr>) =
      (Inr (served ((rebound x ^^ Suc 1) u)), r\<lparr>rn_world := w, rn_world := w2\<rparr>)" "probing i x u d0 (Suc 1) (env w2)"
    by (rule probe_write [OF assms(1,2), where j = 1 and r = "r\<lparr>rn_world := w\<rparr>"]) (use w(2) in simp_all)
  obtain w3 where w3: "ask (Patch c i (NewExternalIDPatch x)) (r\<lparr>rn_world := w2\<rparr>) =
      (Inr (served ((rebound x ^^ Suc (Suc 1)) u)), r\<lparr>rn_world := w2, rn_world := w3\<rparr>)" "probing i x u d0 (Suc (Suc 1)) (env w3)"
    by (rule probe_write [OF assms(1,2), where j = "Suc 1" and r = "r\<lparr>rn_world := w2\<rparr>"]) (use w2(2) in simp_all)
  have id: "u_ID u = i" "i \<noteq> []" "x \<noteq> []" "rn_blocked r = []" using assms(2,3) by (auto simp: probe_target_def probed_well_def)
  have "checkWriteBackIdempotent (client_probe c) opt r =
      pass_case PhaseTwo c202 ''repeated writes are a no-op'' (r\<lparr>rn_world := w3\<rparr>)"
    using w(1) w2(1) w3(1) id assms(4)
    by (simp add: checkWriteBackIdempotent_def with_target_def unless_blocked_def eval_nat_numeral)
  moreover have "probing i x u d0 3 (env w3)" using w3(2) by (simp add: eval_nat_numeral)
  ultimately show ?thesis using probed_more [OF assms(3)] by simp
qed

lemma forbidden_passes:
  assumes "talks_to_fake sniff host c" and "probe_target i x u d0" and "probed_well i x u d0 3 k r"
    and "pb_WriteID opt = i"
  shows "probed_well i x u d0 3 (Suc k) (checkForbiddenAttribute (client_probe c) opt r)"
proof -
  obtain w where w: "writeTarget (client_probe c) opt r = (Some (served ((rebound x ^^ 3) u)), r\<lparr>rn_world := w\<rparr>)"
    "probing i x u d0 3 (env w)"
    by (rule target_given [OF assms(1-3) _ assms(4)]) simp
  obtain b where b: "u_Active u = Some b" using assms(2) by (auto simp: probe_target_def)
  obtain w2 where w2: "ask (Patch c i (active_patch b)) (r\<lparr>rn_world := w\<rparr>) =
      (Inl (Scim refused_error), r\<lparr>rn_world := w, rn_world := w2\<rparr>)" "probing i x u d0 3 (env w2)"
    by (rule probe_refused [OF assms(1,2), where j = 3 and r = "r\<lparr>rn_world := w\<rparr>"]) (use w(2) in simp_all)
  have id: "u_ID u = i" "i \<noteq> []" "rn_blocked r = []" using assms(2,3) by (auto simp: probe_target_def probed_well_def)
  have "Code refused_error = 403" by (simp add: Code_def refused_error_def)
  then have "checkForbiddenAttribute (client_probe c) opt r =
      pass_case PhaseTwo c203 (''refused with '' @ itoa 403) (r\<lparr>rn_world := w2\<rparr>)"
    using w(1) w2(1) id b assms(4)
    by (simp add: checkForbiddenAttribute_def with_target_def unless_blocked_def rebound_power)
  then show ?thesis using probed_more [OF assms(3) w2(2)] by simp
qed

section \<open>The run\<close>

lemma phase_two_passes:
  assumes "talks_to_fake sniff host c" and "probe_target i x u d0" and "probed_well i x u d0 0 11 r"
    and "pb_WriteID opt = i" and "x = probe_value opt u"
  shows "probed_well i x u d0 3 14 (phaseTwo (client_probe c) opt r)"
proof -
  have "probed_well i x u d0 3 (Suc (Suc (Suc 11))) (phaseTwo (client_probe c) opt r)"
    unfolding phaseTwo_def Let_def
    by (intro forbidden_passes [OF assms(1,2)] idempotent_passes [OF assms(1,2)]
        write_back_passes [OF assms(1,2)] assms(3-5))
  then show ?thesis by (simp add: eval_nat_numeral)
qed

text \<open>C30: The fake directory of two or more conforming records meets every acceptance criterion: with an
  alias domain, a record named for writing and a value for it that is not empty and bound to no
  other identity, all fourteen checks pass through the client, and the directory has seen three
  writes of that value to that record and no other change.\<close>

theorem every_criterion_met:
  assumes "talks_to_fake sniff host c" and "still_clock c t" and "conforming opt t (env w)"
    and "pb_PageSize opt \<le> int64_max" and "pb_AliasDomain opt \<noteq> []"
    and "User (pb_WriteID opt) (env w) = Some u" and "x = probe_value opt u" and "x \<noteq> []"
    and "fk_bound (env w) x \<in> {None, Some (pb_WriteID opt)}"
    and "Check (client_probe c) opt baseURL w = (report, w')"
  shows "map cs_Status (rp_Cases report) = replicate 14 Pass \<and> exit_status report = 0
    \<and> fk_patches (env w') = fk_patches (env w) @ replicate 3 \<lparr>pk_ID = pb_WriteID opt, pk_ExternalID = x\<rparr>
    \<and> filter (\<lambda>v. u_ID v \<noteq> pb_WriteID opt) (fk_users (env w')) = filter (\<lambda>v. u_ID v \<noteq> pb_WriteID opt) (fk_users (env w))"
proof -
  define i where "i = pb_WriteID opt"
  obtain n r r2 where r: "passes 11 n (env w) r" "r2 = phaseTwo (client_probe c) (default_page_size opt) r"
    "w' = rn_world r2" "rp_Cases report = rn_cases r2"
    by (rule Check_phase_one [OF assms(1-5,10)])
  have u: "u \<in> set (fk_users (env w))" "u_ID u = i" using assms(6) by (auto simp: User_def find_Some_iff i_def)
  with assms(3) have "conforming_user opt t u" "dated u" "u_ID u \<noteq> []" "quiet (env w)"
    by (auto simp: conforming_def servable_def list_all_iff)
  then have target: "probe_target i x u (env w)"
    using u(2) assms(8,9) by (auto simp: probe_target_def conforming_user_def i_def unit_defs)
  have "probing i x u (env w) 0 (env (rn_world r))"
    using r(1) assms(6) \<open>quiet (env w)\<close> same_directory_view [of "env w" "env (rn_world r)"]
    by (auto simp: passes_def probed_def probing_def i_def same_directory_def)
  then have start: "probed_well i x u (env w) 0 11 r" using r(1) by (simp add: probed_well_def passes_def probed_def)
  have "pb_WriteID (default_page_size opt) = i" "x = probe_value (default_page_size opt) u"
    using assms(7) by (simp_all add: i_def default_page_size_def probe_value_def)
  from phase_two_passes [OF assms(1) target start this]
  have two: "probed_well i x u (env w) 3 14 r2" by (simp add: r(2))
  then have "map cs_Status (rp_Cases report) = replicate 14 Pass" by (simp add: r(4) probed_well_def)
  then have "Fail \<notin> set (map cs_Status (rp_Cases report))" by simp
  from exit_status_zero [OF this] \<open>map cs_Status (rp_Cases report) = _\<close> two show ?thesis
    by (simp add: r(3) probed_well_def probing_def i_def)
qed

definition writing_options :: probe_options where
  "writing_options = reading_options\<lparr>pb_WriteID := ''d2'', pb_ProbeExternalID := ''900001''\<rparr>"

theorem every_criterion_met_witness:
  "map cs_Status (rp_Cases (fst (Check (client_probe clocked_client) writing_options [] \<lparr>lim_next = 0, env = alias_fake\<rparr>))) =
     replicate 14 Pass"
proof -
  obtain report w' where run: "Check (client_probe clocked_client) writing_options [] \<lparr>lim_next = 0, env = alias_fake\<rparr> = (report, w')"
    by fastforce
  have same: "conforming_user writing_options = conforming_user reading_options"
    by (simp add: fun_eq_iff conforming_user_def alias_suffix_def writing_options_def)
  have conf: "conforming writing_options 63902919845000000000 (env \<lparr>lim_next = 0, env = alias_fake\<rparr>)"
    using alias_conforming by (simp add: conforming_def same)
  have opts: "pb_PageSize writing_options \<le> int64_max" "pb_AliasDomain writing_options \<noteq> []"
    by (simp_all add: writing_options_def reading_options_def int64_max_def)
  have user: "User (pb_WriteID writing_options) (env \<lparr>lim_next = 0, env = alias_fake\<rparr>) = Some (alias_person ''d2'' 63902919845000000007)"
    and val: "''900001'' = probe_value writing_options (alias_person ''d2'' 63902919845000000007)"
    and free: "fk_bound (env \<lparr>lim_next = 0, env = alias_fake\<rparr>) ''900001'' \<in> {None, Some (pb_WriteID writing_options)}"
    by (simp_all add: User_def writing_options_def alias_fake_def Start_def alias_person_def probe_value_def zero_user_def
        bind_user_def)
  have "''900001'' \<noteq> ([] :: string)" by simp
  from every_criterion_met [OF clocked_talks clocked_still conf opts user val this free run] show ?thesis by (simp add: run)
qed

end
