(* ===== verification/Commands.thy ===== *)
theory Commands
  imports Worker Conformance_Checks Scim_Encode
begin

text \<open>
  The two programs, \<open>cmd/directorysyncd\<close> and \<open>cmd/conformance\<close>, from their environment and
  flags to what they return: \<open>time.ParseDuration\<close> behind \<open>envDuration\<close>, the defaults of the
  flags, the tickers of the worker, the endpoints of its metrics server, and the conformance
  command with its two report formats and three exit statuses. The command line itself is read by
  the library's \<open>flag\<close>: each flag arrives as \<open>None\<close> when it was not given.

  \<open>ParseDuration\<close> computes a fraction in \<open>float64\<close>; here it is exact and cut to the nanosecond.
\<close>

section \<open>time.ParseDuration\<close>

definition two63 :: int where "two63 = 9223372036854775808"

text \<open>\<open>leadingInt\<close>: the digits at the front, \<open>None\<close> on overflow.\<close>

fun leading_int :: "int \<Rightarrow> string \<Rightarrow> (int \<times> string) option" where
  "leading_int x [] = Some (x, [])"
| "leading_int x (c # s) =
     (case digit_val c of
        None \<Rightarrow> Some (x, c # s)
      | Some d \<Rightarrow>
          if two63 div 10 < x then None
          else if two63 < 10 * x + int d then None
          else leading_int (10 * x + int d) s)"

text \<open>\<open>leadingFraction\<close>: value and scale; digits past the precision are skipped.\<close>

fun leading_fraction :: "int \<Rightarrow> int \<Rightarrow> bool \<Rightarrow> string \<Rightarrow> int \<times> int \<times> string" where
  "leading_fraction x scale full [] = (x, scale, [])"
| "leading_fraction x scale full (c # s) =
     (case digit_val c of
        None \<Rightarrow> (x, scale, c # s)
      | Some d \<Rightarrow>
          if full then leading_fraction x scale full s
          else if (two63 - 1) div 10 < x then leading_fraction x scale True s
          else if two63 < 10 * x + int d then leading_fraction x scale True s
          else leading_fraction (10 * x + int d) (10 * scale) False s)"

definition unit_map :: "string \<Rightarrow> int option" where
  "unit_map =
     map_of [(''ns'', nanosecond), (''us'', 1000), ([CHR 0xC2, CHR 0xB5, CHR ''s''], 1000),
       ([CHR 0xCE, CHR 0xBC, CHR ''s''], 1000), (''ms'', millisecond), (''s'', second), (''m'', minute), (''h'', hour)]"

definition unit_char :: "char \<Rightarrow> bool" where
  "unit_char c = (c \<noteq> CHR ''.'' \<and> digit_val c = None)"

text \<open>One component, a number with its unit: its nanoseconds, and what follows.\<close>

definition fraction_part :: "string \<Rightarrow> int \<times> int \<times> string \<times> bool" where
  "fraction_part s =
     (if s \<noteq> [] \<and> hd s = CHR ''.'' then
        (case leading_fraction 0 1 False (tl s) of (f, scale, r) \<Rightarrow> (f, scale, r, length r \<noteq> length (tl s)))
      else (0, 1, s, False))"

definition component :: "string \<Rightarrow> (int \<times> string) option" where
  "component s =
     (if s = [] \<or> hd s \<noteq> CHR ''.'' \<and> digit_val (hd s) = None then None
      else case leading_int 0 s of
          None \<Rightarrow> None
        | Some (v, s1) \<Rightarrow>
            (case fraction_part s1 of
               (f, scale, s2, post) \<Rightarrow>
                 if length s1 = length s \<and> \<not> post then None
                 else
                   let u = takeWhile unit_char s2 in
                   case (if u = [] then None else unit_map u) of
                     None \<Rightarrow> None
                   | Some unit \<Rightarrow>
                       if two63 div unit < v then None
                       else
                         let total = v * unit + f * unit div scale in
                         if two63 < total then None else Some (total, dropWhile unit_char s2)))"

lemma leading_int_length: "leading_int x s = Some (v, r) \<Longrightarrow> length r \<le> length s"
  by (induction x s rule: leading_int.induct) (auto split: option.splits if_splits)

lemma leading_fraction_length: "leading_fraction x scale full s = (f, scale', r) \<Longrightarrow> length r \<le> length s"
  by (induction x scale full s rule: leading_fraction.induct) (auto split: option.splits if_splits)

lemma fraction_part_length:
  assumes "fraction_part s = (f, scale, r, post)"
  shows "length r \<le> length s"
proof (cases "s \<noteq> [] \<and> hd s = CHR ''.''")
  case True
  then obtain g sc r' where l: "leading_fraction 0 1 False (tl s) = (g, sc, r')" using prod_cases3 by blast
  with True assms leading_fraction_length [OF l] show ?thesis by (auto simp: fraction_part_def)
qed (use assms in \<open>auto simp: fraction_part_def\<close>)

lemma component_shorter:
  assumes "component s = Some (d, r)"
  shows "length r < length s"
proof -
  from assms obtain v s1 where v: "leading_int 0 s = Some (v, s1)"
    by (auto simp: component_def split: if_splits option.splits)
  obtain f scale s2 post where f: "fraction_part s1 = (f, scale, s2, post)" using prod_cases4 by blast
  have "takeWhile unit_char s2 \<noteq> []" "r = dropWhile unit_char s2"
    using assms by (auto simp: component_def v f Let_def split: if_splits option.splits)
  then have "length r < length s2"
    by (metis add_cancel_left_left length_append length_dropWhile_le length_greater_0_conv nat_less_le takeWhile_dropWhile_id)
  with leading_int_length [OF v] fraction_part_length [OF f] show ?thesis by linarith
qed

function parse_components :: "int \<Rightarrow> string \<Rightarrow> int option" where
  "parse_components d s =
     (if s = [] then Some d
      else case component s of
          None \<Rightarrow> None
        | Some (v, r) \<Rightarrow> if two63 < d + v then None else parse_components (d + v) r)"
  by pat_completeness auto
termination by (relation "measure (\<lambda>(d, s). length s)") (auto dest: component_shorter)

declare parse_components.simps [simp del]

definition ParseDuration :: "string \<Rightarrow> duration option" where
  "ParseDuration s0 =
     (let neg = (s0 \<noteq> [] \<and> hd s0 = CHR ''-'');
          s = (if s0 \<noteq> [] \<and> hd s0 \<in> {CHR ''-'', CHR ''+''} then tl s0 else s0) in
      if s = ''0'' then Some 0
      else if s = [] then None
      else case parse_components 0 s of
          None \<Rightarrow> None
        | Some d \<Rightarrow>
            if neg then Some (- d)
            else if two63 - 1 < d then None else Some d)"

lemma leading_int_nonneg: "leading_int x s = Some (v, r) \<Longrightarrow> 0 \<le> x \<Longrightarrow> 0 \<le> v"
  by (induction x s rule: leading_int.induct) (auto split: option.splits if_splits)

lemma leading_fraction_nonneg:
  "leading_fraction x scale full s = (f, scale', r) \<Longrightarrow> 0 \<le> x \<Longrightarrow> 0 < scale \<Longrightarrow> 0 \<le> f \<and> 0 < scale'"
  by (induction x scale full s rule: leading_fraction.induct) (auto split: option.splits if_splits)

lemma unit_map_pos: "unit_map u = Some n \<Longrightarrow> 0 < n"
  by (auto simp: unit_map_def unit_defs nanosecond_def split: if_splits)

lemma component_nonneg:
  assumes "component s = Some (d, r)"
  shows "0 \<le> d"
proof -
  from assms obtain v s1 where v: "leading_int 0 s = Some (v, s1)"
    by (auto simp: component_def split: if_splits option.splits)
  obtain f scale s2 post where f: "fraction_part s1 = (f, scale, s2, post)" using prod_cases4 by blast
  obtain unit where unit: "unit_map (takeWhile unit_char s2) = Some unit" "d = v * unit + f * unit div scale"
    using assms by (auto simp: component_def v f Let_def split: if_splits option.splits)
  obtain g sc r' where l: "leading_fraction 0 1 False (tl s1) = (g, sc, r')" using prod_cases3 by blast
  have "0 \<le> f \<and> 0 < scale"
    using f leading_fraction_nonneg [OF l] by (auto simp: fraction_part_def l split: if_splits)
  with leading_int_nonneg [OF v] unit_map_pos [OF unit(1)] show ?thesis
    unfolding unit(2) by (simp add: pos_imp_zdiv_nonneg_iff)
qed

lemma parse_components_range: "parse_components d s = Some n \<Longrightarrow> 0 \<le> d \<Longrightarrow> d \<le> two63 \<Longrightarrow> 0 \<le> n \<and> n \<le> two63"
proof (induction d s rule: parse_components.induct)
  case (1 d s)
  show ?case
  proof (cases "s = []")
    case True
    with 1 show ?thesis by (simp add: parse_components.simps [of d "[]"])
  next
    case False
    with 1(2) obtain v r where c: "component s = Some (v, r)" by (auto simp: parse_components.simps [of d s] split: option.splits)
    with 1(2) False have "\<not> two63 < d + v" "parse_components (d + v) r = Some n"
      by (auto simp: parse_components.simps [of d s] split: if_splits)
    with 1(1) [OF False c refl] component_nonneg [OF c] 1(3) show ?thesis by simp
  qed
qed

lemma ParseDuration_range:
  assumes "ParseDuration s = Some d"
  shows "in_int64 d"
proof -
  have range: "0 \<le> n \<and> n \<le> two63" if "parse_components 0 t = Some n" for n t
    using parse_components_range [OF that] by (simp add: two63_def)
  define t where "t = (if s \<noteq> [] \<and> hd s \<in> {CHR ''-'', CHR ''+''} then tl s else s)"
  show ?thesis
  proof (cases "t = ''0'' \<or> t = []")
    case True
    with assms show ?thesis
      unfolding ParseDuration_def Let_def t_def [symmetric] by (auto simp: in_int64_def int64_min_def int64_max_def)
  next
    case False
    with assms obtain n where n: "parse_components 0 t = Some n"
      unfolding ParseDuration_def Let_def t_def [symmetric] by (auto split: option.splits)
    with assms False have "d = - n \<or> d = n \<and> n < two63"
      unfolding ParseDuration_def Let_def t_def [symmetric] by (auto split: if_splits)
    with range [OF n] show ?thesis by (auto simp: in_int64_def int64_min_def int64_max_def two63_def)
  qed
qed

lemma ParseDuration_examples:
  "ParseDuration ''5m'' = Some (5 * minute)" "ParseDuration ''1h2m3.5s'' = Some (hour + 2 * minute + 3500000000)"
  "ParseDuration ''-1.5h'' = Some (- 90 * minute)" "ParseDuration ''0'' = Some 0" "ParseDuration ''5'' = None"
  "ParseDuration ''h'' = None"
  by code_simp+

section \<open>cmd/directorysyncd: flags and intervals\<close>

definition envDuration :: "(string \<Rightarrow> string) \<Rightarrow> string \<Rightarrow> duration \<Rightarrow> duration" where
  "envDuration getenv key def =
     (let v = getenv key in
      if v = [] then def else case ParseDuration v of None \<Rightarrow> def | Some d \<Rightarrow> d)"

text \<open>The command line as the library's parser leaves it: the flags that were given.\<close>

record worker_line =
  wl_baseURL :: "string option"
  wl_incremental :: "duration option"
  wl_full :: "duration option"
  wl_pageSize :: "int option"
  wl_rps :: "rat option"
  wl_metricsAddr :: "string option"
  wl_once :: "bool option"
  wl_dryRun :: "bool option"
  wl_allowMemory :: "bool option"

definition flag :: "'a option \<Rightarrow> 'a \<Rightarrow> 'a" where
  "flag given def = (case given of None \<Rightarrow> def | Some v \<Rightarrow> v)"

definition worker_flags :: "(string \<Rightarrow> string) \<Rightarrow> worker_line \<Rightarrow> flags" where
  "worker_flags getenv l =
     \<lparr>f_baseURL = flag (wl_baseURL l) (getenv ''DIRECTORY_BASE_URL''), f_token = getenv ''DIRECTORY_TOKEN'',
      f_pageSize = flag (wl_pageSize l) 200, f_rps = flag (wl_rps l) 5, f_dryRun = flag (wl_dryRun l) False,
      f_allowMemory = flag (wl_allowMemory l) False, f_once = flag (wl_once l) False\<rparr>"

definition incremental_interval :: "(string \<Rightarrow> string) \<Rightarrow> worker_line \<Rightarrow> duration" where
  "incremental_interval getenv l = flag (wl_incremental l) (envDuration getenv ''INCREMENTAL_INTERVAL'' (5 * minute))"

definition full_interval :: "(string \<Rightarrow> string) \<Rightarrow> worker_line \<Rightarrow> duration" where
  "full_interval getenv l = flag (wl_full l) (envDuration getenv ''FULL_INTERVAL'' (24 * hour))"

definition metrics_served :: "worker_line \<Rightarrow> bool" where
  "metrics_served l = (flag (wl_metricsAddr l) '':9090'' \<noteq> [])"

text \<open>
  \<open>run\<close>: between the first cycle and the loop the two tickers are made, and \<open>time.NewTicker\<close> panics
  on an interval that is not positive. The time limit of a cycle is part of its context.
\<close>

definition NewTicker :: "duration \<Rightarrow> goerror option" where
  "NewTicker d = (if d \<le> 0 then Some (Panic ''non-positive interval for NewTicker'') else None)"

definition new_tickers :: "duration \<Rightarrow> duration \<Rightarrow> goerror option" where
  "new_tickers incremental full = (case NewTicker incremental of Some p \<Rightarrow> Some p | None \<Rightarrow> NewTicker full)"

definition worker_run :: "(string \<Rightarrow> string) \<Rightarrow> worker_line \<Rightarrow> 'n transport \<Rightarrow> 's store_ops \<Rightarrow> 'n event list \<Rightarrow>
    'n net \<times> 's \<Rightarrow> goerror option \<times> ('n net \<times> 's)" where
  "worker_run getenv l t store es w =
     (let f = worker_flags getenv l in
      case startup t store f w of
        (Inl e, w') \<Rightarrow> (Some e, w')
      | (Inr s, w') \<Rightarrow>
          let p = runFull s \<lparr>p_alerts = no_alerts, p_metrics = zero_metrics, p_world = w'\<rparr> in
          if f_once f then (None, p_world p)
          else
            case new_tickers (incremental_interval getenv l) (full_interval getenv l) of
              Some panic \<Rightarrow> (Some panic, p_world p)
            | None \<Rightarrow> (None, p_world (main_loop s es p)))"

text \<open>With intervals the tickers accept, this is the process of \<open>Worker\<close>.\<close>

lemma worker_run_process:
  assumes "0 < incremental_interval getenv l" and "0 < full_interval getenv l"
  shows "snd (worker_run getenv l t store es w) = snd (run_process t store (worker_flags getenv l) es w)"
  using assms
  by (auto simp: worker_run_def run_process_def new_tickers_def NewTicker_def Let_def split: prod.splits sum.splits)

lemma default_intervals:
  assumes "wl_incremental l = None" "wl_full l = None"
    and "getenv ''INCREMENTAL_INTERVAL'' = []" "getenv ''FULL_INTERVAL'' = []"
  shows "0 < incremental_interval getenv l" and "0 < full_interval getenv l"
  using assms by (simp_all add: incremental_interval_def full_interval_def flag_def envDuration_def unit_defs)

text \<open>
  Nothing refuses an interval of zero or less, from a flag or from the environment: the worker
  runs its first cycle and then panics.
\<close>

lemma zero_interval_panics:
  assumes "getenv ''INCREMENTAL_INTERVAL'' = ''0s''" and "wl_incremental l = None" and "wl_once l = None"
    and "startup t store (worker_flags getenv l) w = (Inr s, w')"
  shows "worker_run getenv l t store es w = (Some (Panic ''non-positive interval for NewTicker''),
    p_world (runFull s \<lparr>p_alerts = no_alerts, p_metrics = zero_metrics, p_world = w'\<rparr>))"
proof -
  have "ParseDuration ''0s'' = Some 0" by code_simp
  then have "incremental_interval getenv l = 0"
    using assms(1,2) by (simp add: incremental_interval_def flag_def envDuration_def)
  moreover have "\<not> f_once (worker_flags getenv l)" using assms(3) by (simp add: worker_flags_def flag_def)
  ultimately show ?thesis using assms(4) by (simp add: worker_run_def new_tickers_def NewTicker_def Let_def)
qed

section \<open>The endpoints of the metrics server\<close>

definition zero_on_error :: "time result \<Rightarrow> time" where
  "zero_on_error r = (case r of Inl _ \<Rightarrow> zero_time | Inr t \<Rightarrow> t)"

text \<open>
  The status and body for a path; the metrics need the store's checkpoint, whose error is
  ignored (a store returns the zero time beside it), and the clock.
\<close>

definition serveMetrics :: "metrics \<Rightarrow> time result \<Rightarrow> time \<Rightarrow> string \<Rightarrow> int \<times> string" where
  "serveMetrics m checkpoint t path =
     (if path = ''/healthz'' then (200, ''ok'' @ [CHR 0x0A])
      else if path = ''/readyz'' then readyz m
      else if path = ''/metrics'' then (200, write_metrics m (zero_on_error checkpoint) t)
      else (404, ''404 page not found'' @ [CHR 0x0A]))"

section \<open>cmd/conformance\<close>

text \<open>\<open>Encoder.SetIndent\<close>: every element on a line of its own, two spaces deeper.\<close>

fun indent_json :: "string \<Rightarrow> json \<Rightarrow> string" where
  "indent_json nl (JArr vs) =
     (if vs = [] then ''[]''
      else ''['' @ nl @ ''  '' @ join ('','' @ nl @ ''  '') (map (indent_json (nl @ ''  '')) vs) @ nl @ '']'')"
| "indent_json nl (JObj kvs) =
     (if kvs = [] then ''{}''
      else ''{'' @ nl @ ''  ''
        @ join ('','' @ nl @ ''  '') (map (\<lambda>(k, v). print_string k @ '': '' @ indent_json (nl @ ''  '') v) kvs)
        @ nl @ ''}'')"
| "indent_json nl v = print_json v"

definition enc_case :: "case_record \<Rightarrow> json" where
  "enc_case c = JObj
     ([(''id'', JStr (cs_ID c)), (''phase'', JStr (cs_Phase c)), (''title'', JStr (cs_Title c)),
       (''criterion'', JStr (cs_Criterion c)), (''status'', JStr (status_label (cs_Status c)))]
      @ omit_empty (cs_Detail c = []) ''detail'' (JStr (cs_Detail c)))"

definition enc_report :: "report \<Rightarrow> json option" where
  "enc_report r =
     (if four_digit_year (rp_StartedAt r) \<and> four_digit_year (rp_FinishedAt r) then
        Some (JObj [(''base_url'', JStr (rp_BaseURL r)), (''started_at'', enc_time (rp_StartedAt r)),
          (''finished_at'', enc_time (rp_FinishedAt r)),
          (''cases'', if rp_Cases r = [] then JNull else JArr (map enc_case (rp_Cases r)))])
      else None)"

record conformance_line =
  cf_baseURL :: "string option"
  cf_aliasDomain :: "string option"
  cf_writeID :: "string option"
  cf_probeValue :: "string option"
  cf_pageSize :: "int option"
  cf_asJSON :: "bool option"
  cf_rps :: "rat option"

text \<open>What the program prints and the status it exits with; an error goes to the other stream.\<close>

definition print_report :: "bool \<Rightarrow> report \<Rightarrow> string result" where
  "print_report asJSON r =
     (if asJSON then
        (case enc_report r of
           None \<Rightarrow> Inl (Plain ''json: error calling MarshalJSON for type time.Time'')
         | Some v \<Rightarrow> Inr (indent_json [CHR 0x0A] v @ [CHR 0x0A]))
      else Inr (report_text r))"

definition conformance_run :: "(string \<Rightarrow> string) \<Rightarrow> conformance_line \<Rightarrow> 'n transport \<Rightarrow> 'n net \<Rightarrow>
    (string result \<times> nat) \<times> 'n net" where
  "conformance_run getenv l t w =
     (let baseURL = flag (cf_baseURL l) (getenv ''DIRECTORY_BASE_URL''); token = getenv ''DIRECTORY_TOKEN'' in
      if baseURL = [] \<or> token = [] then
        ((Inl (Plain ''set -base-url (or DIRECTORY_BASE_URL) and DIRECTORY_TOKEN''), 2), w)
      else
        case client_New t \<lparr>co_BaseURL = baseURL, co_Token = token, co_HTTPClient = None, co_MaxRetries = 0,
               co_RequestsPerSecond = flag (cf_rps l) 5,
               co_UserAgent = ''helppi-scim-go/1.0 (+conformance)'', co_Sleep = None, co_Backoff = None\<rparr> of
          Inl e \<Rightarrow> ((Inl e, 2), w)
        | Inr c \<Rightarrow>
            case Check (client_probe c)
                \<lparr>pb_AliasDomain = flag (cf_aliasDomain l) [], pb_WriteID = flag (cf_writeID l) [],
                 pb_ProbeExternalID = flag (cf_probeValue l) [], pb_PageSize = flag (cf_pageSize l) 2\<rparr> baseURL w of
              (report, w') \<Rightarrow>
                case print_report (flag (cf_asJSON l) False) report of
                  Inl e \<Rightarrow> ((Inl e, 2), w')
                | Inr text \<Rightarrow> ((Inr text, exit_status report), w'))"

text \<open>The three statuses: 2 for a run without a report, else 1 or 0 by the cases that failed.\<close>

lemma conformance_failed: "conformance_run getenv l t w = ((Inl e, code), w') \<Longrightarrow> code = 2"
  by (auto simp: conformance_run_def Let_def split: if_splits sum.splits prod.splits)

lemma conformance_reported:
  "conformance_run getenv l t w = ((Inr text, code), w') \<Longrightarrow> \<exists>c opt report. code = (if OK report then 0 else 1)
    \<and> print_report (flag (cf_asJSON l) False) report = Inr text
    \<and> Check (client_probe c) opt (flag (cf_baseURL l) (getenv ''DIRECTORY_BASE_URL'')) w = (report, w')"
  by (auto simp: conformance_run_def exit_status_def Let_def split: if_splits sum.splits prod.splits)

text \<open>\<open>Run\<close>, the suite as a Go test: the name of each subtest, and what it reports, if anything.\<close>

datatype subtest = Passes | Errors string | Skips string

definition subtest_of :: "case_record \<Rightarrow> string \<times> subtest" where
  "subtest_of c =
     (cs_ID c @ ''_'' @ slug (cs_Title c),
      case cs_Status c of
        Fail \<Rightarrow> Errors (cs_Title c @ '' ('' @ cs_Criterion c @ ''): '' @ cs_Detail c)
      | Skip \<Rightarrow> Skips (cs_Detail c)
      | Pass \<Rightarrow> Passes)"

definition Run :: "'w probe_dir \<Rightarrow> probe_options \<Rightarrow> 'w \<Rightarrow> (string \<times> subtest) list \<times> 'w" where
  "Run d opt w = (case Check d opt [] w of (report, w') \<Rightarrow> (map subtest_of (rp_Cases report), w'))"

end
