(* ===== verification/Spec2Isabelle.thy ===== *)
theory Spec2Isabelle
  imports Data_Properties Postgres_Properties Conformance_Properties Create_Race Fake_Cycle Fake_Faults Fake_Writes
    Commands
begin

text \<open>
  \<^bold>\<open>The program.\<close> helppi-scim-go keeps a partner's account base in line with a
  directory that speaks SCIM 2.0. A worker (\<open>cmd/directorysyncd\<close>) runs cycles of a reconciler
  (\<open>directory\<close>): an incremental cycle reads the records changed since the checkpoint, a full
  cycle reads all of them and reports drift. The reconciler reads through a client (\<open>scim\<close>)
  that retries, throttles and pages, and writes to a store (\<open>store\<close>, in memory or on
  PostgreSQL). The only write to the directory is the local account's id, as \<open>externalId\<close>.
  Around these stand a conformance suite with its command (\<open>conformance\<close>,
  \<open>cmd/conformance\<close>), the contract suite for stores (\<open>store/storetest\<close>) and a fake directory
  with fault injection (\<open>scimtest\<close>).

  \<^bold>\<open>The model.\<close> A structure of the source is a record, an error a value of
  \<open>goerror\<close>, a function that returns a value and an error returns \<open>result\<close>, one that mutates
  threads the state it mutates. An interface of the source (\<open>Directory\<close>, \<open>store.Store\<close>, the
  HTTP transport, the database pool, the connection of a migration) is a record of operations
  over a world of its own, and what is promised of it is a locale. A \<open>time.Time\<close> is an
  integer number of nanoseconds, a string is the list of its bytes.

  \<^bold>\<open>Foundations.\<close>
  \<^item> \<open>Prelude\<close>: signed 64-bit arithmetic, \<open>strconv\<close> and \<open>strings\<close> functions.
  \<^item> \<open>Go_Time\<close>, \<open>Rfc3339\<close>, \<open>Rfc3339_Nano\<close>, \<open>Http_Date\<close>: instants, the civil calendar, the
    timestamp formats the program prints and parses, with their round trips.
  \<^item> \<open>Go_Errors\<close>: errors, wrapping, \<open>errors.Is\<close> and \<open>errors.As\<close>; the payload and predicates
    of \<open>scim/errors.go\<close>.
  \<^item> \<open>Json\<close>: parser and printer of \<open>encoding/json\<close>, and that parsing undoes printing.

  \<^bold>\<open>The client\<close>, \<open>scim/client.go\<close>, \<open>limiter.go\<close>, \<open>types.go\<close>.
  \<^item> \<open>Transport\<close>: requests, responses, the environment of the client (network, context,
    clock, timers, random source), URL resolution and escaping (\<open>Url_Lemmas\<close>), the throttle.
  \<^item> \<open>Scim_Types\<close>, \<open>Scim_Json\<close>, \<open>Scim_Encode\<close>: the structures and how JSON fills and prints them.
  \<^item> \<open>Client\<close>: \<open>New\<close>, one attempt, the retry loop, \<open>Page\<close>, \<open>ListUsers\<close>, \<open>GetUser\<close>, \<open>Patch\<close>,
    \<open>PatchExternalID\<close>, the configuration call. Its state is the throttle's next slot beside the
    environment.
  \<^item> \<open>Client_Steps\<close>: the requests a call contains, as a step relation; \<open>Client_Contract\<close>: the client
    as the reconciler's directory (interpretation \<open>net\<close>), with the exact account of a walk (\<open>paged\<close>) and
    of the records it hands over (\<open>handed\<close>); \<open>Client_Results\<close> and
    \<open>Client_Properties\<close>: bounds on requests, retries, waits, pages and paths.

  \<^bold>\<open>The stores\<close>, \<open>store\<close>.
  \<^item> \<open>Store\<close>: the interface and its promises, locale \<open>store_contract\<close> over an abstract table of
    accounts, a checkpoint and the precision in which it is kept.
  \<^item> \<open>Memory_Store\<close>: \<open>memory.go\<close>, two maps that share pointers into a heap (interpretation \<open>mem\<close>).
  \<^item> \<open>Postgres\<close>: \<open>postgres.go\<close> over the statements it issues; locale \<open>pg_database\<close> is their SQL
    meaning and gives \<open>store_contract\<close> (\<open>sublocale\<close>); \<open>Postgres_Tables\<close> interprets it on the two
    tables of the first migration. \<open>Postgres_Lock\<close>: \<open>lock.go\<close>, the key, \<open>WithSyncLock\<close> and the
    server's table of advisory locks, from keys to sessions, among many workers of many partners
    as a step relation. \<open>Migrations\<close>: \<open>migrate.go\<close>.
  \<^item> \<open>Store_Suite\<close>: the tests of \<open>storetest.go\<close>, and that a store which keeps the contract and does
    not fail passes them (locale \<open>available_store\<close>, interpretation \<open>mem_suite\<close>).

  \<^bold>\<open>The reconciler and its worker\<close>, \<open>directory/directory.go\<close>, \<open>cmd/directorysyncd\<close>.
  \<^item> \<open>Reconciler\<close>: the code, from \<open>validate\<close> and \<open>apply\<close> (named \<open>apply_record\<close>) to \<open>Incremental\<close> and
    \<open>Full\<close>; the captured variables of the walk are \<open>walk_state\<close>.
  \<^item> \<open>Reconciler_Spec\<close>: what it is meant to do, without its code: \<open>upsert\<close>, the effect one record may
    have, \<open>evolves\<close>, what a series of records may do, \<open>desired\<close>, and the locale \<open>reconciler\<close> that
    joins the contracts of store and directory.
  \<^item> \<open>Reconciler_Apply\<close>, \<open>Reconciler_Cycle\<close>, \<open>Reconciler_Safety\<close>, \<open>Reconciler_Results\<close>,
    \<open>Reconciler_Success\<close>: one record, the walk, the safety of a cycle, the results about cycles, and
    what a cycle without an error has achieved.
  \<^item> \<open>Worker\<close>, \<open>Worker_Life\<close>: preflight, metrics, the loop; the worker's life as a step relation
    in which cycles of either kind alternate with an outside world that moves on.
    \<open>Scenario\<close>: a run evaluated by the kernel from the bytes of a response.
    \<open>Worker_Properties\<close>, \<open>Data_Properties\<close>: the properties of the whole.
  \<^item> \<open>Create_Race\<close>: several workers that apply active records of the same new identity, cut at their
    store calls (an inactive record of an unknown identity writes nothing and takes no part).
  \<^item> \<open>Commands\<close>: both programs from environment and flags to their end.

  \<^bold>\<open>The test side.\<close>
  \<^item> \<open>Fake_Directory\<close>: \<open>scimtest.go\<close>, its state and its handler. \<open>Fake_Results\<close>, \<open>Fake_Walk\<close>,
    \<open>Fake_Records\<close>, \<open>Fake_Properties\<close>: client and fake composed, byte for byte over the wire.
    \<open>Fake_Faults\<close>: its fault injection against the retry loop. \<open>Fake_Sync\<close>, \<open>Fake_Cycle\<close>: the reconciler
    on top of both, with any store that keeps the contract and answers; a full cycle brings the two
    sides in step, the next one writes nothing but perhaps the checkpoint.
  \<^item> \<open>Conformance\<close>, \<open>Conformance_Checks\<close>: report, runner and the fourteen checks.
    \<open>Conformance_Results\<close> (locale \<open>probe_contract\<close>, interpretation \<open>suite\<close> on the client),
    \<open>Conformance_Properties\<close>: the calls and writes of a run (\<open>suite_trail\<close>) and what a passing run vouches for. \<open>Fake_Conforms\<close>,
    \<open>Fake_Writes\<close>: the suite through the client against the fake, which passes, read-only and with writes.

  \<^bold>\<open>Bounds and fuel.\<close> The JSON parser takes the length of its input as fuel, and every
  value takes at least one character, so it never runs out on a text it could parse
  (\<open>parse_print\<close> shows it for printed values). The retry loop ends by its counter, the loop over
  pages because an announced total is a 64-bit integer; no other recursion has fuel. Arithmetic is
  wrapped to 64 bits where a value from outside can reach the edge (backoff, \<open>Retry-After\<close>, the page
  limit, parsed durations); sums of instants and counters of one run are not.

  \<^bold>\<open>Parameters.\<close> The network, the clock, the random source, the database and the files of a
  migration are arguments. What is assumed of them stands in the locales above as documented behaviour;
  each locale is interpreted, and each property with such a hypothesis has a witness.

  \<^bold>\<open>Not modelled.\<close> Logging; the HTTP server and the syntax of flags; signals; the rounding
  of floating-point numbers (the request rate is rational, fractions of a parsed duration are exact);
  host checks of \<open>url.Parse\<close>, the normalisation of the base URL (it is taken to have a path, no
  query and no dot segments of its own) and the wording of its errors and of JSON errors; the content type
  \<open>net/http\<close> sniffs, a parameter; the merging of list elements when a JSON object repeats a key;
  invalid UTF-8 in JSON strings; time zones when printing (everything is UTC) and timestamps
  written with escapes; what a database does when its answer to a commit is lost; the wording of
  test complaints and \<open>testing.T\<close>; the wrap-around of the memory store's counter of ids; overlapping requests in the fake and interleavings
  inside one store call: a mutex or the database makes it one step.
\<close>

end
